(* ===== verification/Prelude.thy ===== *)
theory Prelude
  imports Main "HOL-Library.Word" "HOL-Library.Signed_Division"
begin

section \<open>Shared types, automation and list lemmas\<close>

text \<open>
  What every component uses: Go's fixed-width integers and byte slices, the panics of the
  runtime as values, truncated division, the eight-byte big-endian buffers that the hash
  functions fill, the \<open>seen\<close>-map loops that keep the first element per key, and buffered
  channels with non-blocking sends and receives.
\<close>

type_synonym u8 = "8 word"
type_synonym u64 = "64 word"
type_synonym bytes = "8 word list"

text \<open>A Go runtime panic that the code can reach, as a value.\<close>

datatype panic = DivideByZero | NilDereference | IndexOutOfRange | SliceBounds | ExplicitPanic

named_theorems go_simps \<open>defining equations that unfold an operation of the model\<close>
named_theorems wf_intros \<open>preservation of the components' invariants\<close>

subsection \<open>Truncated division\<close>

lemma sdiv_nonneg [simp]: "0 \<le> a \<Longrightarrow> 0 < b \<Longrightarrow> a sdiv b = a div (b :: int)"
  by (cases "a = 0") (simp_all add: signed_divide_int_def)

subsection \<open>Big-endian buffers\<close>

text \<open>The eight assignments \<open>buf[i] = byte(x >> (56 - 8 * i))\<close>.\<close>

definition be8 :: "u64 \<Rightarrow> bytes" where
  "be8 x = [ucast (drop_bit 56 x), ucast (drop_bit 48 x), ucast (drop_bit 40 x),
            ucast (drop_bit 32 x), ucast (drop_bit 24 x), ucast (drop_bit 16 x),
            ucast (drop_bit 8 x), ucast x]"

lemma length_be8 [simp]: "length (be8 x) = 8"
  by (simp add: be8_def)

lemma ucast_byte_bit:
  fixes x y :: u64
  assumes "(ucast (drop_bit k x) :: u8) = ucast (drop_bit k y)" and "n < 8"
  shows "bit x (k + n) = bit y (k + n)"
proof -
  have "bit (ucast (drop_bit k x) :: u8) n = bit (ucast (drop_bit k y) :: u8) n"
    using assms(1) by simp
  then show ?thesis
    using assms(2) by (simp add: bit_simps add.commute)
qed

lemma be8_bytes: "be8 x = rev (map (\<lambda>q. ucast (drop_bit (8 * q) x)) [0..<8])"
  by (simp add: be8_def upt_rec)

lemma be8_inject [simp]: "be8 x = be8 y \<longleftrightarrow> x = y"
proof
  assume "be8 x = be8 y"
  then have bytes: "\<forall>q \<in> set [0..<8]. (ucast (drop_bit (8 * q) x) :: u8) = ucast (drop_bit (8 * q) y)"
    by (simp only: be8_bytes rev_is_rev_conv map_eq_conv)
  show "x = y"
  proof (rule bit_word_eqI)
    fix n assume "n < LENGTH(64)"
    then have "n div 8 \<in> set [0..<8]" by simp
    with bytes have "(ucast (drop_bit (8 * (n div 8)) x) :: u8) = ucast (drop_bit (8 * (n div 8)) y)"
      by blast
    then have "bit x (8 * (n div 8) + n mod 8) = bit y (8 * (n div 8) + n mod 8)"
      by (rule ucast_byte_bit) simp
    then show "bit x n = bit y n" by simp
  qed
qed simp

text \<open>A suffix of fixed length determines the split.\<close>

lemma append_be8_inject [simp]: "xs @ be8 x = ys @ be8 y \<longleftrightarrow> xs = ys \<and> x = y"
  by (simp add: append_eq_append_conv)

subsection \<open>Keeping the first element per key\<close>

text \<open>
  The loops over votes keep a map \<open>seen\<close> of signer identities and skip an element whose
  identity is already in it. \<open>first_by\<close> is what such a loop keeps.
\<close>

fun first_by :: "('a \<Rightarrow> 'k) \<Rightarrow> 'k set \<Rightarrow> 'a list \<Rightarrow> 'a list" where
  "first_by f seen [] = []"
| "first_by f seen (x # xs) =
     (if f x \<in> seen then first_by f seen xs else x # first_by f (insert (f x) seen) xs)"

lemma first_by_keys: "f ` set (first_by f seen xs) = f ` set xs - seen"
  by (induction xs arbitrary: seen) auto

lemma first_by_subset: "set (first_by f seen xs) \<subseteq> set xs"
  by (induction xs arbitrary: seen) (auto dest!: subsetD)

lemma first_by_distinct [simp]: "distinct (map f (first_by f seen xs))"
proof (induction xs arbitrary: seen)
  case (Cons x xs)
  have "f x \<notin> f ` set (first_by f (insert (f x) seen) xs)"
    by (simp add: first_by_keys)
  with Cons show ?case by simp
qed simp

lemma first_by_length: "length (first_by f seen xs) = card (f ` set xs - seen)"
proof -
  have "length (first_by f seen xs) = card (set (map f (first_by f seen xs)))"
    by (metis distinct_card first_by_distinct length_map)
  then show ?thesis by (simp add: first_by_keys)
qed

lemma first_by_id: "distinct (map f xs) \<Longrightarrow> f ` set xs \<inter> seen = {} \<Longrightarrow> first_by f seen xs = xs"
proof (induction xs arbitrary: seen)
  case (Cons x xs)
  then have "f ` set xs \<inter> insert (f x) seen = {}" by auto
  with Cons show ?case by simp
qed simp

lemma first_by_length_le: "length (first_by f seen xs) \<le> length xs"
  by (induction xs arbitrary: seen) (auto intro: le_SucI)

lemma first_by_hd: "xs \<noteq> [] \<Longrightarrow> first_by f {} xs \<noteq> [] \<and> hd (first_by f {} xs) = hd xs"
  by (cases xs) auto

lemma take_distinct_card:
  "distinct (map f xs) \<Longrightarrow> n \<le> length xs \<Longrightarrow> card (f ` set (take n xs)) = n"
proof -
  assume "distinct (map f xs)" "n \<le> length xs"
  then have "distinct (map f (take n xs))" by (metis distinct_take take_map)
  then have "card (set (map f (take n xs))) = length (map f (take n xs))"
    by (rule distinct_card)
  with \<open>n \<le> length xs\<close> show ?thesis by simp
qed

subsection \<open>Channels\<close>

text \<open>
  A Go channel: its capacity, its buffer, the number of goroutines blocked in a receive, and
  the values handed to them. \<open>chan_try_send\<close> is \<open>select { case ch <- v: default: }\<close>,
  \<open>chan_try_recv\<close> is \<open>select { case v := <-ch: default: }\<close> on a channel with no blocked
  senders; both answer \<open>None\<close> when the default branch runs.
\<close>

record 'a channel =
  ch_cap :: nat
  ch_buf :: "'a list"
  ch_readers :: nat
  ch_taken :: "'a list"

definition make_chan :: "nat \<Rightarrow> 'a channel" where
  "make_chan n = \<lparr>ch_cap = n, ch_buf = [], ch_readers = 0, ch_taken = []\<rparr>"

definition chan_try_send :: "'a channel \<Rightarrow> 'a \<Rightarrow> 'a channel option" where
  "chan_try_send ch v =
     (if 0 < ch_readers ch
      then Some (ch\<lparr>ch_readers := ch_readers ch - 1, ch_taken := ch_taken ch @ [v]\<rparr>)
      else if length (ch_buf ch) < ch_cap ch then Some (ch\<lparr>ch_buf := ch_buf ch @ [v]\<rparr>)
      else None)"

definition chan_try_recv :: "'a channel \<Rightarrow> ('a \<times> 'a channel) option" where
  "chan_try_recv ch =
     (case ch_buf ch of [] \<Rightarrow> None | v # vs \<Rightarrow> Some (v, ch\<lparr>ch_buf := vs\<rparr>))"

definition chan_ok :: "'a channel \<Rightarrow> bool" where
  "chan_ok ch \<longleftrightarrow> length (ch_buf ch) \<le> ch_cap ch \<and> (ch_readers ch = 0 \<or> ch_buf ch = [])"

lemma chan_ok_make [simp]: "chan_ok (make_chan n)"
  by (simp add: chan_ok_def make_chan_def)

lemma chan_ok_send [wf_intros]: "chan_ok ch \<Longrightarrow> chan_try_send ch v = Some ch' \<Longrightarrow> chan_ok ch'"
  by (auto simp: chan_ok_def chan_try_send_def split: if_splits)

lemma chan_ok_recv [wf_intros]: "chan_ok ch \<Longrightarrow> chan_try_recv ch = Some (v, ch') \<Longrightarrow> chan_ok ch'"
  by (auto simp: chan_ok_def chan_try_recv_def split: list.splits)

end
