(* ===== verification/Wire.thy ===== *)
theory Wire
  imports Prelude
begin

section \<open>Wire types\<close>

text \<open>
  The protobuf messages of \<^verbatim>\<open>proto/dhotstuff.proto\<close> as the Go structs of
  \<^verbatim>\<open>proto/dhotstuff.pb.go\<close> have them. A message that is always present is a record, one
  that can be a nil pointer is an \<open>option\<close>, and the generated getters that answer the zero
  value on a nil receiver are functions of that \<open>option\<close>. The enum is open, as proto3
  enums are: any 32-bit value can arrive.
\<close>

type_synonym RequestType = "32 word"

definition RequestType_REGULAR :: RequestType where [go_simps]: "RequestType_REGULAR = 0"
definition RequestType_ADD :: RequestType where [go_simps]: "RequestType_ADD = 1"
definition RequestType_REMOVE :: RequestType where [go_simps]: "RequestType_REMOVE = 2"

lemma RequestType_distinct [simp]:
  "RequestType_ADD \<noteq> RequestType_REMOVE" "RequestType_REMOVE \<noteq> RequestType_ADD"
  "RequestType_REGULAR \<noteq> RequestType_ADD" "RequestType_ADD \<noteq> RequestType_REGULAR"
  "RequestType_REGULAR \<noteq> RequestType_REMOVE" "RequestType_REMOVE \<noteq> RequestType_REGULAR"
  by (simp_all add: go_simps)

record MembershipRequest =
  rq_Type :: RequestType
  rq_ClientId :: string
  rq_Payload :: bytes

record QuorumCert =
  qc_Type :: string
  qc_ViewNumber :: u64
  qc_ConfNumber :: u64
  qc_BlockHash :: bytes
  qc_Signatures :: "bytes list"
  qc_SignerIds :: "string list"

record Block =
  ParentHash :: bytes
  Batch :: "MembershipRequest list"
  Justify :: "QuorumCert option"
  Height :: u64
  ConfNumber :: u64

record NewViewMsg =
  nv_ViewNumber :: u64
  nv_ConfNumber :: u64
  nv_GenericQc :: "QuorumCert option"

record VoteMsg =
  vote_ViewNumber :: u64
  vote_ConfNumber :: u64
  vote_BlockHash :: bytes
  vote_Signature :: bytes
  vote_SignerId :: string

text \<open>Getters of a certificate that may be nil.\<close>

definition GetViewNumber :: "QuorumCert option \<Rightarrow> u64" where
  [go_simps]: "GetViewNumber qc = (case qc of None \<Rightarrow> 0 | Some q \<Rightarrow> qc_ViewNumber q)"

definition GetBlockHash :: "QuorumCert option \<Rightarrow> bytes" where
  [go_simps]: "GetBlockHash qc = (case qc of None \<Rightarrow> [] | Some q \<Rightarrow> qc_BlockHash q)"

lemma GetViewNumber_simps [simp]: "GetViewNumber None = 0" "GetViewNumber (Some q) = qc_ViewNumber q"
  by (simp_all add: GetViewNumber_def)

lemma GetBlockHash_simps [simp]: "GetBlockHash None = []" "GetBlockHash (Some q) = qc_BlockHash q"
  by (simp_all add: GetBlockHash_def)

end
