(* ===== verification/Safety.thy ===== *)
theory Safety
  imports Wire
begin

section \<open>Block hashes and the safety rules\<close>

text \<open>
  \<^verbatim>\<open>internal/consensus/safety.go\<close>. The hash function of \<^verbatim>\<open>crypto/sha256\<close> is the argument
  \<open>sha\<close>; \<open>BlockchainReader\<close> is a record of its two methods. A certificate that may be nil is
  an \<open>option\<close>.
\<close>

record BlockchainReader =
  bc_Get :: "bytes \<Rightarrow> Block option"
  bc_Extends :: "bytes \<Rightarrow> bytes \<Rightarrow> bool"

record SafetyState =
  LockedQC :: "QuorumCert option"
  GenericQC :: "QuorumCert option"

definition hashBlock :: "(bytes \<Rightarrow> bytes) \<Rightarrow> Block \<Rightarrow> bytes" where
  "hashBlock sha b = sha (ParentHash b @ be8 (Height b))"

definition SafeNode :: "SafetyState \<Rightarrow> Block \<Rightarrow> QuorumCert option \<Rightarrow> BlockchainReader \<Rightarrow> bool" where
  "SafeNode s node qc bc =
     (case LockedQC s of
        None \<Rightarrow> True
      | Some locked \<Rightarrow>
          (if qc_ViewNumber locked < GetViewNumber qc then True
           else bc_Extends bc (ParentHash node) (qc_BlockHash locked)))"

definition UpdateOnOneChain :: "(bytes \<Rightarrow> bytes) \<Rightarrow> SafetyState \<Rightarrow> Block \<Rightarrow> Block \<Rightarrow> SafetyState" where
  "UpdateOnOneChain sha s bStar bDouble =
     (if ParentHash bStar = hashBlock sha bDouble
      then s\<lparr>GenericQC := Justify bStar\<rparr> else s)"

definition UpdateOnTwoChain :: "(bytes \<Rightarrow> bytes) \<Rightarrow> SafetyState \<Rightarrow> Block \<Rightarrow> Block \<Rightarrow> Block
    \<Rightarrow> SafetyState" where
  "UpdateOnTwoChain sha s bStar bDouble bPrime =
     (if ParentHash bStar \<noteq> hashBlock sha bDouble then s
      else if ParentHash bDouble = hashBlock sha bPrime
           then s\<lparr>LockedQC := Justify bDouble\<rparr> else s)"

subsection \<open>What the block hash covers\<close>

lemma hashBlock_cong:
  "ParentHash b = ParentHash b' \<Longrightarrow> Height b = Height b' \<Longrightarrow> hashBlock sha b = hashBlock sha b'"
  by (simp add: hashBlock_def)

text \<open>
  Two inputs that hash alike are a collision of \<open>sha\<close> unless parent and height agree:
  the eight bytes of the height end the input, so they can be split off.
\<close>

definition collision_free :: "(bytes \<Rightarrow> bytes) \<Rightarrow> Block set \<Rightarrow> bool" where
  "collision_free sha B \<longleftrightarrow>
     inj_on sha ((\<lambda>b. ParentHash b @ be8 (Height b)) ` B)"

lemma hashBlock_inject:
  assumes "collision_free sha B" "b \<in> B" "b' \<in> B"
  shows "hashBlock sha b = hashBlock sha b' \<longleftrightarrow> ParentHash b = ParentHash b' \<and> Height b = Height b'"
proof -
  have "hashBlock sha b = hashBlock sha b' \<longleftrightarrow>
      ParentHash b @ be8 (Height b) = ParentHash b' @ be8 (Height b')"
    using inj_on_eq_iff [OF assms(1) [unfolded collision_free_def]] assms(2,3)
    by (simp add: hashBlock_def)
  then show ?thesis by simp
qed

subsection \<open>Chains of parent links\<close>

definition extends :: "(bytes \<Rightarrow> bytes) \<Rightarrow> Block \<Rightarrow> Block \<Rightarrow> bool" where
  "extends sha b b' \<longleftrightarrow> ParentHash b = hashBlock sha b'"

text \<open>\<open>chained sha [b1, b2, b3]\<close>: each block's parent is its successor in the list.\<close>

fun chained :: "(bytes \<Rightarrow> bytes) \<Rightarrow> Block list \<Rightarrow> bool" where
  "chained sha (b # b' # bs) \<longleftrightarrow> extends sha b b' \<and> chained sha (b' # bs)"
| "chained sha bs \<longleftrightarrow> True"

text \<open>
  Equal hashes at the head force equal ancestors, position by position, up to what the hash
  covers: parent hash and height.
\<close>

lemma chained_unique:
  assumes "collision_free sha (set bs \<union> set bs')"
    and "chained sha bs" "chained sha bs'" "length bs = length bs'"
    and "bs \<noteq> [] \<Longrightarrow> hashBlock sha (hd bs) = hashBlock sha (hd bs')"
  shows "map ParentHash bs = map ParentHash bs' \<and> map Height bs = map Height bs'"
  using assms
proof (induction bs arbitrary: bs')
  case (Cons b bs)
  then obtain b' cs where bs': "bs' = b' # cs" by (cases bs') auto
  have head: "ParentHash b = ParentHash b' \<and> Height b = Height b'"
    using Cons.prems(1,5) hashBlock_inject [of sha "set (b # bs) \<union> set bs'" b b']
    by (simp add: bs')
  have "collision_free sha (set bs \<union> set cs)"
    using Cons.prems(1) unfolding collision_free_def bs' by (rule inj_on_subset) auto
  moreover have "chained sha bs" "chained sha cs"
    using Cons.prems(2,3) by (cases bs, simp_all add: bs') (cases cs, simp_all)
  moreover have "bs \<noteq> [] \<Longrightarrow> hashBlock sha (hd bs) = hashBlock sha (hd cs)"
    using Cons.prems(2,3,4) head by (cases bs; cases cs) (auto simp: bs' extends_def)
  ultimately have "map ParentHash bs = map ParentHash cs \<and> map Height bs = map Height cs"
    using Cons.IH [of cs] Cons.prems(4) by (simp add: bs')
  with head show ?case by (simp add: bs')
qed simp

subsection \<open>The interface of a block store\<close>

text \<open>
  \<open>ancestor\<close> follows parent hashes through a store; \<open>ancestor_within n\<close> does so for at most
  \<open>n\<close> links. What the safety rule needs of \<open>Extends\<close>: it never claims an ancestry that the
  store does not have, and it finds every ancestor up to some depth.
\<close>

inductive ancestor :: "(bytes \<Rightarrow> Block option) \<Rightarrow> bytes \<Rightarrow> bytes \<Rightarrow> bool" for getb where
  ancestor_refl: "ancestor getb h h"
| ancestor_step: "getb h = Some b \<Longrightarrow> ancestor getb (ParentHash b) a \<Longrightarrow> ancestor getb h a"

primrec ancestor_within :: "nat \<Rightarrow> (bytes \<Rightarrow> Block option) \<Rightarrow> bytes \<Rightarrow> bytes \<Rightarrow> bool" where
  "ancestor_within 0 getb h a \<longleftrightarrow> h = a"
| "ancestor_within (Suc n) getb h a \<longleftrightarrow>
     h = a \<or> (case getb h of None \<Rightarrow> False | Some b \<Rightarrow> ancestor_within n getb (ParentHash b) a)"

lemma ancestor_within_sound: "ancestor_within n getb h a \<Longrightarrow> ancestor getb h a"
  by (induction n arbitrary: h) (auto intro: ancestor.intros split: option.splits)

locale block_store =
  fixes reader :: BlockchainReader
    and depth :: nat
  assumes extends_sound: "bc_Extends reader h a \<Longrightarrow> ancestor (bc_Get reader) h a"
    and extends_complete: "ancestor_within depth (bc_Get reader) h a \<Longrightarrow> bc_Extends reader h a"
begin

lemma extends_refl: "bc_Extends reader h h"
  by (rule extends_complete) (cases depth; simp)

lemma SafeNode_locked:
  assumes "SafeNode s node qc reader" "LockedQC s = Some l"
    and "GetViewNumber qc \<le> qc_ViewNumber l"
  shows "ancestor (bc_Get reader) (ParentHash node) (qc_BlockHash l)"
  using assms by (intro extends_sound) (auto simp: SafeNode_def)

lemma SafeNode_accepts:
  assumes "LockedQC s = Some l" "ancestor_within depth (bc_Get reader) (ParentHash node) (qc_BlockHash l)"
  shows "SafeNode s node qc reader"
  using assms extends_complete by (simp add: SafeNode_def)

end

end
