(* ===== verification/Pipeline.thy ===== *)
theory Pipeline
  imports Safety "HOL-Library.Sublist"
begin

section \<open>The commit pipeline\<close>

text \<open>
  \<^verbatim>\<open>internal/consensus/pipeline.go\<close>: a four-slot window over the proposed blocks. The array
  is a record of four slots; slot 0 is the oldest.
\<close>

record PipelineState =
  Window0 :: "Block option"
  Window1 :: "Block option"
  Window2 :: "Block option"
  Window3 :: "Block option"

definition empty_pipeline :: PipelineState where
  "empty_pipeline = \<lparr>Window0 = None, Window1 = None, Window2 = None, Window3 = None\<rparr>"

definition CanCommit :: "PipelineState \<Rightarrow> bool" where
  "CanCommit p \<longleftrightarrow> Window0 p \<noteq> None \<and> Window1 p \<noteq> None \<and> Window2 p \<noteq> None \<and> Window3 p \<noteq> None"

definition Advance :: "(bytes \<Rightarrow> bytes) \<Rightarrow> PipelineState \<Rightarrow> Block \<Rightarrow> PipelineState \<times> Block option" where
  "Advance sha p newBlock =
     (let p' = \<lparr>Window0 = Window1 p, Window1 = Window2 p, Window2 = Window3 p,
                Window3 = Some newBlock\<rparr>
      in (p',
          case Window0 p of
            None \<Rightarrow> None
          | Some candidate \<Rightarrow>
              if CanCommit p' then
                (let bStar = the (Window2 p'); bDouble = the (Window1 p'); bPrime = the (Window0 p')
                 in if ParentHash bStar = hashBlock sha bDouble
                       \<and> ParentHash bDouble = hashBlock sha bPrime
                       \<and> ParentHash bPrime = hashBlock sha candidate
                    then Some candidate else None)
              else None))"

definition Reset :: "PipelineState \<Rightarrow> PipelineState" where
  "Reset p = empty_pipeline"

subsection \<open>The interface of a four-slot commit window\<close>

text \<open>
  The same window appears three times in the repository (the engine and both benchmark
  harnesses). Its contract: a push shifts the slots, and a block leaves slot 0 as committed
  when the four old slots are full and linked by parent hashes.
\<close>

definition window_commit :: "(bytes \<Rightarrow> bytes) \<Rightarrow> Block option list \<Rightarrow> Block option" where
  "window_commit sha ws =
     (if None \<in> set ws then None
      else if chained sha (rev (map the ws)) then ws ! 0 else None)"

text \<open>Pushing a sequence of blocks and collecting what each push answers.\<close>

primrec feed :: "('w \<Rightarrow> Block \<Rightarrow> 'w \<times> Block option) \<Rightarrow> 'w \<Rightarrow> Block list \<Rightarrow> 'w \<times> Block option list" where
  "feed adv w [] = (w, [])"
| "feed adv w (b # bs) =
     (case adv w b of (w', out) \<Rightarrow> case feed adv w' bs of (w'', outs) \<Rightarrow> (w'', out # outs))"

lemma feed_append:
  "feed adv w (bs @ [b]) =
     (let (w1, outs) = feed adv w bs; (w2, out) = adv w1 b in (w2, outs @ [out]))"
  by (induction bs arbitrary: w) (auto split: prod.splits)

lemma window_commit_map:
  "window_commit sha (map Some bs) =
     (if chained sha (rev bs) then (map Some bs) ! 0 else None)"
  by (simp add: window_commit_def image_iff comp_def)

locale commit_window =
  fixes sha :: "bytes \<Rightarrow> bytes"
    and slots :: "'w \<Rightarrow> Block option list"
    and advance :: "'w \<Rightarrow> Block \<Rightarrow> 'w \<times> Block option"
    and start :: 'w
  assumes slots_start: "slots start = [None, None, None, None]"
    and slots_advance: "slots (fst (advance w b)) = tl (slots w) @ [Some b]"
    and advance_commit: "snd (advance w b) = window_commit sha (slots w)"
begin

lemma feed_slots: "slots (fst (feed advance start bs)) = drop (length bs) (replicate 4 None @ map Some bs)"
proof (induction bs rule: rev_induct)
  case Nil
  have "replicate 4 (None :: Block option) = [None, None, None, None]"
    by (simp add: numeral_eq_Suc)
  then show ?case by (simp add: slots_start)
next
  case (snoc b bs)
  have "slots (fst (feed advance start (bs @ [b]))) = tl (slots (fst (feed advance start bs))) @ [Some b]"
    by (simp add: feed_append slots_advance split_def Let_def)
  also have "\<dots> = drop (Suc (length bs)) (replicate 4 None @ map Some bs) @ [Some b]"
    by (simp only: snoc drop_Suc tl_drop)
  also have "\<dots> = drop (length (bs @ [b])) (replicate 4 None @ map Some (bs @ [b]))"
    by simp
  finally show ?case .
qed

lemma feed_length: "length (snd (feed advance w bs)) = length bs"
  by (induction bs arbitrary: w) (simp_all add: split_def)

text \<open>
  The answer to push \<open>k\<close>: block \<open>k - 4\<close>, exactly when blocks \<open>k - 4\<close> to \<open>k - 1\<close> form a chain.
\<close>

definition committed_at :: "Block list \<Rightarrow> nat \<Rightarrow> Block option" where
  "committed_at bs k =
     (if 4 \<le> k \<and> chained sha (rev (take 4 (drop (k - 4) bs))) then Some (bs ! (k - 4)) else None)"

lemma window_commit_slots:
  "window_commit sha (drop (length bs) (replicate 4 None @ map Some bs)) =
     (if 4 \<le> length bs \<and> chained sha (rev (drop (length bs - 4) bs))
      then Some (bs ! (length bs - 4)) else None)"
proof (cases "4 \<le> length bs")
  case True
  then have d: "drop (length bs) (replicate 4 None @ map Some bs) = map Some (drop (length bs - 4) bs)"
    by (simp add: drop_map)
  show ?thesis
    using True unfolding d window_commit_map by simp
next
  case False
  then have "None \<in> set (drop (length bs) (replicate 4 None @ map Some bs))" by simp
  with False show ?thesis by (simp add: window_commit_def)
qed

lemma feed_outputs: "k < length bs \<Longrightarrow> snd (feed advance start bs) ! k = committed_at bs k"
proof (induction bs rule: rev_induct)
  case (snoc b bs)
  let ?f = "feed advance start bs"
  have outs: "snd (feed advance start (bs @ [b])) = snd ?f @ [window_commit sha (slots (fst ?f))]"
    by (simp add: feed_append split_def Let_def advance_commit)
  show ?case
  proof (cases "k < length bs")
    case True
    then have "take 4 (drop (k - 4) (bs @ [b])) = take 4 (drop (k - 4) bs)" if "4 \<le> k"
      using that by simp
    then have "committed_at (bs @ [b]) k = committed_at bs k"
      using True by (auto simp: committed_at_def nth_append)
    with True snoc show ?thesis by (simp add: outs nth_append feed_length)
  next
    case False
    then have k: "k = length bs" using snoc.prems by simp
    have "take 4 (drop (length bs - 4) (bs @ [b])) = drop (length bs - 4) bs" if "4 \<le> length bs"
      using that by simp
    then show ?thesis
      unfolding k outs feed_slots window_commit_slots committed_at_def
      by (auto simp: nth_append feed_length)
  qed
qed simp

end

definition pipeline_slots :: "PipelineState \<Rightarrow> Block option list" where
  "pipeline_slots p = [Window0 p, Window1 p, Window2 p, Window3 p]"

interpretation pipe: commit_window sha pipeline_slots "Advance sha" empty_pipeline
proof
  show "pipeline_slots empty_pipeline = [None, None, None, None]"
    by (simp add: pipeline_slots_def empty_pipeline_def)
  fix w b
  show "pipeline_slots (fst (Advance sha w b)) = tl (pipeline_slots w) @ [Some b]"
    by (simp add: pipeline_slots_def Advance_def Let_def)
  show "snd (Advance sha w b) = window_commit sha (pipeline_slots w)"
    by (cases "Window0 w"; cases "Window1 w"; cases "Window2 w"; cases "Window3 w")
       (simp_all add: pipeline_slots_def Advance_def Let_def window_commit_def CanCommit_def extends_def)
qed

end
