(* ===== verification/Committee.thy ===== *)
theory Committee
  imports Wire
begin

section \<open>Committees\<close>

text \<open>
  \<^verbatim>\<open>internal/membership/committee.go\<close>: the replicas of one configuration, its fault bound
  and quorum threshold, leader rotation, and the derivation of the next configuration from a
  batch of membership requests. The type of public keys and the PKIX parser of Go's
  \<^verbatim>\<open>crypto/x509\<close> are parameters (\<open>'pk\<close> and \<open>parsePKIX\<close>): the code only asks whether
  parsing succeeds and whether the key is an ECDSA key.
\<close>

record 'pk Replica =
  ID :: string
  Addr :: string
  PubKey :: "'pk option"

record 'pk Committee =
  Number :: u64
  Replicas :: "'pk Replica list"
  FaultCap :: int

datatype 'pk ParsedKey = EcdsaKey 'pk | OtherKey

datatype membership_error =
    ApplyParseKey string
  | ApplyNotECDSA string
  | ApplyRemoveNotFound string
  | ApplyUnknownType RequestType
  | TooFewReplicas
  | FaultCapTooSmall int
  | AddMalformedKey string
  | AddNotECDSA string
  | AddAlreadyMember string
  | RemoveNotMember string
  | NotAnAddRequest
  | EmptyPayload
  | InsufficientSignatures
  | DuplicateSigner string
  | UnknownSigner string
  | BadSignature string
  | ConfigNotFound u64
  | ConfigOutOfOrder u64 u64

subsection \<open>Construction, size, quorum\<close>

definition NewCommittee :: "u64 \<Rightarrow> 'pk Replica list \<Rightarrow> 'pk Committee" where
  "NewCommittee number replicas =
     (let nc = int (length replicas);
          fc = (if 0 < nc then (nc - 1) sdiv 3 else 0)
      in \<lparr>Number = number, Replicas = replicas, FaultCap = fc\<rparr>)"

definition Size :: "'pk Committee \<Rightarrow> int" where
  "Size c = int (length (Replicas c))"

definition QuorumSize :: "'pk Committee \<Rightarrow> int" where
  "QuorumSize c = (let nc = int (length (Replicas c)) in (nc + FaultCap c + 2) sdiv 2)"

definition Leader :: "'pk Committee \<Rightarrow> u64 \<Rightarrow> panic + 'pk Replica" where
  "Leader c view =
     (let n = (of_nat (length (Replicas c)) :: u64) in
      if n = 0 then Inl DivideByZero else Inr (Replicas c ! unat (view mod n)))"

text \<open>Reading a field through a selected leader, which may be nil.\<close>

definition leader_deref :: "panic + 'pk Replica option \<Rightarrow> panic + 'pk Replica" where
  "leader_deref l =
     (case l of Inl p \<Rightarrow> Inl p | Inr None \<Rightarrow> Inl NilDereference | Inr (Some r) \<Rightarrow> Inr r)"

primrec find_replica :: "string \<Rightarrow> 'pk Replica list \<Rightarrow> 'pk Replica option" where
  "find_replica i [] = None"
| "find_replica i (r # rs) = (if ID r = i then Some r else find_replica i rs)"

definition ReplicaByID :: "'pk Committee \<Rightarrow> string \<Rightarrow> 'pk Replica option" where
  "ReplicaByID c i = find_replica i (Replicas c)"

definition Contains :: "'pk Committee \<Rightarrow> string \<Rightarrow> bool" where
  "Contains c i \<longleftrightarrow> ReplicaByID c i \<noteq> None"

definition Clone :: "'pk Committee \<Rightarrow> 'pk Committee" where
  "Clone c = \<lparr>Number = Number c, Replicas = Replicas c, FaultCap = FaultCap c\<rparr>"

subsection \<open>The next configuration\<close>

text \<open>
  One iteration of the loop of \<open>Apply\<close>. The REMOVE branch filters a fresh copy of the slice,
  so the receiver's slice is untouched, and drops every replica with the target's identity.
\<close>

definition apply_one :: "(bytes \<Rightarrow> 'pk ParsedKey option) \<Rightarrow> 'pk Replica list \<Rightarrow> MembershipRequest
    \<Rightarrow> membership_error + 'pk Replica list" where
  "apply_one parsePKIX rs req =
     (if rq_Type req = RequestType_ADD then
        (case parsePKIX (rq_Payload req) of
           None \<Rightarrow> Inl (ApplyParseKey (rq_ClientId req))
         | Some OtherKey \<Rightarrow> Inl (ApplyNotECDSA (rq_ClientId req))
         | Some (EcdsaKey k) \<Rightarrow>
             Inr (rs @ [\<lparr>ID = rq_ClientId req, Addr = '''', PubKey = Some k\<rparr>]))
      else if rq_Type req = RequestType_REMOVE then
        (let target = rq_ClientId req in
         if \<exists>r \<in> set rs. ID r = target
         then Inr (filter (\<lambda>r. ID r \<noteq> target) rs)
         else Inl (ApplyRemoveNotFound target))
      else if rq_Type req = RequestType_REGULAR then Inr rs
      else Inl (ApplyUnknownType (rq_Type req)))"

primrec apply_loop :: "(bytes \<Rightarrow> 'pk ParsedKey option) \<Rightarrow> 'pk Replica list
    \<Rightarrow> MembershipRequest list \<Rightarrow> membership_error + 'pk Replica list" where
  "apply_loop parsePKIX rs [] = Inr rs"
| "apply_loop parsePKIX rs (req # reqs) =
     (case apply_one parsePKIX rs req of
        Inl e \<Rightarrow> Inl e
      | Inr rs' \<Rightarrow> apply_loop parsePKIX rs' reqs)"

definition Apply :: "(bytes \<Rightarrow> 'pk ParsedKey option) \<Rightarrow> 'pk Committee \<Rightarrow> MembershipRequest list
    \<Rightarrow> membership_error + 'pk Committee" where
  "Apply parsePKIX c reqs =
     (let nxt = (Clone c)\<lparr>Number := Number c + 1\<rparr> in
      case apply_loop parsePKIX (Replicas nxt) reqs of
        Inl e \<Rightarrow> Inl e
      | Inr rs \<Rightarrow>
          (let nc = int (length rs);
               fc = (if 0 < nc then (nc - 1) sdiv 3 else 0)
           in Inr (nxt\<lparr>Replicas := rs, FaultCap := fc\<rparr>)))"

definition Validate :: "'pk Committee \<Rightarrow> membership_error option" where
  "Validate c =
     (if length (Replicas c) < 4 then Some TooFewReplicas
      else if FaultCap c < 1 then Some (FaultCapTooSmall (FaultCap c))
      else None)"

subsection \<open>The committee invariant\<close>

text \<open>\<open>FaultCap\<close> is the derived bound, as both constructors compute it.\<close>

definition fault_bound :: "nat \<Rightarrow> nat" where
  "fault_bound n = (n - 1) div 3"

definition wf_committee :: "'pk Committee \<Rightarrow> bool" where
  "wf_committee c \<longleftrightarrow> FaultCap c = int (fault_bound (length (Replicas c)))"

definition ids :: "'pk Committee \<Rightarrow> string list" where
  "ids c = map ID (Replicas c)"

definition distinct_ids :: "'pk Committee \<Rightarrow> bool" where
  "distinct_ids c \<longleftrightarrow> distinct (ids c)"

lemma fault_cap_formula:
  "(if 0 < int n then (int n - 1) sdiv 3 else 0) = int (fault_bound n)"
proof (cases n)
  case (Suc m)
  then show ?thesis by (simp add: fault_bound_def zdiv_int)
qed (simp add: fault_bound_def)

lemma NewCommittee_simps [simp]:
  "Number (NewCommittee k rs) = k" "Replicas (NewCommittee k rs) = rs"
  "FaultCap (NewCommittee k rs) = int (fault_bound (length rs))"
  by (simp_all only: NewCommittee_def Let_def fault_cap_formula Committee.simps)

lemma wf_NewCommittee [wf_intros, simp]: "wf_committee (NewCommittee k rs)"
  by (simp add: wf_committee_def)

lemma Apply_Inr:
  "Apply p c reqs = Inr c' \<longleftrightarrow>
     (\<exists>rs. apply_loop p (Replicas c) reqs = Inr rs
       \<and> c' = \<lparr>Number = Number c + 1, Replicas = rs, FaultCap = int (fault_bound (length rs))\<rparr>)"
  unfolding Apply_def Clone_def Let_def fault_cap_formula by (auto split: sum.splits)

lemma wf_Apply [wf_intros]: "Apply p c reqs = Inr c' \<Longrightarrow> wf_committee c'"
  by (auto simp: Apply_Inr wf_committee_def)

lemma Apply_Number: "Apply p c reqs = Inr c' \<Longrightarrow> Number c' = Number c + 1"
  by (auto simp: Apply_Inr)

lemma find_replica_None: "find_replica i rs = None \<longleftrightarrow> i \<notin> ID ` set rs"
  by (induction rs) auto

lemma find_replica_Some: "find_replica i rs = Some r \<Longrightarrow> r \<in> set rs \<and> ID r = i"
  by (induction rs) (auto split: if_splits)

lemma find_replica_unique:
  "distinct (map ID rs) \<Longrightarrow> r \<in> set rs \<Longrightarrow> find_replica (ID r) rs = Some r"
  by (induction rs) force+

lemma ReplicaByID_None: "ReplicaByID c i = None \<longleftrightarrow> i \<notin> set (ids c)"
  by (simp add: ReplicaByID_def find_replica_None ids_def)

lemma Contains_iff [simp]: "Contains c i \<longleftrightarrow> i \<in> set (ids c)"
  by (simp add: Contains_def ReplicaByID_None)

lemma ReplicaByID_Some: "ReplicaByID c i = Some r \<Longrightarrow> r \<in> set (Replicas c) \<and> ID r = i"
  by (simp add: ReplicaByID_def find_replica_Some)

subsection \<open>Arithmetic of the fault bound and the quorum\<close>

lemma fault_bound_maximal: "0 < n \<Longrightarrow> 3 * f + 1 \<le> n \<longleftrightarrow> f \<le> fault_bound n"
  unfolding fault_bound_def by (cases n) (simp_all add: less_eq_div_iff_mult_less_eq mult.commute)

definition quorum_size :: "nat \<Rightarrow> nat" where
  "quorum_size n = (n + fault_bound n + 2) div 2"

lemma QuorumSize_wf: "wf_committee c \<Longrightarrow> QuorumSize c = int (quorum_size (length (Replicas c)))"
  by (simp add: QuorumSize_def Let_def wf_committee_def quorum_size_def zdiv_int)

lemma quorum_size_pos [simp]: "0 < quorum_size n"
  by (simp add: quorum_size_def)

lemma quorum_size_overlap: "n + fault_bound n < 2 * quorum_size n"
  unfolding quorum_size_def by presburger

lemma quorum_size_minimal: "n + fault_bound n < 2 * q \<Longrightarrow> quorum_size n \<le> q"
  unfolding quorum_size_def by presburger

lemma quorum_size_available:
  assumes "0 < n"
  shows "quorum_size n + fault_bound n \<le> n"
proof -
  define f where "f = fault_bound n"
  have "3 * f + 1 \<le> n"
    using fault_bound_maximal [OF assms, of f] by (simp add: f_def)
  then have "(n + f + 2) div 2 + f \<le> n" by linarith
  then show ?thesis by (simp add: quorum_size_def f_def)
qed

subsection \<open>Membership changes, abstractly\<close>

text \<open>
  What a batch does to the set of member identities, and when it succeeds: the specification
  that \<open>Apply\<close> refines.
\<close>

primrec members_after :: "string set \<Rightarrow> MembershipRequest list \<Rightarrow> string set" where
  "members_after S [] = S"
| "members_after S (req # reqs) =
     members_after
       (if rq_Type req = RequestType_ADD then insert (rq_ClientId req) S
        else if rq_Type req = RequestType_REMOVE then S - {rq_ClientId req} else S) reqs"

primrec applicable :: "(bytes \<Rightarrow> 'pk ParsedKey option) \<Rightarrow> string set \<Rightarrow> MembershipRequest list \<Rightarrow> bool" where
  "applicable p S [] = True"
| "applicable p S (req # reqs) =
     (if rq_Type req = RequestType_ADD then
        (case p (rq_Payload req) of Some (EcdsaKey k) \<Rightarrow> True | _ \<Rightarrow> False)
        \<and> applicable p (insert (rq_ClientId req) S) reqs
      else if rq_Type req = RequestType_REMOVE then
        rq_ClientId req \<in> S \<and> applicable p (S - {rq_ClientId req}) reqs
      else rq_Type req = RequestType_REGULAR \<and> applicable p S reqs)"

primrec fresh_adds :: "string set \<Rightarrow> MembershipRequest list \<Rightarrow> bool" where
  "fresh_adds S [] = True"
| "fresh_adds S (req # reqs) =
     (if rq_Type req = RequestType_ADD then
        rq_ClientId req \<notin> S \<and> fresh_adds (insert (rq_ClientId req) S) reqs
      else if rq_Type req = RequestType_REMOVE then fresh_adds (S - {rq_ClientId req}) reqs
      else fresh_adds S reqs)"

lemma apply_one_ids:
  "apply_one p rs req = Inr rs' \<Longrightarrow>
     ID ` set rs' = (if rq_Type req = RequestType_ADD then insert (rq_ClientId req) (ID ` set rs)
        else if rq_Type req = RequestType_REMOVE then ID ` set rs - {rq_ClientId req} else ID ` set rs)"
  by (auto simp: apply_one_def Let_def split: if_splits option.splits ParsedKey.splits)

lemma apply_loop_ids:
  "apply_loop p rs reqs = Inr rs' \<Longrightarrow> ID ` set rs' = members_after (ID ` set rs) reqs"
  by (induction reqs arbitrary: rs) (auto split: sum.splits simp: apply_one_ids)

lemma apply_loop_applicable:
  "(\<exists>rs'. apply_loop p rs reqs = Inr rs') \<longleftrightarrow> applicable p (ID ` set rs) reqs"
proof (induction reqs arbitrary: rs)
  case (Cons req reqs)
  show ?case
  proof (cases "apply_one p rs req")
    case (Inl e)
    then have "\<not> applicable p (ID ` set rs) (req # reqs)"
      by (auto simp: apply_one_def Let_def split: if_splits option.splits ParsedKey.splits)
    with Inl show ?thesis by simp
  next
    case (Inr rs')
    then have "applicable p (ID ` set rs) (req # reqs) = applicable p (ID ` set rs') reqs"
      by (auto simp: apply_one_ids apply_one_def Let_def intro: rev_image_eqI
            split: if_splits option.splits ParsedKey.splits)
    with Inr Cons show ?thesis by simp
  qed
qed simp

lemma apply_one_distinct:
  "apply_one p rs req = Inr rs' \<Longrightarrow> distinct (map ID rs) \<Longrightarrow>
   (rq_Type req = RequestType_ADD \<Longrightarrow> rq_ClientId req \<notin> ID ` set rs) \<Longrightarrow> distinct (map ID rs')"
  by (auto simp: apply_one_def Let_def distinct_map_filter
        split: if_splits option.splits ParsedKey.splits)

lemma apply_loop_distinct:
  "apply_loop p rs reqs = Inr rs' \<Longrightarrow> distinct (map ID rs) \<Longrightarrow> fresh_adds (ID ` set rs) reqs
   \<Longrightarrow> distinct (map ID rs')"
proof (induction reqs arbitrary: rs)
  case (Cons req reqs)
  from Cons.prems(1) obtain rs1 where one: "apply_one p rs req = Inr rs1"
    and rest: "apply_loop p rs1 reqs = Inr rs'"
    by (auto split: sum.splits)
  have "distinct (map ID rs1)"
    by (rule apply_one_distinct [OF one Cons.prems(2)]) (use Cons.prems(3) in auto)
  moreover have "fresh_adds (ID ` set rs1) reqs"
    using Cons.prems(3) by (auto simp: apply_one_ids [OF one] split: if_splits)
  ultimately show ?case using Cons.IH [OF rest] by blast
qed simp

lemma Apply_members: "Apply p c reqs = Inr c' \<Longrightarrow> set (ids c') = members_after (set (ids c)) reqs"
  by (clarsimp simp: Apply_Inr ids_def apply_loop_ids)

lemma Apply_applicable: "(\<exists>c'. Apply p c reqs = Inr c') \<longleftrightarrow> applicable p (set (ids c)) reqs"
  by (simp add: Apply_Inr ids_def apply_loop_applicable [symmetric])

lemma Apply_distinct:
  "Apply p c reqs = Inr c' \<Longrightarrow> distinct_ids c \<Longrightarrow> fresh_adds (set (ids c)) reqs \<Longrightarrow> distinct_ids c'"
  by (auto simp: Apply_Inr ids_def distinct_ids_def intro: apply_loop_distinct)

subsection \<open>Leader rotation\<close>

lemma Leader_Inr:
  assumes "Replicas c \<noteq> []" "length (Replicas c) < 2 ^ 64"
  shows "Leader c v = Inr (Replicas c ! (unat v mod length (Replicas c)))"
proof -
  have n: "unat (of_nat (length (Replicas c)) :: u64) = length (Replicas c)"
    using assms(2) by (simp add: unat_of_nat)
  then have "(of_nat (length (Replicas c)) :: u64) \<noteq> 0"
    using assms(1) by (metis length_0_conv unat_0)
  then show ?thesis
    by (simp add: Leader_def Let_def unat_mod_distrib n)
qed

lemma Leader_empty: "Replicas c = [] \<Longrightarrow> Leader c v = Inl DivideByZero"
  by (simp add: Leader_def)

lemma mod_shift_eq: "(v + j) mod n = (v + k) mod n \<Longrightarrow> j \<le> k \<Longrightarrow> k < n \<Longrightarrow> j = (k :: nat)"
  using mod_eq_dvd_iff_nat [of "v + j" "v + k" n] by (auto dest: dvd_imp_le)

lemma mod_shift_inj: "f < n \<Longrightarrow> inj_on (\<lambda>k. (v + k) mod n) {..f :: nat}"
  by (rule linorder_inj_onI) (auto dest: mod_shift_eq)

lemma rotation_reaches_honest:
  assumes "distinct_ids c" "Replicas c \<noteq> []" "length (Replicas c) < 2 ^ 64"
    and "card B \<le> fault_bound (length (Replicas c))" "finite B"
    and "unat v + fault_bound (length (Replicas c)) < 2 ^ 64"
  shows "\<exists>k \<le> fault_bound (length (Replicas c)). \<exists>r. Leader c (v + of_nat k) = Inr r \<and> ID r \<notin> B"
proof (rule ccontr)
  let ?n = "length (Replicas c)" and ?f = "fault_bound (length (Replicas c))"
  let ?g = "\<lambda>k. ids c ! ((unat v + k) mod ?n)"
  assume no: "\<not> ?thesis"
  have "?f < ?n" using assms(2) by (cases "Replicas c") (auto simp: fault_bound_def)
  have leader: "Leader c (v + of_nat k) = Inr (Replicas c ! ((unat v + k) mod ?n))" if "k \<le> ?f" for k
  proof -
    have "unat (of_nat k :: u64) = k" using that assms(6) by (simp add: unat_of_nat)
    then have "unat (v + of_nat k) = unat v + k"
      using that assms(6) by (simp add: unat_word_ariths)
    then show ?thesis by (simp add: Leader_Inr [OF assms(2,3)])
  qed
  have "inj_on ?g {..?f}"
  proof (rule inj_onI)
    fix j k assume jk: "j \<in> {..?f}" "k \<in> {..?f}" "?g j = ?g k"
    moreover have "i mod ?n < length (ids c)" for i
      using assms(2) by (simp add: ids_def)
    ultimately have "(unat v + j) mod ?n = (unat v + k) mod ?n"
      using assms(1) by (simp add: distinct_ids_def nth_eq_iff_index_eq)
    then show "j = k" using mod_shift_inj [OF \<open>?f < ?n\<close>] jk(1,2) by (auto dest: inj_onD)
  qed
  then have "card (?g ` {..?f}) = ?f + 1" by (simp add: card_image)
  moreover have "?g ` {..?f} \<subseteq> B"
    using no leader assms(2) by (force simp: ids_def)
  then have "card (?g ` {..?f}) \<le> card B" by (rule card_mono [OF assms(5)])
  ultimately show False using assms(4) by simp
qed

end
