(* ===== verification/ConfigStore.thy ===== *)
theory ConfigStore
  imports Committee
begin

section \<open>The configuration store\<close>

text \<open>
  \<^verbatim>\<open>internal/membership/config_store.go\<close>: the append-only log of committees. Subscribers
  are references to channels, so the store keeps their addresses and the channels live in
  the heap \<open>chans\<close>; a channel subscribed twice is notified twice. Every method holds the
  mutex for its whole body, so each is one atomic function of the state.
\<close>

record 'pk ConfigStore =
  configs :: "'pk Committee list"
  subscribers :: "nat list"
  chans :: "nat \<Rightarrow> 'pk Committee channel"

definition NewConfigStore :: "'pk Committee \<Rightarrow> (nat \<Rightarrow> 'pk Committee channel) \<Rightarrow> 'pk ConfigStore" where
  "NewConfigStore genesis heap = \<lparr>configs = [genesis], subscribers = [], chans = heap\<rparr>"

definition Latest :: "'pk ConfigStore \<Rightarrow> panic + 'pk Committee" where
  "Latest s = (if configs s = [] then Inl IndexOutOfRange
               else Inr (configs s ! (length (configs s) - 1)))"

definition AtNumber :: "'pk ConfigStore \<Rightarrow> u64 \<Rightarrow> membership_error + 'pk Committee" where
  "AtNumber s c =
     (if of_nat (length (configs s)) \<le> c then Inl (ConfigNotFound c)
      else Inr (configs s ! unat c))"

text \<open>The non-blocking fan-out: a send that would block is skipped.\<close>

primrec notify :: "'pk Committee \<Rightarrow> nat list \<Rightarrow> (nat \<Rightarrow> 'pk Committee channel)
    \<Rightarrow> (nat \<Rightarrow> 'pk Committee channel)" where
  "notify c [] heap = heap"
| "notify c (a # as) heap =
     notify c as (case chan_try_send (heap a) c of None \<Rightarrow> heap | Some ch \<Rightarrow> heap(a := ch))"

definition Install :: "'pk ConfigStore \<Rightarrow> 'pk Committee \<Rightarrow> membership_error + 'pk ConfigStore" where
  "Install s next =
     (let expected = of_nat (length (configs s)) in
      if Number next \<noteq> expected then Inl (ConfigOutOfOrder (Number next) expected)
      else Inr (s\<lparr>configs := configs s @ [next], chans := notify next (subscribers s) (chans s)\<rparr>))"

definition Len :: "'pk ConfigStore \<Rightarrow> int" where
  "Len s = int (length (configs s))"

definition Subscribe :: "'pk ConfigStore \<Rightarrow> nat \<Rightarrow> 'pk ConfigStore" where
  "Subscribe s ch = s\<lparr>subscribers := subscribers s @ [ch]\<rparr>"

subsection \<open>The interface of an append-only configuration log\<close>

text \<open>
  What the delivery and discovery code relies on: entries are numbered by their position,
  only the successor of the last entry can be installed, and installing changes no entry
  that is already there.
\<close>

locale config_log =
  fixes entries :: "'s \<Rightarrow> 'c list"
    and number :: "'c \<Rightarrow> u64"
    and latest :: "'s \<Rightarrow> panic + 'c"
    and at_number :: "'s \<Rightarrow> u64 \<Rightarrow> 'e + 'c"
    and install :: "'s \<Rightarrow> 'c \<Rightarrow> 'e + 's"
    and inv :: "'s \<Rightarrow> bool"
  assumes entries_nonempty: "inv s \<Longrightarrow> entries s \<noteq> []"
    and entries_numbered: "inv s \<Longrightarrow> i < length (entries s) \<Longrightarrow> number (entries s ! i) = of_nat i"
    and latest_last: "inv s \<Longrightarrow> latest s = Inr (last (entries s))"
    and at_number_Inr: "length (entries s) < 2 ^ 64 \<Longrightarrow>
          at_number s k = Inr c \<longleftrightarrow> unat k < length (entries s) \<and> c = entries s ! unat k"
    and install_Inr: "install s c = Inr s' \<Longrightarrow> entries s' = entries s @ [c]"
    and install_defined: "(\<exists>s'. install s c = Inr s') \<longleftrightarrow> number c = of_nat (length (entries s))"
    and install_inv: "inv s \<Longrightarrow> install s c = Inr s' \<Longrightarrow> inv s'"
begin

lemma latest_number: "inv s \<Longrightarrow> number (last (entries s)) = of_nat (length (entries s) - 1)"
  using entries_nonempty entries_numbered
  by (metis diff_less last_conv_nth length_greater_0_conv zero_less_one)

lemma latest_after_install: "inv s \<Longrightarrow> install s c = Inr s' \<Longrightarrow> latest s' = Inr c"
  by (simp add: latest_last install_inv install_Inr)

lemma at_number_stable:
  assumes "inv s" "length (entries s') < 2 ^ 64" "install s c = Inr s'" "at_number s k = Inr d"
  shows "at_number s' k = Inr d"
proof -
  have e: "entries s' = entries s @ [c]" by (rule install_Inr [OF assms(3)])
  then have "length (entries s) < 2 ^ 64" using assms(2) by simp
  with assms(4) have "unat k < length (entries s)" "d = entries s ! unat k"
    by (simp_all add: at_number_Inr)
  with e assms(2) show ?thesis by (simp add: at_number_Inr nth_append)
qed

lemma at_number_number:
  assumes "inv s" "length (entries s) < 2 ^ 64" "at_number s k = Inr c"
  shows "number c = k"
  using assms by (auto simp: at_number_Inr entries_numbered)

lemma install_successor:
  assumes "inv s" "install s c = Inr s'"
  shows "number c = number (last (entries s)) + 1"
proof -
  have "number c = of_nat (length (entries s))" using install_defined assms(2) by blast
  moreover have "length (entries s) = Suc (length (entries s) - 1)"
    using entries_nonempty [OF assms(1)] by simp
  ultimately show ?thesis using latest_number [OF assms(1)] by (metis of_nat_Suc add.commute)
qed

end

definition configs_ok :: "'pk ConfigStore \<Rightarrow> bool" where
  "configs_ok s \<longleftrightarrow> configs s \<noteq> [] \<and>
     (\<forall>i < length (configs s). Number (configs s ! i) = of_nat i)"

lemma configs_ok_New [wf_intros]: "Number g = 0 \<Longrightarrow> configs_ok (NewConfigStore g heap)"
  by (simp add: configs_ok_def NewConfigStore_def)

lemma Install_Inr_iff:
  "Install s c = Inr s' \<longleftrightarrow> Number c = of_nat (length (configs s)) \<and>
     s' = s\<lparr>configs := configs s @ [c], chans := notify c (subscribers s) (chans s)\<rparr>"
  by (auto simp: Install_def Let_def)

lemma configs_ok_Install [wf_intros]: "configs_ok s \<Longrightarrow> Install s c = Inr s' \<Longrightarrow> configs_ok s'"
  by (auto simp: configs_ok_def Install_Inr_iff nth_append less_Suc_eq)

lemma configs_ok_Subscribe [wf_intros]: "configs_ok s \<Longrightarrow> configs_ok (Subscribe s ch)"
  by (simp add: configs_ok_def Subscribe_def)

lemma AtNumber_Inr:
  assumes "length (configs s) < 2 ^ 64"
  shows "AtNumber s k = Inr c \<longleftrightarrow> unat k < length (configs s) \<and> c = configs s ! unat k"
proof -
  have "unat (of_nat (length (configs s)) :: u64) = length (configs s)"
    using assms by (simp add: unat_of_nat)
  then have "(of_nat (length (configs s)) :: u64) \<le> k \<longleftrightarrow> length (configs s) \<le> unat k"
    by (simp add: word_le_nat_alt)
  then show ?thesis by (auto simp: AtNumber_def)
qed

interpretation store: config_log "configs :: 'pk ConfigStore \<Rightarrow> 'pk Committee list"
  Number Latest AtNumber Install configs_ok
proof
  fix s s' :: "'pk ConfigStore" and i c k
  show "configs_ok s \<Longrightarrow> configs s \<noteq> []" by (simp add: configs_ok_def)
  show "configs_ok s \<Longrightarrow> i < length (configs s) \<Longrightarrow> Number (configs s ! i) = of_nat i"
    by (simp add: configs_ok_def)
  show "configs_ok s \<Longrightarrow> Latest s = Inr (last (configs s))"
    by (simp add: Latest_def configs_ok_def last_conv_nth)
  show "length (configs s) < 2 ^ 64 \<Longrightarrow>
      AtNumber s k = Inr c \<longleftrightarrow> unat k < length (configs s) \<and> c = configs s ! unat k"
    by (rule AtNumber_Inr)
  show "Install s c = Inr s' \<Longrightarrow> configs s' = configs s @ [c]"
    by (simp add: Install_Inr_iff)
  show "(\<exists>s'. Install s c = Inr s') \<longleftrightarrow> Number c = of_nat (length (configs s))"
    by (simp add: Install_Inr_iff)
  show "configs_ok s \<Longrightarrow> Install s c = Inr s' \<Longrightarrow> configs_ok s'"
    by (rule configs_ok_Install)
qed

subsection \<open>Notifications\<close>

text \<open>Installing notifies every subscriber with room exactly once and never blocks.\<close>

lemma notify_other: "a \<notin> set as \<Longrightarrow> notify c as heap a = heap a"
  by (induction as arbitrary: heap) (auto split: option.splits)

lemma notify_once:
  "distinct as \<Longrightarrow> a \<in> set as \<Longrightarrow>
     notify c as heap a = (case chan_try_send (heap a) c of None \<Rightarrow> heap a | Some ch \<Rightarrow> ch)"
proof (induction as arbitrary: heap)
  case (Cons b as)
  show ?case
  proof (cases "a = b")
    case True
    with Cons.prems show ?thesis by (auto simp: notify_other split: option.splits)
  next
    case False
    with Cons show ?thesis by (auto split: option.splits)
  qed
qed simp

lemma chan_ok_notify [wf_intros]: "\<forall>a. chan_ok (heap a) \<Longrightarrow> chan_ok (notify c as heap a)"
proof (induction as arbitrary: heap)
  case (Cons b as)
  have "\<forall>a. chan_ok ((case chan_try_send (heap b) c of None \<Rightarrow> heap | Some ch \<Rightarrow> heap(b := ch)) a)"
    using Cons.prems by (auto split: option.splits intro: chan_ok_send)
  then show ?case using Cons.IH by simp
qed simp

end
