(* ===== verification/Requests.thy ===== *)
theory Requests
  imports Committee
begin

section \<open>Request classification and validation\<close>

text \<open>
  \<^verbatim>\<open>internal/membership/request.go\<close>: the partition of a block's batch into regular commands
  and membership changes, and the checks on a single membership request.
\<close>

datatype RequestKind = KindRegular | KindAdd | KindRemove

definition kindOf :: "RequestType \<Rightarrow> RequestKind" where
  "kindOf rt =
     (if rt = RequestType_ADD then KindAdd
      else if rt = RequestType_REMOVE then KindRemove else KindRegular)"

primrec classify_loop :: "MembershipRequest list \<Rightarrow> MembershipRequest list
    \<Rightarrow> MembershipRequest list \<Rightarrow> MembershipRequest list \<times> MembershipRequest list" where
  "classify_loop regular membership [] = (regular, membership)"
| "classify_loop regular membership (req # reqs) =
     (case kindOf (rq_Type req) of
        KindRegular \<Rightarrow> classify_loop (regular @ [req]) membership reqs
      | _ \<Rightarrow> classify_loop regular (membership @ [req]) reqs)"

definition ClassifyBatch :: "MembershipRequest list
    \<Rightarrow> MembershipRequest list \<times> MembershipRequest list" where
  "ClassifyBatch batch = classify_loop [] [] batch"

primrec HasMembershipRequests :: "MembershipRequest list \<Rightarrow> bool" where
  "HasMembershipRequests [] = False"
| "HasMembershipRequests (req # reqs) =
     (if kindOf (rq_Type req) \<noteq> KindRegular then True else HasMembershipRequests reqs)"

definition ValidateMembershipRequest :: "(bytes \<Rightarrow> 'pk ParsedKey option) \<Rightarrow> MembershipRequest
    \<Rightarrow> 'pk Committee \<Rightarrow> membership_error option" where
  "ValidateMembershipRequest parsePKIX req current =
     (case kindOf (rq_Type req) of
        KindAdd \<Rightarrow>
          (case parsePKIX (rq_Payload req) of
             None \<Rightarrow> Some (AddMalformedKey (rq_ClientId req))
           | Some OtherKey \<Rightarrow> Some (AddNotECDSA (rq_ClientId req))
           | Some (EcdsaKey k) \<Rightarrow>
               (if Contains current (rq_ClientId req)
                then Some (AddAlreadyMember (rq_ClientId req)) else None))
      | KindRemove \<Rightarrow>
          (if \<not> Contains current (rq_ClientId req)
           then Some (RemoveNotMember (rq_ClientId req)) else None)
      | KindRegular \<Rightarrow> None)"

definition ReplicaFromRequest :: "(bytes \<Rightarrow> 'pk ParsedKey option) \<Rightarrow> MembershipRequest
    \<Rightarrow> membership_error + 'pk Replica" where
  "ReplicaFromRequest parsePKIX req =
     (if kindOf (rq_Type req) \<noteq> KindAdd then Inl NotAnAddRequest
      else if length (rq_Payload req) = 0 then Inl EmptyPayload
      else case parsePKIX (rq_Payload req) of
             None \<Rightarrow> Inl (AddMalformedKey (rq_ClientId req))
           | Some OtherKey \<Rightarrow> Inl (AddNotECDSA (rq_ClientId req))
           | Some (EcdsaKey k) \<Rightarrow> Inr \<lparr>ID = rq_ClientId req, Addr = '''', PubKey = Some k\<rparr>)"

subsection \<open>Facts\<close>

abbreviation is_regular :: "MembershipRequest \<Rightarrow> bool" where
  "is_regular req \<equiv> kindOf (rq_Type req) = KindRegular"

lemma kindOf_simps [simp]:
  "kindOf rt = KindAdd \<longleftrightarrow> rt = RequestType_ADD"
  "kindOf rt = KindRemove \<longleftrightarrow> rt = RequestType_REMOVE"
  "kindOf rt = KindRegular \<longleftrightarrow> rt \<noteq> RequestType_ADD \<and> rt \<noteq> RequestType_REMOVE"
  by (auto simp: kindOf_def)

lemma classify_loop_eq:
  "classify_loop reg mem reqs =
     (reg @ filter is_regular reqs, mem @ filter (\<lambda>r. \<not> is_regular r) reqs)"
  by (induction reqs arbitrary: reg mem) (auto simp: kindOf_def)

lemma ClassifyBatch_eq:
  "ClassifyBatch batch = (filter is_regular batch, filter (\<lambda>r. \<not> is_regular r) batch)"
  by (simp only: ClassifyBatch_def classify_loop_eq append_Nil)

lemma HasMembershipRequests_iff:
  "HasMembershipRequests batch \<longleftrightarrow> (\<exists>req \<in> set batch. \<not> is_regular req)"
  by (induction batch) auto

lemma ClassifyBatch_membership_types:
  "req \<in> set (snd (ClassifyBatch batch)) \<Longrightarrow>
     rq_Type req = RequestType_ADD \<or> rq_Type req = RequestType_REMOVE"
  by (auto simp: ClassifyBatch_eq)

lemma Validate_applicable:
  "ValidateMembershipRequest p req c = None \<Longrightarrow>
   rq_Type req \<in> {RequestType_REGULAR, RequestType_ADD, RequestType_REMOVE} \<Longrightarrow>
   applicable p (set (ids c)) [req] \<and> fresh_adds (set (ids c)) [req]"
  by (auto simp: ValidateMembershipRequest_def kindOf_def split: if_splits option.splits ParsedKey.splits)

lemma ReplicaFromRequest_apply:
  "ReplicaFromRequest p req = Inr r \<Longrightarrow> apply_one p rs req = Inr (rs @ [r])"
  by (auto simp: ReplicaFromRequest_def apply_one_def split: if_splits option.splits ParsedKey.splits)

end
