(* ===== verification/Deliver.thy ===== *)
theory Deliver
  imports Safety ConfigStore Requests "HOL-Library.Sublist"
begin

section \<open>Block delivery\<close>

text \<open>
  \<^verbatim>\<open>internal/consensus/deliver.go\<close>. The deliverer shares the configuration store with the
  replica, so the store is a component of its state. \<open>Executor\<close> is the argument \<open>execute\<close>
  over an application state; its calls and the replies sent are recorded in order. An error
  return leaves behind whatever was done before it, so \<open>Deliver\<close> answers the new state and
  the error together.
\<close>

record ('pk, 'app) Deliverer =
  store :: "'pk ConfigStore"
  delivered :: "bytes set"
  app :: 'app
  executed :: "MembershipRequest list"
  replies :: "(string \<times> u64 \<times> bytes) list"

datatype deliver_error =
    DeliverConf membership_error
  | DeliverApply membership_error
  | DeliverInstall membership_error

definition NewDeliverer :: "'pk ConfigStore \<Rightarrow> 'app \<Rightarrow> ('pk, 'app) Deliverer" where
  "NewDeliverer cs a = \<lparr>store = cs, delivered = {}, app = a, executed = [], replies = []\<rparr>"

primrec execute_regular :: "('app \<Rightarrow> MembershipRequest \<Rightarrow> 'app \<times> bytes) \<Rightarrow> u64
    \<Rightarrow> MembershipRequest list \<Rightarrow> ('pk, 'app) Deliverer \<Rightarrow> ('pk, 'app) Deliverer" where
  "execute_regular execute conf [] d = d"
| "execute_regular execute conf (req # reqs) d =
     (case execute (app d) req of (a, result) \<Rightarrow>
        execute_regular execute conf reqs
          (d\<lparr>app := a, executed := executed d @ [req],
             replies := replies d @ [(rq_ClientId req, conf, result)]\<rparr>))"

definition Deliver :: "(bytes \<Rightarrow> bytes) \<Rightarrow> (bytes \<Rightarrow> 'pk ParsedKey option)
    \<Rightarrow> ('app \<Rightarrow> MembershipRequest \<Rightarrow> 'app \<times> bytes) \<Rightarrow> Block \<Rightarrow> ('pk, 'app) Deliverer
    \<Rightarrow> ('pk, 'app) Deliverer \<times> deliver_error option" where
  "Deliver sha parsePKIX execute block d =
     (let key = hashBlock sha block in
      if key \<in> delivered d then (d, None)
      else case AtNumber (store d) (ConfNumber block) of
        Inl e \<Rightarrow> (d, Some (DeliverConf e))
      | Inr mc \<Rightarrow>
          (case ClassifyBatch (Batch block) of (regular, membershipReqs) \<Rightarrow>
             let d1 = execute_regular execute (ConfNumber block) regular d in
             if 0 < length membershipReqs then
               (case Apply parsePKIX mc membershipReqs of
                  Inl e \<Rightarrow> (d1, Some (DeliverApply e))
                | Inr newMc \<Rightarrow>
                    (case Install (store d1) newMc of
                       Inl e \<Rightarrow> (d1, Some (DeliverInstall e))
                     | Inr cs \<Rightarrow> (d1\<lparr>store := cs, delivered := insert key (delivered d1)\<rparr>, None)))
             else (d1\<lparr>delivered := insert key (delivered d1)\<rparr>, None)))"

definition CheckThreeChain :: "(bytes \<Rightarrow> bytes) \<Rightarrow> Block \<Rightarrow> Block \<Rightarrow> Block \<Rightarrow> Block \<Rightarrow> bool" where
  "CheckThreeChain sha bStar bDouble bPrime b \<longleftrightarrow>
     ParentHash bStar = hashBlock sha bDouble \<and>
     ParentHash bDouble = hashBlock sha bPrime \<and>
     ParentHash bPrime = hashBlock sha b"

lemma CheckThreeChain_chained:
  "CheckThreeChain sha bStar bDouble bPrime b \<longleftrightarrow> chained sha [bStar, bDouble, bPrime, b]"
  by (simp add: CheckThreeChain_def extends_def)

subsection \<open>Executing the regular requests\<close>

primrec app_run :: "('app \<Rightarrow> MembershipRequest \<Rightarrow> 'app \<times> bytes) \<Rightarrow> 'app \<Rightarrow> MembershipRequest list \<Rightarrow> 'app" where
  "app_run execute a [] = a"
| "app_run execute a (r # rs) = app_run execute (fst (execute a r)) rs"

lemma app_run_append: "app_run x a (rs @ ss) = app_run x (app_run x a rs) ss"
  by (induction rs arbitrary: a) simp_all

lemma execute_regular_frame [simp]:
  "store (execute_regular x c reqs d) = store d"
  "delivered (execute_regular x c reqs d) = delivered d"
  by (induction reqs arbitrary: d) (auto split: prod.splits)

lemma execute_regular_log [simp]:
  "executed (execute_regular x c reqs d) = executed d @ reqs"
  "app (execute_regular x c reqs d) = app_run x (app d) reqs"
  by (induction reqs arbitrary: d) (auto split: prod.splits)

lemma execute_regular_replies:
  "\<exists>rs. replies (execute_regular x c reqs d) = replies d @ rs
     \<and> map fst rs = map rq_ClientId reqs \<and> (\<forall>r \<in> set rs. fst (snd r) = c)"
proof (induction reqs arbitrary: d)
  case (Cons req reqs)
  obtain a res where ar: "x (app d) req = (a, res)" by (cases "x (app d) req")
  let ?d = "d\<lparr>app := a, executed := executed d @ [req], replies := replies d @ [(rq_ClientId req, c, res)]\<rparr>"
  from Cons.IH [of ?d] obtain rs where
    "replies (execute_regular x c reqs ?d) = replies ?d @ rs" "map fst rs = map rq_ClientId reqs"
    "\<forall>r \<in> set rs. fst (snd r) = c" by blast
  then show ?case by (intro exI [of _ "(rq_ClientId req, c, res) # rs"]) (simp add: ar)
qed simp

subsection \<open>The outcomes of a delivery\<close>

text \<open>Every delivery is one of these; the later proofs split on them.\<close>

inductive delivers :: "(bytes \<Rightarrow> bytes) \<Rightarrow> (bytes \<Rightarrow> 'pk ParsedKey option)
    \<Rightarrow> ('app \<Rightarrow> MembershipRequest \<Rightarrow> 'app \<times> bytes) \<Rightarrow> Block \<Rightarrow> ('pk, 'app) Deliverer
    \<Rightarrow> ('pk, 'app) Deliverer \<times> deliver_error option \<Rightarrow> bool"
  for sha p x block d where
  duplicate: "hashBlock sha block \<in> delivered d \<Longrightarrow> delivers sha p x block d (d, None)"
| no_config: "hashBlock sha block \<notin> delivered d \<Longrightarrow> AtNumber (store d) (ConfNumber block) = Inl e
    \<Longrightarrow> delivers sha p x block d (d, Some (DeliverConf e))"
| apply_fails: "hashBlock sha block \<notin> delivered d \<Longrightarrow> AtNumber (store d) (ConfNumber block) = Inr mc
    \<Longrightarrow> d1 = execute_regular x (ConfNumber block) (filter is_regular (Batch block)) d
    \<Longrightarrow> HasMembershipRequests (Batch block)
    \<Longrightarrow> Apply p mc (filter (\<lambda>r. \<not> is_regular r) (Batch block)) = Inl e
    \<Longrightarrow> delivers sha p x block d (d1, Some (DeliverApply e))"
| install_fails: "hashBlock sha block \<notin> delivered d \<Longrightarrow> AtNumber (store d) (ConfNumber block) = Inr mc
    \<Longrightarrow> d1 = execute_regular x (ConfNumber block) (filter is_regular (Batch block)) d
    \<Longrightarrow> HasMembershipRequests (Batch block)
    \<Longrightarrow> Apply p mc (filter (\<lambda>r. \<not> is_regular r) (Batch block)) = Inr mc'
    \<Longrightarrow> Install (store d) mc' = Inl e
    \<Longrightarrow> delivers sha p x block d (d1, Some (DeliverInstall e))"
| reconfigured: "hashBlock sha block \<notin> delivered d \<Longrightarrow> AtNumber (store d) (ConfNumber block) = Inr mc
    \<Longrightarrow> d1 = execute_regular x (ConfNumber block) (filter is_regular (Batch block)) d
    \<Longrightarrow> HasMembershipRequests (Batch block)
    \<Longrightarrow> Apply p mc (filter (\<lambda>r. \<not> is_regular r) (Batch block)) = Inr mc'
    \<Longrightarrow> Install (store d) mc' = Inr cs
    \<Longrightarrow> delivers sha p x block d
          (d1\<lparr>store := cs, delivered := insert (hashBlock sha block) (delivered d)\<rparr>, None)"
| plain: "hashBlock sha block \<notin> delivered d \<Longrightarrow> AtNumber (store d) (ConfNumber block) = Inr mc
    \<Longrightarrow> d1 = execute_regular x (ConfNumber block) (filter is_regular (Batch block)) d
    \<Longrightarrow> \<not> HasMembershipRequests (Batch block)
    \<Longrightarrow> delivers sha p x block d
          (d1\<lparr>delivered := insert (hashBlock sha block) (delivered d)\<rparr>, None)"

lemma Deliver_delivers: "delivers sha p x block d (Deliver sha p x block d)"
proof -
  let ?m = "filter (\<lambda>r. \<not> is_regular r) (Batch block)"
  have has: "HasMembershipRequests (Batch block) \<longleftrightarrow> 0 < length ?m"
    by (simp add: HasMembershipRequests_iff filter_empty_conv)
  show ?thesis
  proof (cases "hashBlock sha block \<in> delivered d")
    case True
    then show ?thesis by (simp add: Deliver_def delivers.duplicate)
  next
    case new: False
    show ?thesis
    proof (cases "AtNumber (store d) (ConfNumber block)")
      case (Inl e)
      with new show ?thesis by (simp add: Deliver_def delivers.no_config)
    next
      case (Inr mc)
      show ?thesis
      proof (cases "0 < length ?m")
        case mem: True
        then show ?thesis
          using new Inr has
          by (cases "Apply p mc ?m"; cases "Install (store d) (projr (Apply p mc ?m))")
             (simp_all add: Deliver_def Let_def ClassifyBatch_eq delivers.apply_fails
                delivers.install_fails delivers.reconfigured)
      next
        case False
        with new Inr has show ?thesis
          by (simp add: Deliver_def Let_def ClassifyBatch_eq delivers.plain)
      qed
    qed
  qed
qed

lemma Deliver_cases:
  assumes "Deliver sha p x block d = r"
  obtains "delivers sha p x block d r"
  using Deliver_delivers [of sha p x block d] assms by blast

subsection \<open>Integrity\<close>

lemma Deliver_executed:
  "Deliver sha p x block d = (d', err) \<Longrightarrow>
   executed d' = executed d @
     (if hashBlock sha block \<in> delivered d \<or> (\<exists>e. AtNumber (store d) (ConfNumber block) = Inl e)
      then [] else filter is_regular (Batch block))"
  by (erule Deliver_cases, erule delivers.cases) auto

lemma Deliver_success:
  "Deliver sha p x block d = (d', None) \<Longrightarrow> delivered d' = insert (hashBlock sha block) (delivered d)"
  by (erule Deliver_cases, erule delivers.cases) auto

lemma Deliver_failure:
  "Deliver sha p x block d = (d', Some e) \<Longrightarrow> delivered d' = delivered d \<and> store d' = store d"
  by (erule Deliver_cases, erule delivers.cases) auto

lemma Deliver_duplicate:
  "hashBlock sha block \<in> delivered d \<Longrightarrow> Deliver sha p x block d = (d, None)"
  by (simp add: Deliver_def)

lemma Deliver_app:
  "Deliver sha p x block d = (d', err) \<Longrightarrow>
   \<exists>reqs. executed d' = executed d @ reqs \<and> app d' = app_run x (app d) reqs"
  by (erule Deliver_cases, erule delivers.cases) (auto intro: exI [of _ "[]"])

lemma Deliver_configs_ok [wf_intros]:
  "Deliver sha p x block d = (d', err) \<Longrightarrow> configs_ok (store d) \<Longrightarrow> configs_ok (store d')"
  by (erule Deliver_cases, erule delivers.cases) (auto intro: configs_ok_Install)

definition committees_ok :: "'pk ConfigStore \<Rightarrow> bool" where
  "committees_ok s \<longleftrightarrow> (\<forall>c \<in> set (configs s). wf_committee c)"

lemma Deliver_committees_ok [wf_intros]:
  "Deliver sha p x block d = (d', err) \<Longrightarrow> committees_ok (store d) \<Longrightarrow> committees_ok (store d')"
  by (erule Deliver_cases, erule delivers.cases)
     (auto simp: committees_ok_def Install_Inr_iff intro: wf_Apply)

lemma Deliver_configs_prefix:
  "Deliver sha p x block d = (d', err) \<Longrightarrow> prefix (configs (store d)) (configs (store d'))"
  by (erule Deliver_cases, erule delivers.cases) (auto simp: Install_Inr_iff)

lemma Deliver_executed_prefix:
  "Deliver sha p x block d = (d', err) \<Longrightarrow> prefix (executed d) (executed d')"
  by (drule Deliver_executed) simp

lemma Deliver_delivered_mono:
  "Deliver sha p x block d = (d', err) \<Longrightarrow> delivered d \<subseteq> delivered d'"
  by (cases err) (auto dest: Deliver_success Deliver_failure)

subsection \<open>Sequences of deliveries\<close>

primrec deliver_all :: "(bytes \<Rightarrow> bytes) \<Rightarrow> (bytes \<Rightarrow> 'pk ParsedKey option)
    \<Rightarrow> ('app \<Rightarrow> MembershipRequest \<Rightarrow> 'app \<times> bytes) \<Rightarrow> Block list \<Rightarrow> ('pk, 'app) Deliverer
    \<Rightarrow> ('pk, 'app) Deliverer \<times> deliver_error option list" where
  "deliver_all sha p x [] d = (d, [])"
| "deliver_all sha p x (b # bs) d =
     (case Deliver sha p x b d of (d1, err) \<Rightarrow>
        case deliver_all sha p x bs d1 of (d2, errs) \<Rightarrow> (d2, err # errs))"

text \<open>
  When every delivery of a sequence succeeds, the requests executed are those of the first
  occurrence of each block hash that was not delivered before.
\<close>

lemma deliver_all_executed:
  assumes "deliver_all sha p x bs d = (d', errs)" "set errs \<subseteq> {None}"
  shows "executed d' = executed d @
      concat (map (\<lambda>b. filter is_regular (Batch b)) (first_by (hashBlock sha) (delivered d) bs))
    \<and> delivered d' = delivered d \<union> hashBlock sha ` set bs"
  using assms
proof (induction bs arbitrary: d errs)
  case (Cons b bs)
  obtain d1 err where one: "Deliver sha p x b d = (d1, err)" by (cases "Deliver sha p x b d")
  obtain errs' where rest: "deliver_all sha p x bs d1 = (d', errs')" and errs: "errs = err # errs'"
    using Cons.prems(1) by (auto simp: one split: prod.splits)
  have ok: "err = None" "set errs' \<subseteq> {None}" using Cons.prems(2) by (auto simp: errs)
  have del: "delivered d1 = insert (hashBlock sha b) (delivered d)"
    using Deliver_success one ok(1) by blast
  have "\<not> (\<exists>e. AtNumber (store d) (ConfNumber b) = Inl e) \<or> hashBlock sha b \<in> delivered d"
    using one ok(1) by (auto simp: Deliver_def Let_def)
  then have "executed d1 = executed d @
      (if hashBlock sha b \<in> delivered d then [] else filter is_regular (Batch b))"
    using Deliver_executed [OF one] by auto
  with Cons.IH [OF rest ok(2)] del show ?case
    by (auto simp: insert_absorb)
qed simp

text \<open>A batch of the second kind can only succeed against the latest configuration.\<close>

lemma Deliver_stale_reconfiguration:
  assumes "configs_ok (store d)" "length (configs (store d)) < 2 ^ 64"
    and "unat (ConfNumber block) + 1 < length (configs (store d))"
    and "HasMembershipRequests (Batch block)" "hashBlock sha block \<notin> delivered d"
  shows "\<exists>d' e. Deliver sha p x block d = (d', Some e) \<and>
     executed d' = executed d @ filter is_regular (Batch block) \<and> delivered d' = delivered d"
proof -
  obtain d' err where del: "Deliver sha p x block d = (d', err)" by (cases "Deliver sha p x block d")
  have at: "AtNumber (store d) (ConfNumber block) = Inr (configs (store d) ! unat (ConfNumber block))"
    using assms(2,3) by (simp add: AtNumber_Inr)
  have num: "Number (configs (store d) ! unat (ConfNumber block)) = ConfNumber block"
    using assms(1,3) by (simp add: configs_ok_def)
  have "of_nat (length (configs (store d))) \<noteq> ConfNumber block + 1"
  proof
    assume "of_nat (length (configs (store d))) = ConfNumber block + 1"
    then have "unat (of_nat (length (configs (store d))) :: u64) = unat (ConfNumber block + 1)" by simp
    moreover have "unat (ConfNumber block + 1) = unat (ConfNumber block) + 1"
      using assms(2,3) by (simp add: unat_word_ariths)
    ultimately show False using assms(2,3) by (simp add: unat_of_nat)
  qed
  then have "err \<noteq> None"
    using Deliver_delivers [of sha p x block d] assms(4,5) at num
    by (auto simp: del Install_Inr_iff dest!: Apply_Number elim!: delivers.cases)
  then obtain e where e: "err = Some e" by auto
  show ?thesis
    using Deliver_executed [OF del] Deliver_failure [of sha p x block d d' e] del e at assms(5) by auto
qed

end
