(* ===== verification/ViewChange.thy ===== *)
theory ViewChange
  imports Safety ConfigStore
begin

section \<open>View change\<close>

text \<open>
  \<^verbatim>\<open>internal/consensus/viewchange.go\<close>. A message handed to the network is an action; whether
  the transport reports an error for it is the argument \<open>sendErr\<close>. The view changer keeps a
  view counter of its own and reads the safety state and the configurations it shares with
  the replica.
\<close>

datatype message = BlockMsg Block | ViewMsg NewViewMsg | Vote VoteMsg

datatype 'pk action = SendTo string message | Broadcast "'pk Committee" message

datatype view_error = ContextCancelled | SendNewViewFailed string u64

record ViewChanger =
  vc_curView :: u64

definition NewViewChanger :: "u64 \<Rightarrow> ViewChanger" where
  "NewViewChanger initialView = \<lparr>vc_curView = initialView\<rparr>"

definition CurView :: "ViewChanger \<Rightarrow> u64" where
  "CurView vc = vc_curView vc"

definition OnTimeout :: "(string \<Rightarrow> message \<Rightarrow> bool) \<Rightarrow> bool \<Rightarrow> SafetyState \<Rightarrow> 'pk ConfigStore
    \<Rightarrow> ViewChanger \<Rightarrow> panic + (ViewChanger \<times> 'pk action list \<times> view_error option)" where
  "OnTimeout sendErr ctxCancelled safety cs vc =
     (let vc' = vc\<lparr>vc_curView := vc_curView vc + 1\<rparr>; view = vc_curView vc' in
      case Latest cs of
        Inl p \<Rightarrow> Inl p
      | Inr mc \<Rightarrow>
          (case Leader mc view of
             Inl p \<Rightarrow> Inl p
           | Inr nextLeader \<Rightarrow>
               let msg = \<lparr>nv_ViewNumber = view, nv_ConfNumber = Number mc,
                          nv_GenericQc = GenericQC safety\<rparr>;
                   addr = Addr nextLeader
               in if ctxCancelled then Inr (vc', [], Some ContextCancelled)
                  else Inr (vc', [SendTo addr (ViewMsg msg)],
                            if sendErr addr (ViewMsg msg)
                            then Some (SendNewViewFailed addr view) else None)))"

text \<open>The loop keeps \<open>best\<close> and \<open>bestView\<close>.\<close>

primrec highestViewQC_loop :: "QuorumCert option \<Rightarrow> u64 \<Rightarrow> NewViewMsg list \<Rightarrow> QuorumCert option" where
  "highestViewQC_loop best bestView [] = best"
| "highestViewQC_loop best bestView (m # ms) =
     (case nv_GenericQc m of
        None \<Rightarrow> highestViewQC_loop best bestView ms
      | Some qc \<Rightarrow>
          (if best = None \<or> bestView < qc_ViewNumber qc
           then highestViewQC_loop (Some qc) (qc_ViewNumber qc) ms
           else highestViewQC_loop best bestView ms))"

definition highestViewQC :: "NewViewMsg list \<Rightarrow> QuorumCert option" where
  "highestViewQC msgs = highestViewQC_loop None 0 msgs"

definition OnNewViewMessages :: "NewViewMsg list \<Rightarrow> 'pk Committee \<Rightarrow> QuorumCert option \<times> bool" where
  "OnNewViewMessages msgs c =
     (if int (length msgs) < QuorumSize c then (None, False) else (highestViewQC msgs, True))"

subsection \<open>The highest certificate\<close>

definition carried :: "NewViewMsg list \<Rightarrow> QuorumCert set" where
  "carried msgs = {qc. Some qc \<in> nv_GenericQc ` set msgs}"

lemma highestViewQC_loop_Some:
  "highestViewQC_loop (Some b) (qc_ViewNumber b) ms = Some r \<Longrightarrow>
     r \<in> insert b (carried ms) \<and> (\<forall>q \<in> insert b (carried ms). qc_ViewNumber q \<le> qc_ViewNumber r)"
proof (induction ms arbitrary: b)
  case (Cons m ms)
  show ?case
  proof (cases "nv_GenericQc m")
    case None
    with Cons show ?thesis by (simp add: carried_def)
  next
    case (Some qc)
    have c: "carried (m # ms) = insert qc (carried ms)" using Some by (auto simp: carried_def)
    show ?thesis
    proof (cases "qc_ViewNumber b < qc_ViewNumber qc")
      case True
      with Cons.prems Some have "highestViewQC_loop (Some qc) (qc_ViewNumber qc) ms = Some r" by simp
      from Cons.IH [OF this] True show ?thesis unfolding c by fastforce
    next
      case False
      with Cons.prems Some have "highestViewQC_loop (Some b) (qc_ViewNumber b) ms = Some r" by simp
      from Cons.IH [OF this] False show ?thesis unfolding c by fastforce
    qed
  qed
qed (simp add: carried_def)

lemma highestViewQC_loop_defined: "\<exists>r. highestViewQC_loop (Some b) v ms = Some r"
  by (induction ms arbitrary: b v) (auto split: option.splits)

lemma highestViewQC_eq:
  "(highestViewQC ms = None \<longleftrightarrow> carried ms = {}) \<and>
   (\<forall>r. highestViewQC ms = Some r \<longrightarrow>
      r \<in> carried ms \<and> (\<forall>q \<in> carried ms. qc_ViewNumber q \<le> qc_ViewNumber r))"
proof (induction ms)
  case (Cons m ms)
  show ?case
  proof (cases "nv_GenericQc m")
    case None
    with Cons show ?thesis by (simp add: highestViewQC_def carried_def)
  next
    case (Some qc)
    then have c: "carried (m # ms) = insert qc (carried ms)" by (auto simp: carried_def)
    have e: "highestViewQC (m # ms) = highestViewQC_loop (Some qc) (qc_ViewNumber qc) ms"
      using Some by (simp add: highestViewQC_def)
    show ?thesis
      unfolding c e using highestViewQC_loop_defined [of qc "qc_ViewNumber qc" ms]
      by (auto dest!: highestViewQC_loop_Some)
  qed
qed (simp add: highestViewQC_def carried_def)

lemma OnTimeout_view:
  "OnTimeout se cx sf cs vc = Inr (vc', acts, err) \<Longrightarrow> vc_curView vc' = vc_curView vc + 1"
  by (auto simp: OnTimeout_def Let_def split: sum.splits if_splits)

end
