(* ===== verification/Quorum.thy ===== *)
theory Quorum
  imports Committee
begin

section \<open>Quorum certificates: validation and quorum intersection\<close>

text \<open>
  \<^verbatim>\<open>internal/membership/quorum.go\<close>. The \<open>SignatureVerifier\<close> interface is the argument
  \<open>verify\<close>, applied to the replica's key, the block hash and the signature as the code does.
\<close>

subsection \<open>ValidateQC\<close>

text \<open>
  The loop runs over \<open>ids\<close> with \<open>sigs[i]\<close>; it is entered only when both slices have the same
  length, so the pairs are \<open>zip ids sigs\<close>.
\<close>

primrec validate_loop :: "'pk Committee \<Rightarrow> ('pk option \<Rightarrow> bytes \<Rightarrow> bytes \<Rightarrow> bool) \<Rightarrow> bytes
    \<Rightarrow> string set \<Rightarrow> (string \<times> bytes) list \<Rightarrow> membership_error option" where
  "validate_loop c verify h seen [] = None"
| "validate_loop c verify h seen (p # ps) =
     (let signerID = fst p in
      if signerID \<in> seen then Some (DuplicateSigner signerID)
      else case ReplicaByID c signerID of
             None \<Rightarrow> Some (UnknownSigner signerID)
           | Some replica \<Rightarrow>
               (if \<not> verify (PubKey replica) h (snd p) then Some (BadSignature signerID)
                else validate_loop c verify h (insert signerID seen) ps))"

definition ValidateQC :: "QuorumCert \<Rightarrow> 'pk Committee
    \<Rightarrow> ('pk option \<Rightarrow> bytes \<Rightarrow> bytes \<Rightarrow> bool) \<Rightarrow> membership_error option" where
  "ValidateQC qc c verify =
     (let sigs = qc_Signatures qc; signers = qc_SignerIds qc in
      if int (length sigs) < QuorumSize c then Some InsufficientSignatures
      else if length sigs \<noteq> length signers then Some InsufficientSignatures
      else validate_loop c verify (qc_BlockHash qc) {} (zip signers sigs))"

subsection \<open>QuorumOf\<close>

primrec quorumOf_loop :: "int \<Rightarrow> string set \<Rightarrow> VoteMsg list \<Rightarrow> VoteMsg list \<Rightarrow> VoteMsg list \<times> bool" where
  "quorumOf_loop qSize seen quorum [] = (quorum, False)"
| "quorumOf_loop qSize seen quorum (v # vs) =
     (let i = vote_SignerId v in
      if i \<in> seen then quorumOf_loop qSize seen quorum vs
      else let quorum' = quorum @ [v] in
           if qSize \<le> int (length quorum') then (quorum', True)
           else quorumOf_loop qSize (insert i seen) quorum' vs)"

definition QuorumOf :: "VoteMsg list \<Rightarrow> 'pk Committee \<Rightarrow> VoteMsg list \<times> bool" where
  "QuorumOf votes c = quorumOf_loop (QuorumSize c) {} [] votes"

subsection \<open>What validation establishes\<close>

definition sig_ok :: "'pk Committee \<Rightarrow> ('pk option \<Rightarrow> bytes \<Rightarrow> bytes \<Rightarrow> bool) \<Rightarrow> bytes \<Rightarrow> string \<times> bytes \<Rightarrow> bool" where
  "sig_ok c verify h p \<longleftrightarrow>
     (\<exists>r. ReplicaByID c (fst p) = Some r \<and> verify (PubKey r) h (snd p))"

lemma validate_loop_None:
  "validate_loop c verify h seen ps = None \<longleftrightarrow>
     distinct (map fst ps) \<and> fst ` set ps \<inter> seen = {} \<and> (\<forall>p \<in> set ps. sig_ok c verify h p)"
proof (induction ps arbitrary: seen)
  case (Cons p ps)
  then show ?case
    by (cases "ReplicaByID c (fst p)") (auto simp: sig_ok_def Let_def)
qed simp

lemma ValidateQC_None:
  "ValidateQC qc c verify = None \<longleftrightarrow>
     QuorumSize c \<le> int (length (qc_Signatures qc))
     \<and> length (qc_Signatures qc) = length (qc_SignerIds qc)
     \<and> distinct (qc_SignerIds qc)
     \<and> (\<forall>p \<in> set (zip (qc_SignerIds qc) (qc_Signatures qc)). sig_ok c verify (qc_BlockHash qc) p)"
  by (auto simp: ValidateQC_def Let_def validate_loop_None)

lemma sig_ok_member: "sig_ok c verify h p \<Longrightarrow> fst p \<in> set (ids c)"
  by (metis ReplicaByID_None option.distinct(1) sig_ok_def)

lemma ValidateQC_signers:
  assumes "ValidateQC qc c verify = None"
  shows "set (qc_SignerIds qc) \<subseteq> set (ids c)" "QuorumSize c \<le> int (card (set (qc_SignerIds qc)))"
proof -
  from assms have len: "length (qc_Signatures qc) = length (qc_SignerIds qc)"
    and d: "distinct (qc_SignerIds qc)" and q: "QuorumSize c \<le> int (length (qc_Signatures qc))"
    and ok: "\<forall>p \<in> set (zip (qc_SignerIds qc) (qc_Signatures qc)). sig_ok c verify (qc_BlockHash qc) p"
    by (simp_all add: ValidateQC_None)
  show "QuorumSize c \<le> int (card (set (qc_SignerIds qc)))"
    using q len distinct_card [OF d] by simp
  show "set (qc_SignerIds qc) \<subseteq> set (ids c)"
  proof
    fix i assume "i \<in> set (qc_SignerIds qc)"
    then obtain s where "(i, s) \<in> set (zip (qc_SignerIds qc) (qc_Signatures qc))"
      using len by (metis in_set_impl_in_set_zip1)
    with ok show "i \<in> set (ids c)" using sig_ok_member by fastforce
  qed
qed

lemma ValidateQC_signer_verified:
  assumes "ValidateQC qc c verify = None" "i \<in> set (qc_SignerIds qc)"
  shows "\<exists>r s. ReplicaByID c i = Some r \<and> verify (PubKey r) (qc_BlockHash qc) s"
proof -
  from assms obtain s where "(i, s) \<in> set (zip (qc_SignerIds qc) (qc_Signatures qc))"
    by (metis ValidateQC_None in_set_impl_in_set_zip1)
  with assms(1) show ?thesis by (force simp: ValidateQC_None sig_ok_def)
qed

subsection \<open>Collecting a quorum of votes\<close>

lemma quorumOf_loop_eq:
  assumes "int (length quorum) < qSize"
  shows "quorumOf_loop qSize seen quorum vs =
    (let fs = quorum @ first_by vote_SignerId seen vs
     in if qSize \<le> int (length fs) then (take (nat qSize) fs, True) else (fs, False))"
  using assms
proof (induction vs arbitrary: seen quorum)
  case (Cons v vs)
  show ?case
  proof (cases "vote_SignerId v \<in> seen")
    case True
    with Cons show ?thesis by simp
  next
    case False
    show ?thesis
    proof (cases "qSize \<le> int (length (quorum @ [v]))")
      case True
      then have "nat qSize = length (quorum @ [v])" using Cons.prems by simp
      with True False show ?thesis by (simp add: Let_def)
    next
      case notyet: False
      with False Cons.IH [of "quorum @ [v]"] show ?thesis by (simp add: Let_def)
    qed
  qed
qed simp

lemma QuorumOf_eq:
  assumes "0 < QuorumSize c"
  shows "QuorumOf vs c =
    (let fs = first_by vote_SignerId {} vs
     in if QuorumSize c \<le> int (length fs) then (take (nat (QuorumSize c)) fs, True) else (fs, False))"
  using quorumOf_loop_eq [of "[]" "QuorumSize c" "{}" vs] assms
  by (simp add: QuorumOf_def)

subsection \<open>The quorum interface\<close>

text \<open>
  What a protocol built on quorums needs: finitely many members, a threshold that makes two
  quorums overlap in more than the tolerated faults, and a threshold that the correct members
  reach on their own.
\<close>

locale bft_quorum =
  fixes members :: "'c \<Rightarrow> 'm set"
    and threshold :: "'c \<Rightarrow> nat"
    and faults :: "'c \<Rightarrow> nat"
    and valid :: "'c \<Rightarrow> bool"
  assumes members_finite: "finite (members c)"
    and overlap: "valid c \<Longrightarrow> card (members c) + faults c < 2 * threshold c"
    and available: "valid c \<Longrightarrow> threshold c + faults c \<le> card (members c)"
begin

lemma quorums_intersect:
  assumes "valid c" "Q \<subseteq> members c" "Q' \<subseteq> members c"
    and "threshold c \<le> card Q" "threshold c \<le> card Q'"
  shows "faults c < card (Q \<inter> Q')"
proof -
  have fin: "finite Q" "finite Q'"
    using assms(2,3) members_finite finite_subset by blast+
  have "card (Q \<union> Q') \<le> card (members c)"
    using assms(2,3) by (intro card_mono [OF members_finite]) auto
  with card_Un_Int [OF fin] overlap [OF assms(1)] assms(4,5) show ?thesis by linarith
qed

lemma honest_in_both:
  assumes "valid c" "Q \<subseteq> members c" "Q' \<subseteq> members c"
    and "threshold c \<le> card Q" "threshold c \<le> card Q'"
    and "finite B" "card B \<le> faults c"
  shows "\<exists>m. m \<in> Q \<and> m \<in> Q' \<and> m \<notin> B"
proof (rule ccontr)
  assume "\<not> ?thesis"
  then have "Q \<inter> Q' \<subseteq> B" by auto
  from card_mono [OF assms(6) this] assms(7) have "card (Q \<inter> Q') \<le> faults c"
    by (rule le_trans)
  with quorums_intersect [OF assms(1-5)] show False by simp
qed

lemma honest_form_quorum:
  assumes "valid c" "finite B" "card B \<le> faults c"
  shows "threshold c \<le> card (members c - B)"
proof -
  have "card (members c) - card B \<le> card (members c - B)"
    by (rule diff_card_le_card_Diff [OF assms(2)])
  with available [OF assms(1)] assms(3) show ?thesis by linarith
qed

end

definition committee_valid :: "'pk Committee \<Rightarrow> bool" where
  "committee_valid c \<longleftrightarrow> wf_committee c \<and> distinct_ids c \<and> Replicas c \<noteq> []"

lemma card_ids: "distinct_ids c \<Longrightarrow> card (set (ids c)) = length (Replicas c)"
  by (metis distinct_card distinct_ids_def ids_def length_map)

lemma committee_valid_QuorumSize:
  "committee_valid c \<Longrightarrow> QuorumSize c = int (quorum_size (length (Replicas c)))"
  by (simp add: committee_valid_def QuorumSize_wf)

interpretation cq: bft_quorum
  "\<lambda>c :: 'pk Committee. set (ids c)" "\<lambda>c. nat (QuorumSize c)" "\<lambda>c. nat (FaultCap c)" committee_valid
proof
  fix c :: "'pk Committee"
  show "finite (set (ids c))" by simp
  assume v: "committee_valid c"
  then have "FaultCap c = int (fault_bound (length (Replicas c)))"
    by (simp add: committee_valid_def wf_committee_def)
  moreover have "0 < length (Replicas c)" using v by (simp add: committee_valid_def)
  ultimately show "card (set (ids c)) + nat (FaultCap c) < 2 * nat (QuorumSize c)"
    and "nat (QuorumSize c) + nat (FaultCap c) \<le> card (set (ids c))"
    using v quorum_size_overlap quorum_size_available
    by (simp_all add: committee_valid_QuorumSize card_ids committee_valid_def)
qed

text \<open>
  Two certificates of one committee name the same hash when its correct members sign only one of
  the two.
\<close>

lemma validated_same_hash:
  assumes "committee_valid c" "ValidateQC q1 c verify1 = None" "ValidateQC q2 c verify2 = None"
    and "finite B" "int (card B) \<le> FaultCap c"
    and "\<And>r s s'. r \<in> set (Replicas c) \<Longrightarrow> ID r \<notin> B \<Longrightarrow> verify1 (PubKey r) (qc_BlockHash q1) s \<Longrightarrow>
           verify2 (PubKey r) (qc_BlockHash q2) s' \<Longrightarrow> qc_BlockHash q1 = qc_BlockHash q2"
  shows "qc_BlockHash q1 = qc_BlockHash q2"
proof -
  note s1 = ValidateQC_signers [OF assms(2)] and s2 = ValidateQC_signers [OF assms(3)]
  have "\<exists>m. m \<in> set (qc_SignerIds q1) \<and> m \<in> set (qc_SignerIds q2) \<and> m \<notin> B"
    using s1 s2 assms(4,5) by (intro cq.honest_in_both [OF assms(1)]) auto
  then obtain i where i: "i \<in> set (qc_SignerIds q1)" "i \<in> set (qc_SignerIds q2)" "i \<notin> B" by blast
  obtain r s where r: "ReplicaByID c i = Some r" "verify1 (PubKey r) (qc_BlockHash q1) s"
    using ValidateQC_signer_verified [OF assms(2) i(1)] by blast
  obtain s' where "verify2 (PubKey r) (qc_BlockHash q2) s'"
    using ValidateQC_signer_verified [OF assms(3) i(2)] r(1) by auto
  with assms(6) r i(3) ReplicaByID_Some [OF r(1)] show ?thesis by blast
qed

end
