(* ===== verification/Signer.thy ===== *)
theory Signer
  imports Wire
begin

section \<open>Signing and verification\<close>

text \<open>
  \<^verbatim>\<open>internal/crypto/signer.go\<close>. SHA-256 is the argument \<open>sha\<close>, the ECDSA primitives of Go's
  \<^verbatim>\<open>crypto/ecdsa\<close> are \<open>ecdsaSign\<close> (which answers a pair of integers or fails) and
  \<open>ecdsaVerify\<close>; what the code does around them, the digest's layout and the 64-byte
  signature format, is modelled in full. \<open>big.Int\<close> values are natural numbers.
\<close>

datatype crypto_error =
    SignError
  | ReadFile string
  | NoPEMBlock string
  | ParsePKCS8 string
  | ParsePKIX
  | KeyNotECDSA
  | MarshalPKIX
  | ErrNotEnoughVotes int int
  | NotEnoughDistinct int int
  | Panicked panic

definition p256FieldBytes :: nat where [go_simps]: "p256FieldBytes = 32"
definition signatureLen :: nat where [go_simps]: "signatureLen = p256FieldBytes * 2"

definition hashTuple :: "(bytes \<Rightarrow> bytes) \<Rightarrow> u64 \<Rightarrow> u64 \<Rightarrow> bytes \<Rightarrow> bytes" where
  "hashTuple sha viewNum confNum blockHash = sha ((be8 viewNum @ be8 confNum) @ blockHash)"

subsection \<open>Integers as byte strings\<close>

text \<open>\<open>big.Int.Bytes\<close> (big endian, no leading zero) and \<open>big.Int.SetBytes\<close>.\<close>

fun int_bytes :: "nat \<Rightarrow> bytes" where
  "int_bytes n = (if n = 0 then [] else int_bytes (n div 256) @ [of_nat (n mod 256)])"

declare int_bytes.simps [simp del]

definition set_bytes :: "bytes \<Rightarrow> nat" where
  "set_bytes bs = foldl (\<lambda>a b. 256 * a + unat b) 0 bs"

text \<open>\<open>copy(dst[off:off+len(src)], src)\<close> inside a slice that is long enough.\<close>

definition copy_at :: "nat \<Rightarrow> bytes \<Rightarrow> bytes \<Rightarrow> bytes" where
  "copy_at off src dst = take off dst @ src @ drop (off + length src) dst"

definition encodeRS :: "nat \<Rightarrow> nat \<Rightarrow> panic + bytes" where
  "encodeRS r s =
     (let sig = replicate signatureLen 0; rBytes = int_bytes r; sBytes = int_bytes s in
      if p256FieldBytes < length rBytes then Inl SliceBounds
      else let sig' = copy_at (p256FieldBytes - length rBytes) rBytes sig in
           if signatureLen < length sBytes then Inl SliceBounds
           else Inr (copy_at (signatureLen - length sBytes) sBytes sig'))"

definition decodeRS :: "bytes \<Rightarrow> nat \<times> nat" where
  "decodeRS sig = (set_bytes (take p256FieldBytes sig), set_bytes (drop p256FieldBytes sig))"

definition Sign :: "(bytes \<Rightarrow> bytes) \<Rightarrow> ('sk \<Rightarrow> bytes \<Rightarrow> (nat \<times> nat) option) \<Rightarrow> 'sk
    \<Rightarrow> u64 \<Rightarrow> u64 \<Rightarrow> bytes \<Rightarrow> crypto_error + bytes" where
  "Sign sha ecdsaSign privKey viewNum confNum blockHash =
     (let digest = hashTuple sha viewNum confNum blockHash in
      case ecdsaSign privKey digest of
        None \<Rightarrow> Inl SignError
      | Some (r, s) \<Rightarrow>
          (case encodeRS r s of Inl p \<Rightarrow> Inl (Panicked p) | Inr sig \<Rightarrow> Inr sig))"

definition Verify :: "(bytes \<Rightarrow> bytes) \<Rightarrow> ('pk \<Rightarrow> bytes \<Rightarrow> nat \<Rightarrow> nat \<Rightarrow> bool) \<Rightarrow> 'pk
    \<Rightarrow> u64 \<Rightarrow> u64 \<Rightarrow> bytes \<Rightarrow> bytes \<Rightarrow> bool" where
  "Verify sha ecdsaVerify pubKey viewNum confNum blockHash sig =
     (if length sig \<noteq> signatureLen then False
      else let digest = hashTuple sha viewNum confNum blockHash;
               rs = decodeRS sig
           in ecdsaVerify pubKey digest (fst rs) (snd rs))"

subsection \<open>Loading keys\<close>

text \<open>
  The file system, the PEM decoder and the PKCS 8 and PKIX parsers are arguments; a parsed key
  is an ECDSA key or some other key, as the type assertions of the code distinguish them.
\<close>

datatype 'k parsed_key = ECKey 'k | NonECKey

definition LoadPrivateKey :: "(string \<Rightarrow> bytes option) \<Rightarrow> (bytes \<Rightarrow> bytes option)
    \<Rightarrow> (bytes \<Rightarrow> 'sk parsed_key option) \<Rightarrow> string \<Rightarrow> crypto_error + 'sk" where
  "LoadPrivateKey readFile pemDecode parsePKCS8 path =
     (case readFile path of
        None \<Rightarrow> Inl (ReadFile path)
      | Some data \<Rightarrow>
          (case pemDecode data of
             None \<Rightarrow> Inl (NoPEMBlock path)
           | Some der \<Rightarrow>
               (case parsePKCS8 der of
                  None \<Rightarrow> Inl (ParsePKCS8 path)
                | Some NonECKey \<Rightarrow> Inl KeyNotECDSA
                | Some (ECKey k) \<Rightarrow> Inr k)))"

definition LoadPublicKey :: "(bytes \<Rightarrow> 'pk parsed_key option) \<Rightarrow> bytes \<Rightarrow> crypto_error + 'pk" where
  "LoadPublicKey parse der =
     (case parse der of
        None \<Rightarrow> Inl ParsePKIX
      | Some NonECKey \<Rightarrow> Inl KeyNotECDSA
      | Some (ECKey k) \<Rightarrow> Inr k)"

definition PublicKeyToDER :: "('pk \<Rightarrow> bytes option) \<Rightarrow> 'pk \<Rightarrow> crypto_error + bytes" where
  "PublicKeyToDER marshal pub =
     (case marshal pub of None \<Rightarrow> Inl MarshalPKIX | Some der \<Rightarrow> Inr der)"

lemma LoadPublicKey_roundtrip:
  "PublicKeyToDER marshal pub = Inr der \<Longrightarrow>
   (\<And>k d. marshal k = Some d \<Longrightarrow> parse d = Some (ECKey k)) \<Longrightarrow> LoadPublicKey parse der = Inr pub"
  by (auto simp: PublicKeyToDER_def LoadPublicKey_def split: option.splits)

subsection \<open>Facts about the encoding\<close>

lemma set_bytes_Nil [simp]: "set_bytes [] = 0"
  by (simp add: set_bytes_def)

lemma set_bytes_append1 [simp]: "set_bytes (bs @ [b]) = 256 * set_bytes bs + unat b"
  by (simp add: set_bytes_def)

lemma set_bytes_zeros [simp]: "set_bytes (replicate n 0 @ bs) = set_bytes bs"
  by (induction n) (simp_all add: set_bytes_def)

lemma set_bytes_int_bytes [simp]: "set_bytes (int_bytes n) = n"
proof (induction n rule: int_bytes.induct)
  case (1 n)
  show ?case
  proof (cases "n = 0")
    case False
    then have "set_bytes (int_bytes n) = 256 * (n div 256) + unat (of_nat (n mod 256) :: u8)"
      using 1 by (simp add: int_bytes.simps [of n])
    then show ?thesis by (simp add: unat_of_nat)
  qed (simp add: int_bytes.simps [of 0])
qed

lemma int_bytes_length: "n < 256 ^ k \<Longrightarrow> length (int_bytes n) \<le> k"
proof (induction k arbitrary: n)
  case (Suc k)
  then have "n div 256 < 256 ^ k" by (simp add: less_mult_imp_div_less mult.commute)
  then have "length (int_bytes (n div 256)) \<le> k" by (rule Suc.IH)
  then show ?case by (simp add: int_bytes.simps [of n])
qed (simp add: int_bytes.simps)

text \<open>The fixed-width layout: each half is padded with zeros on the left.\<close>

definition pad32 :: "nat \<Rightarrow> bytes" where
  "pad32 n = replicate (32 - length (int_bytes n)) 0 @ int_bytes n"

lemma length_pad32: "n < 256 ^ 32 \<Longrightarrow> length (pad32 n) = 32"
  using int_bytes_length [of n 32] by (simp add: pad32_def)

lemma set_bytes_pad32 [simp]: "set_bytes (pad32 n) = n"
  by (simp add: pad32_def)

lemma encodeRS_eq:
  assumes "r < 256 ^ 32" "s < 256 ^ 32"
  shows "encodeRS r s = Inr (pad32 r @ pad32 s)"
proof -
  let ?r = "int_bytes r" and ?s = "int_bytes s"
  have len: "length ?r \<le> 32" "length ?s \<le> 32"
    using assms by (simp_all add: int_bytes_length)
  have z: "(replicate 64 0 :: bytes) = replicate 32 0 @ replicate 32 0"
    by (simp flip: replicate_add)
  have one: "copy_at (32 - length ?r) ?r (replicate 64 0) = pad32 r @ replicate 32 0"
    using len(1) by (simp add: copy_at_def pad32_def z min_def)
  have "copy_at (64 - length ?s) ?s (pad32 r @ replicate 32 0) = pad32 r @ pad32 s"
    using len(2) length_pad32 [OF assms(1)] by (simp add: copy_at_def pad32_def [of s] min_def)
  with one len show ?thesis
    by (simp add: encodeRS_def Let_def go_simps)
qed

lemma encode_decode:
  assumes "r < 256 ^ 32" "s < 256 ^ 32"
  shows "\<exists>sig. encodeRS r s = Inr sig \<and> length sig = 64 \<and> decodeRS sig = (r, s)"
  using assms by (simp add: encodeRS_eq length_pad32 decodeRS_def go_simps)

lemma hashTuple_input_inject:
  "(be8 v @ be8 c) @ h = (be8 v' @ be8 c') @ h' \<longleftrightarrow> v = v' \<and> c = c' \<and> h = h'"
  by (auto simp: append_eq_append_conv)

end
