(* ===== verification/QC.thy ===== *)
theory QC
  imports Quorum Signer
begin

section \<open>Building quorum certificates from votes\<close>

text \<open>\<^verbatim>\<open>internal/crypto/ecdsa_qc.go\<close>.\<close>

text \<open>The loop of \<open>CreateQC\<close>: the state is \<open>seen\<close>, \<open>sigs\<close> and \<open>ids\<close>.\<close>

primrec createQC_loop :: "int \<Rightarrow> string set \<Rightarrow> bytes list \<Rightarrow> string list \<Rightarrow> VoteMsg list
    \<Rightarrow> bytes list \<times> string list" where
  "createQC_loop qSize seen sigs signers [] = (sigs, signers)"
| "createQC_loop qSize seen sigs signers (v # vs) =
     (let i = vote_SignerId v in
      if i \<in> seen then createQC_loop qSize seen sigs signers vs
      else let sigs' = sigs @ [vote_Signature v]; signers' = signers @ [i] in
           if qSize \<le> int (length sigs') then (sigs', signers')
           else createQC_loop qSize (insert i seen) sigs' signers' vs)"

definition CreateQC :: "VoteMsg list \<Rightarrow> 'pk Committee \<Rightarrow> crypto_error + QuorumCert" where
  "CreateQC votes c =
     (if int (length votes) < QuorumSize c
      then Inl (ErrNotEnoughVotes (int (length votes)) (QuorumSize c))
      else
        let qSize = QuorumSize c;
            r = createQC_loop qSize {} [] [] votes
        in if int (length (fst r)) < qSize
           then Inl (NotEnoughDistinct (int (length (fst r))) qSize)
           else (case votes of
                   [] \<Rightarrow> Inl (Panicked IndexOutOfRange)
                 | ref # _ \<Rightarrow>
                     Inr \<lparr>qc_Type = '''', qc_ViewNumber = vote_ViewNumber ref,
                          qc_ConfNumber = vote_ConfNumber ref,
                          qc_BlockHash = vote_BlockHash ref,
                          qc_Signatures = fst r, qc_SignerIds = snd r\<rparr>))"

primrec has_signer :: "string \<Rightarrow> VoteMsg list \<Rightarrow> bool" where
  "has_signer i [] = False"
| "has_signer i (v # vs) = (if vote_SignerId v = i then True else has_signer i vs)"

definition AggregateVotes :: "VoteMsg list \<Rightarrow> VoteMsg \<Rightarrow> VoteMsg list" where
  "AggregateVotes existing incoming =
     (if has_signer (vote_SignerId incoming) existing then existing else existing @ [incoming])"

primrec hasQuorum_loop :: "int \<Rightarrow> string set \<Rightarrow> VoteMsg list \<Rightarrow> bool" where
  "hasQuorum_loop qSize seen [] = False"
| "hasQuorum_loop qSize seen (v # vs) =
     (let seen' = insert (vote_SignerId v) seen in
      if qSize \<le> int (card seen') then True else hasQuorum_loop qSize seen' vs)"

definition HasQuorum :: "VoteMsg list \<Rightarrow> 'pk Committee \<Rightarrow> bool" where
  "HasQuorum votes c = hasQuorum_loop (QuorumSize c) {} votes"

subsection \<open>The votes of a list, as a set of signers\<close>

definition signers :: "VoteMsg list \<Rightarrow> string set" where
  "signers votes = vote_SignerId ` set votes"

abbreviation firsts :: "VoteMsg list \<Rightarrow> VoteMsg list" where
  "firsts votes \<equiv> first_by vote_SignerId {} votes"

lemma signers_simps [simp]:
  "signers [] = {}" "signers (v # vs) = insert (vote_SignerId v) (signers vs)"
  "signers (vs @ ws) = signers vs \<union> signers ws"
  by (auto simp: signers_def)

lemma finite_signers [simp]: "finite (signers vs)"
  by (simp add: signers_def)

lemma length_firsts: "length (firsts vs) = card (signers vs)"
  by (simp add: first_by_length signers_def)

lemma has_signer_iff [simp]: "has_signer i vs \<longleftrightarrow> i \<in> signers vs"
  by (induction vs) auto

lemma signers_Aggregate: "signers (AggregateVotes vs v) = insert (vote_SignerId v) (signers vs)"
  by (auto simp: AggregateVotes_def)

lemma distinct_Aggregate [wf_intros]:
  "distinct (map vote_SignerId vs) \<Longrightarrow> distinct (map vote_SignerId (AggregateVotes vs v))"
  by (auto simp: AggregateVotes_def signers_def)

lemma set_Aggregate: "set (AggregateVotes vs v) \<subseteq> insert v (set vs)"
  by (auto simp: AggregateVotes_def)

lemma hasQuorum_loop_iff:
  "finite seen \<Longrightarrow> int (card seen) < q \<Longrightarrow>
     hasQuorum_loop q seen vs \<longleftrightarrow> q \<le> int (card (seen \<union> signers vs))"
proof (induction vs arbitrary: seen)
  case (Cons v vs)
  let ?s = "insert (vote_SignerId v) seen"
  have un: "seen \<union> signers (v # vs) = ?s \<union> signers vs" by simp
  show ?case
  proof (cases "q \<le> int (card ?s)")
    case True
    moreover have "card ?s \<le> card (?s \<union> signers vs)"
      using Cons.prems(1) by (intro card_mono) auto
    ultimately have "q \<le> int (card (?s \<union> signers vs))" by linarith
    with True show ?thesis by (simp only: hasQuorum_loop.simps Let_def if_True un)
  next
    case False
    with Cons show ?thesis by (simp add: Let_def)
  qed
qed simp

lemma HasQuorum_iff:
  "0 < QuorumSize c \<Longrightarrow> HasQuorum vs c \<longleftrightarrow> QuorumSize c \<le> int (card (signers vs))"
  by (simp add: HasQuorum_def hasQuorum_loop_iff)

subsection \<open>CreateQC\<close>

lemma createQC_loop_eq:
  assumes "int (length quorum) < q"
  shows "createQC_loop q seen (map vote_Signature quorum) (map vote_SignerId quorum) vs =
    (let w = fst (quorumOf_loop q seen quorum vs)
     in (map vote_Signature w, map vote_SignerId w))"
  using assms
proof (induction vs arbitrary: seen quorum)
  case (Cons v vs)
  from Cons.prems Cons.IH [of quorum seen] Cons.IH [of "quorum @ [v]" "insert (vote_SignerId v) seen"]
  show ?case by (auto simp: Let_def)
qed simp

lemma CreateQC_Inr:
  assumes "0 < QuorumSize c"
  shows "CreateQC vs c = Inr qc \<longleftrightarrow>
    snd (QuorumOf vs c) \<and>
    qc = \<lparr>qc_Type = '''', qc_ViewNumber = vote_ViewNumber (hd vs),
          qc_ConfNumber = vote_ConfNumber (hd vs), qc_BlockHash = vote_BlockHash (hd vs),
          qc_Signatures = map vote_Signature (fst (QuorumOf vs c)),
          qc_SignerIds = map vote_SignerId (fst (QuorumOf vs c))\<rparr>"
proof -
  let ?q = "QuorumSize c"
  have loop: "createQC_loop ?q {} [] [] vs =
      (map vote_Signature (fst (QuorumOf vs c)), map vote_SignerId (fst (QuorumOf vs c)))"
    using createQC_loop_eq [of "[]" ?q "{}" vs] assms by (simp add: QuorumOf_def Let_def)
  have le: "length (firsts vs) \<le> length vs" by (rule first_by_length_le)
  have ok: "snd (QuorumOf vs c) \<longleftrightarrow> ?q \<le> int (length (firsts vs))"
    and len: "snd (QuorumOf vs c) \<Longrightarrow> int (length (fst (QuorumOf vs c))) = ?q"
    and short: "\<not> snd (QuorumOf vs c) \<Longrightarrow> int (length (fst (QuorumOf vs c))) < ?q"
    using assms by (auto simp: QuorumOf_eq Let_def split: if_splits)
  show ?thesis
  proof (cases "snd (QuorumOf vs c)")
    case True
    then have "?q \<le> int (length vs)" using ok le by linarith
    then show ?thesis
      using True len assms by (auto simp: CreateQC_def Let_def loop list.case_eq_if)
  next
    case False
    then show ?thesis
      using short by (auto simp: CreateQC_def Let_def loop)
  qed
qed

lemma CreateQC_total:
  assumes "0 < QuorumSize c"
  shows "(\<exists>qc. CreateQC vs c = Inr qc) \<longleftrightarrow> HasQuorum vs c"
  using assms by (simp add: CreateQC_Inr HasQuorum_iff QuorumOf_eq Let_def length_firsts)

lemma CreateQC_shape:
  assumes "0 < QuorumSize c" "CreateQC vs c = Inr qc"
  shows "int (length (qc_SignerIds qc)) = QuorumSize c"
    and "length (qc_Signatures qc) = length (qc_SignerIds qc)"
    and "distinct (qc_SignerIds qc)"
    and "\<forall>p \<in> set (zip (qc_SignerIds qc) (qc_Signatures qc)).
           \<exists>v \<in> set vs. p = (vote_SignerId v, vote_Signature v)"
proof -
  let ?w = "fst (QuorumOf vs c)"
  have w: "?w = take (nat (QuorumSize c)) (firsts vs)" "QuorumSize c \<le> int (length (firsts vs))"
    using assms by (auto simp: CreateQC_Inr QuorumOf_eq Let_def split: if_splits)
  have qc: "qc_SignerIds qc = map vote_SignerId ?w" "qc_Signatures qc = map vote_Signature ?w"
    using assms by (simp_all add: CreateQC_Inr)
  show "int (length (qc_SignerIds qc)) = QuorumSize c"
    using w assms(1) by (simp add: qc)
  show "length (qc_Signatures qc) = length (qc_SignerIds qc)" by (simp add: qc)
  show "distinct (qc_SignerIds qc)"
    by (metis distinct_take first_by_distinct qc(1) take_map w(1))
  have "set ?w \<subseteq> set vs"
    using w(1) first_by_subset [of vote_SignerId "{}" vs] set_take_subset by fastforce
  then show "\<forall>p \<in> set (zip (qc_SignerIds qc) (qc_Signatures qc)).
      \<exists>v \<in> set vs. p = (vote_SignerId v, vote_Signature v)"
    by (fastforce simp: qc zip_map_map zip_same)
qed

lemma CreateQC_ValidateQC:
  assumes "0 < QuorumSize c" "CreateQC vs c = Inr qc"
    and "\<forall>v \<in> set vs. vote_BlockHash v = h"
    and "\<forall>v \<in> set vs. sig_ok c verify h (vote_SignerId v, vote_Signature v)"
  shows "ValidateQC qc c verify = None"
proof -
  have "vs \<noteq> []" using assms(2) assms(1) by (auto simp: CreateQC_def)
  then have h: "qc_BlockHash qc = h" using assms(1-3) by (simp add: CreateQC_Inr)
  from CreateQC_shape [OF assms(1,2)] assms(4) show ?thesis
    unfolding ValidateQC_None h by fastforce
qed

end
