(* ===== verification/Float64.thy ===== *)
theory Float64
  imports Prelude Complex_Main "HOL-Library.Log_Nat"
begin

section \<open>Double-precision arithmetic\<close>

text \<open>
  Go's \<open>float64\<close> for the values the reputation scores take: finite numbers, as rationals,
  with every operation rounded to the nearest representable value, ties to even (53 bits of
  significand, smallest exponent \<open>-1074\<close>). The scores are built from quotients of unsigned
  64-bit counters and two weights, so no operation divides by zero or overflows to infinity,
  and the rounding function is the whole of the arithmetic. The evaluation is the unfused
  one: each product and sum is rounded on its own.
\<close>

type_synonym f64 = rat

text \<open>Round to the nearest integer, ties to even.\<close>

definition rne :: "rat \<Rightarrow> int" where
  "rne q = (let f = \<lfloor>q\<rfloor>; r = q - of_int f in
     if r < 1 / 2 then f else if 1 / 2 < r then f + 1 else if even f then f else f + 1)"

text \<open>The binary exponent of a positive number.\<close>

definition expo :: "rat \<Rightarrow> int" where
  "expo x = (let p = quotient_of x;
                 e = int (floorlog 2 (nat (fst p))) - int (floorlog 2 (nat (snd p)))
             in if 2 powi e \<le> x then e else e - 1)"

definition quantum :: "rat \<Rightarrow> int" where
  "quantum x = max (expo x - 52) (- 1074)"

definition rnd :: "rat \<Rightarrow> f64" where
  "rnd x =
     (if x = 0 then 0
      else let q = quantum \<bar>x\<bar>
           in sgn x * (of_int (rne (\<bar>x\<bar> * 2 powi (- q))) * 2 powi q))"

definition fadd :: "f64 \<Rightarrow> f64 \<Rightarrow> f64" where "fadd x y = rnd (x + y)"
definition fmul :: "f64 \<Rightarrow> f64 \<Rightarrow> f64" where "fmul x y = rnd (x * y)"
definition fdiv :: "f64 \<Rightarrow> f64 \<Rightarrow> f64" where "fdiv x y = rnd (x / y)"
definition f64_of_u64 :: "u64 \<Rightarrow> f64" where "f64_of_u64 w = rnd (of_nat (unat w))"

subsection \<open>Rounding to an integer is monotone\<close>

lemma rne_bounds: "\<lfloor>q\<rfloor> \<le> rne q" "rne q \<le> \<lfloor>q\<rfloor> + 1"
  by (auto simp: rne_def Let_def)

lemma rne_of_int [simp]: "rne (of_int m) = m"
  by (simp add: rne_def)

lemma rne_mono: "q \<le> q' \<Longrightarrow> rne q \<le> rne q'"
proof -
  assume le: "q \<le> q'"
  then have "\<lfloor>q\<rfloor> \<le> \<lfloor>q'\<rfloor>" by (rule floor_mono)
  then consider "\<lfloor>q\<rfloor> = \<lfloor>q'\<rfloor>" | "\<lfloor>q\<rfloor> + 1 \<le> \<lfloor>q'\<rfloor>" by linarith
  then show ?thesis
  proof cases
    case 1
    with le show ?thesis by (auto simp: rne_def Let_def)
  next
    case 2
    with rne_bounds(2) [of q] rne_bounds(1) [of q'] show ?thesis by linarith
  qed
qed

lemma rne_ge_int: "of_int m \<le> q \<Longrightarrow> m \<le> rne q"
  using rne_mono [of "of_int m" q] by simp

lemma rne_le_int: "q \<le> of_int m \<Longrightarrow> rne q \<le> m"
  using rne_mono [of q "of_int m"] by simp

subsection \<open>Exponents\<close>

lemma floorlog_2_bounds:
  "0 < n \<Longrightarrow> 2 powi (int (floorlog 2 n) - 1) \<le> (of_nat n :: rat) \<and> (of_nat n :: rat) < 2 powi (int (floorlog 2 n))"
proof -
  assume "0 < n"
  then have b: "2 ^ (floorlog 2 n - 1) \<le> n" "n < 2 ^ floorlog 2 n"
    using floorlog_bounds [of n 2] by auto
  have p: "0 < floorlog 2 n"
    using \<open>0 < n\<close> floorlog_eq_zero_iff [of 2 n] by linarith
  have "(2 :: rat) powi (int (floorlog 2 n) - 1) = of_nat (2 ^ (floorlog 2 n - 1))"
    using p by (simp add: power_int_def nat_diff_distrib)
  also have "\<dots> \<le> of_nat n" using b(1) by (simp only: of_nat_le_iff)
  finally have "2 powi (int (floorlog 2 n) - 1) \<le> (of_nat n :: rat)" .
  moreover have "(of_nat n :: rat) < of_nat (2 ^ floorlog 2 n)"
    using b(2) by (simp only: of_nat_less_iff)
  ultimately show ?thesis by (simp add: power_int_def)
qed

lemma expo_bounds:
  assumes "0 < x"
  shows "2 powi expo x \<le> x" and "x < 2 powi (expo x + 1)"
proof -
  obtain n d where q: "quotient_of x = (n, d)" by (cases "quotient_of x")
  have x: "x = of_int n / of_int d" and d: "0 < d"
    using q quotient_of_div quotient_of_denom_pos by blast+
  with assms have n: "0 < n" by (simp add: zero_less_divide_iff)
  define k j where "k = int (floorlog 2 (nat n))" and "j = int (floorlog 2 (nat d))"
  have nb: "2 powi (k - 1) \<le> (of_int n :: rat)" "(of_int n :: rat) < 2 powi k"
    using floorlog_2_bounds [of "nat n"] n by (simp_all add: k_def)
  have db: "2 powi (j - 1) \<le> (of_int d :: rat)" "(of_int d :: rat) < 2 powi j"
    using floorlog_2_bounds [of "nat d"] d by (simp_all add: j_def)
  have dpos: "(0 :: rat) < of_int d" using d by simp
  have "of_int n < (2 :: rat) powi k" by (rule nb(2))
  also have "(2 :: rat) powi k = 2 powi (k - j + 1) * 2 powi (j - 1)"
    by (simp flip: power_int_add)
  also have "\<dots> \<le> 2 powi (k - j + 1) * of_int d" using db(1) by simp
  finally have up: "x < 2 powi (k - j + 1)" using dpos by (simp add: x pos_divide_less_eq)
  have "(2 :: rat) powi (k - j - 1) * of_int d \<le> 2 powi (k - j - 1) * 2 powi j" using db(2) by simp
  also have "\<dots> = 2 powi (k - 1)" by (simp flip: power_int_add)
  also have "\<dots> \<le> of_int n" by (rule nb(1))
  finally have lo: "2 powi (k - j - 1) \<le> x" using dpos by (simp add: x pos_le_divide_eq)
  have e: "expo x = (if 2 powi (k - j) \<le> x then k - j else k - j - 1)"
    by (simp add: expo_def q Let_def k_def j_def)
  show "2 powi expo x \<le> x" using lo by (simp add: e)
  show "x < 2 powi (expo x + 1)" using up by (simp add: e)
qed

lemma powi_2_less_iff: "(2 :: rat) powi a < 2 powi b \<longleftrightarrow> a < b"
  using power_int_strict_increasing [of a b "2 :: rat"] power_int_increasing [of b a "2 :: rat"]
  by (cases "a < b") auto

lemma powi_2_le_iff: "(2 :: rat) powi a \<le> 2 powi b \<longleftrightarrow> a \<le> b"
  by (simp add: powi_2_less_iff flip: not_less)

lemma expo_mono: "0 < x \<Longrightarrow> x \<le> y \<Longrightarrow> expo x \<le> expo y"
proof -
  assume "0 < x" "x \<le> y"
  then have "2 powi expo x < (2 :: rat) powi (expo y + 1)"
    using expo_bounds(1) [of x] expo_bounds(2) [of y] by linarith
  then show ?thesis by (simp add: powi_2_less_iff)
qed

lemma expo_powi [simp]: "expo (2 powi e) = e"
proof -
  have "(0 :: rat) < 2 powi e" by simp
  from expo_bounds [OF this] show ?thesis by (simp add: powi_2_le_iff powi_2_less_iff)
qed

subsection \<open>Rounding\<close>

lemma rnd_pos_eq: "0 < x \<Longrightarrow> rnd x = of_int (rne (x * 2 powi (- quantum x))) * 2 powi quantum x"
  by (simp add: rnd_def Let_def)

lemma rnd_0 [simp]: "rnd 0 = 0"
  by (simp add: rnd_def)

lemma rnd_powi: "- 1074 \<le> e \<Longrightarrow> rnd (2 powi e) = 2 powi e"
proof -
  assume e: "- 1074 \<le> e"
  define q where "q = quantum (2 powi e)"
  have q: "q = max (e - 52) (- 1074)" by (simp add: q_def quantum_def)
  then have "q \<le> e" using e by simp
  then obtain n where n: "e - q = int n" using nonneg_int_cases [of "e - q"] by auto
  have "(2 :: rat) powi e * 2 powi (- q) = 2 powi (e - q)" by (simp flip: power_int_add)
  also have "\<dots> = of_int (2 ^ n)" by (simp add: n)
  finally have "rne ((2 :: rat) powi e * 2 powi (- q)) = 2 ^ n" by (simp only: rne_of_int)
  moreover have "(2 :: rat) ^ n * 2 powi q = 2 powi (e - q) * 2 powi q" by (simp add: n)
  ultimately show ?thesis
    by (simp add: rnd_pos_eq flip: q_def power_int_add)
qed

lemma rnd_1 [simp]: "rnd 1 = 1"
  using rnd_powi [of 0] by simp

lemma rnd_mono_pos:
  assumes "0 < x" "x \<le> y"
  shows "rnd x \<le> rnd y"
proof (cases "quantum x = quantum y")
  case True
  have "x * 2 powi (- quantum y) \<le> y * 2 powi (- quantum y)" using assms(2) by simp
  from rne_mono [OF this] show ?thesis
    using assms True by (simp add: rnd_pos_eq)
next
  case False
  let ?e = "expo y" and ?q = "quantum x"
  have ypos: "0 < y" using assms by linarith
  have "quantum x < quantum y"
    using False expo_mono [OF assms] by (auto simp: quantum_def)
  then have qy: "quantum y = ?e - 52" and lt: "?q < ?e - 52" and elt: "expo x < ?e"
    by (auto simp: quantum_def)
  obtain n where n: "?e - ?q = int n" using lt nonneg_int_cases [of "?e - ?q"] by auto
  have "x \<le> 2 powi (expo x + 1)" using expo_bounds(2) [OF assms(1)] by simp
  also have "\<dots> \<le> 2 powi ?e" using elt by (simp add: powi_2_le_iff)
  finally have "x * 2 powi (- ?q) \<le> 2 powi ?e * 2 powi (- ?q)" by simp
  also have "\<dots> = of_int (2 ^ n)" using n by (simp flip: power_int_add)
  finally have "rne (x * 2 powi (- ?q)) \<le> 2 ^ n" by (rule rne_le_int)
  then have "rnd x \<le> of_int (2 ^ n) * 2 powi ?q"
    using assms(1) by (simp only: rnd_pos_eq) (simp del: of_int_power)
  also have "of_int (2 ^ n) * 2 powi ?q = (2 :: rat) powi (?e - ?q) * 2 powi ?q" by (simp add: n)
  also have "\<dots> = 2 powi ?e" by (simp flip: power_int_add)
  also have "\<dots> = of_int (2 ^ 52) * 2 powi (?e - 52)" by (simp add: power_int_diff)
  also have "\<dots> \<le> rnd y"
  proof -
    have "of_int (2 ^ 52) = (2 :: rat) powi ?e * 2 powi (- (?e - 52))" by (simp flip: power_int_add)
    also have "\<dots> \<le> y * 2 powi (- (?e - 52))" using expo_bounds(1) [OF ypos] by simp
    finally have "2 ^ 52 \<le> rne (y * 2 powi (- (?e - 52)))" by (rule rne_ge_int)
    then have "of_int (2 ^ 52) \<le> (of_int (rne (y * 2 powi (- (?e - 52)))) :: rat)"
      by (simp only: of_int_le_iff)
    then show ?thesis by (simp add: rnd_pos_eq [OF ypos] qy)
  qed
  finally show ?thesis .
qed

lemma rnd_nonneg: "0 \<le> x \<Longrightarrow> 0 \<le> rnd x"
  by (cases "x = 0") (auto simp: rnd_pos_eq intro!: mult_nonneg_nonneg rne_ge_int)

lemma rnd_mono: "0 \<le> x \<Longrightarrow> x \<le> y \<Longrightarrow> rnd x \<le> rnd y"
  by (cases "x = 0") (auto simp: rnd_nonneg rnd_mono_pos)

lemma rnd_ge_1: "1 \<le> x \<Longrightarrow> 1 \<le> rnd x"
  using rnd_mono [of 1 x] by simp

lemma f64_of_u64_0 [simp]: "f64_of_u64 0 = 0"
  by (simp add: f64_of_u64_def)

lemma f64_of_u64_nonneg [simp]: "0 \<le> f64_of_u64 w"
  by (simp add: f64_of_u64_def rnd_nonneg del: of_nat_unat)

lemma f64_of_u64_ge_1: "w \<noteq> 0 \<Longrightarrow> 1 \<le> f64_of_u64 w"
  by (simp add: f64_of_u64_def rnd_ge_1 Suc_le_eq unat_gt_0 del: of_nat_unat)

lemma f64_of_u64_mono: "v \<le> w \<Longrightarrow> f64_of_u64 v \<le> f64_of_u64 w"
  by (simp add: f64_of_u64_def rnd_mono word_le_nat_alt del: of_nat_unat)

lemma fdiv_self: "w \<noteq> 0 \<Longrightarrow> fdiv (f64_of_u64 w) (f64_of_u64 w) = 1"
  using f64_of_u64_ge_1 [of w] by (simp add: fdiv_def)

lemma fdiv_le_1: "v \<le> w \<Longrightarrow> w \<noteq> 0 \<Longrightarrow> fdiv (f64_of_u64 v) (f64_of_u64 w) \<le> 1"
proof -
  assume "v \<le> w" "w \<noteq> 0"
  then have "f64_of_u64 v / f64_of_u64 w \<le> 1"
    using f64_of_u64_mono [of v w] f64_of_u64_ge_1 [of w] by (simp add: divide_le_eq_1)
  then show ?thesis using rnd_mono [of "f64_of_u64 v / f64_of_u64 w" 1] by (simp add: fdiv_def)
qed

lemma fdiv_nonneg: "0 \<le> fdiv (f64_of_u64 v) (f64_of_u64 w)"
  by (simp add: fdiv_def rnd_nonneg)

lemma fmul_mono: "0 \<le> a \<Longrightarrow> 0 \<le> x \<Longrightarrow> x \<le> y \<Longrightarrow> fmul a x \<le> fmul a y"
  by (simp add: fmul_def rnd_mono mult_left_mono)

lemma fmul_nonneg: "0 \<le> a \<Longrightarrow> 0 \<le> x \<Longrightarrow> 0 \<le> fmul a x"
  by (simp add: fmul_def rnd_nonneg)

lemma fadd_mono: "0 \<le> x \<Longrightarrow> 0 \<le> y \<Longrightarrow> x \<le> x' \<Longrightarrow> y \<le> y' \<Longrightarrow> fadd x y \<le> fadd x' y'"
  by (simp add: fadd_def rnd_mono add_mono)

lemma fadd_nonneg: "0 \<le> x \<Longrightarrow> 0 \<le> y \<Longrightarrow> 0 \<le> fadd x y"
  by (simp add: fadd_def rnd_nonneg)

end
