(* ===== verification/Reputation.thy ===== *)
theory Reputation
  imports Committee Float64 "HOL-Library.List_Lexorder" "HOL-Library.Char_ord"
begin

section \<open>Reputation scores and leader selection\<close>

text \<open>
  \<^verbatim>\<open>internal/reputation/store.go\<close>. The map from replica identities to their counters is a
  partial function; the pointer that \<open>get\<close> returns is used for one update before the lock is
  released, so the model writes the updated counters back. Strings compare byte by byte.
\<close>

record ReplicaStats =
  RoundsAsLeader :: u64
  CommittedAsLeader :: u64
  Timeouts :: u64
  LastLedHeight :: u64

record Store =
  stats :: "string \<Rightarrow> ReplicaStats option"
  alpha :: f64
  beta :: f64

definition DefaultAlpha :: f64 where "DefaultAlpha = rnd (6 / 10)"
definition DefaultBeta :: f64 where "DefaultBeta = rnd (4 / 10)"

definition zero_stats :: ReplicaStats where
  "zero_stats = \<lparr>RoundsAsLeader = 0, CommittedAsLeader = 0, Timeouts = 0, LastLedHeight = 0\<rparr>"

definition CommitRate :: "ReplicaStats \<Rightarrow> f64" where
  "CommitRate s =
     (if RoundsAsLeader s = 0 then 1
      else fdiv (f64_of_u64 (CommittedAsLeader s)) (f64_of_u64 (RoundsAsLeader s)))"

definition Novelty :: "ReplicaStats \<Rightarrow> u64 \<Rightarrow> f64" where
  "Novelty s currentHeight =
     (if currentHeight = 0 then 1
      else let gap = currentHeight - LastLedHeight s;
               gap' = (if currentHeight < LastLedHeight s then 0 else gap)
           in fdiv (f64_of_u64 gap') (f64_of_u64 currentHeight))"

definition NewStore :: Store where
  "NewStore = \<lparr>stats = Map.empty, alpha = DefaultAlpha, beta = DefaultBeta\<rparr>"

definition NewStoreWeighted :: "f64 \<Rightarrow> f64 \<Rightarrow> panic + Store" where
  "NewStoreWeighted a b =
     (if fadd a b < rnd (99 / 100) \<or> rnd (101 / 100) < fadd a b then Inl ExplicitPanic
      else Inr \<lparr>stats = Map.empty, alpha = a, beta = b\<rparr>)"

text \<open>\<open>get\<close> inserts zero counters for an identity that has none.\<close>

definition get :: "Store \<Rightarrow> string \<Rightarrow> ReplicaStats \<times> Store" where
  "get s i =
     (case stats s i of
        Some st \<Rightarrow> (st, s)
      | None \<Rightarrow> (zero_stats, s\<lparr>stats := (stats s)(i \<mapsto> zero_stats)\<rparr>))"

definition RecordLeaderRound :: "Store \<Rightarrow> string \<Rightarrow> Store" where
  "RecordLeaderRound s i =
     (case get s i of (st, s') \<Rightarrow>
        s'\<lparr>stats := (stats s')(i \<mapsto> st\<lparr>RoundsAsLeader := RoundsAsLeader st + 1\<rparr>)\<rparr>)"

definition RecordCommit :: "Store \<Rightarrow> string \<Rightarrow> u64 \<Rightarrow> Store" where
  "RecordCommit s i committedHeight =
     (case get s i of (st, s') \<Rightarrow>
        let st1 = st\<lparr>CommittedAsLeader := CommittedAsLeader st + 1\<rparr>;
            st2 = (if LastLedHeight st1 < committedHeight
                   then st1\<lparr>LastLedHeight := committedHeight\<rparr> else st1)
        in s'\<lparr>stats := (stats s')(i \<mapsto> st2)\<rparr>)"

definition RecordTimeout :: "Store \<Rightarrow> string \<Rightarrow> Store" where
  "RecordTimeout s i =
     (case get s i of (st, s') \<Rightarrow>
        s'\<lparr>stats := (stats s')(i \<mapsto> st\<lparr>Timeouts := Timeouts st + 1\<rparr>)\<rparr>)"

definition Score :: "Store \<Rightarrow> string \<Rightarrow> u64 \<Rightarrow> f64" where
  "Score s i currentHeight =
     (case stats s i of
        None \<Rightarrow> fadd (fmul (alpha s) 1) (fmul (beta s) 1)
      | Some st \<Rightarrow> fadd (fmul (alpha s) (CommitRate st)) (fmul (beta s) (Novelty st currentHeight)))"

definition Stats :: "Store \<Rightarrow> string \<Rightarrow> ReplicaStats" where
  "Stats s i = (case stats s i of Some st \<Rightarrow> st | None \<Rightarrow> zero_stats)"

subsection \<open>The order of candidates\<close>

text \<open>
  The comparison of \<open>Select\<close>: a higher score first, equal scores by identity. As a class
  instance it is a linear order on pairs of a score and an identity.
\<close>

datatype priority = Priority (pr_score: f64) (pr_id: string)

instantiation priority :: linorder
begin

definition less_priority :: "priority \<Rightarrow> priority \<Rightarrow> bool" where
  "less_priority p q =
     (if pr_score p \<noteq> pr_score q then pr_score q < pr_score p else pr_id p < pr_id q)"

definition less_eq_priority :: "priority \<Rightarrow> priority \<Rightarrow> bool" where
  "less_eq_priority p q \<longleftrightarrow> p < q \<or> p = q"

instance
proof
  fix p q r :: priority
  show "p < q \<longleftrightarrow> p \<le> q \<and> \<not> q \<le> p" "p \<le> p"
    by (auto simp: less_priority_def less_eq_priority_def split: if_splits)
  show "p \<le> q \<Longrightarrow> q \<le> r \<Longrightarrow> p \<le> r" "p \<le> q \<Longrightarrow> q \<le> p \<Longrightarrow> p = q"
    by (auto simp: less_priority_def less_eq_priority_def split: if_splits)
  show "p \<le> q \<or> q \<le> p"
    unfolding less_priority_def less_eq_priority_def by (metis linorder_less_linear priority.expand)
qed

end

text \<open>
  \<open>sort.Slice\<close>: an insertion sort by \<open>less\<close>, each element going behind the ones it does not
  precede. Where two elements compare equal either way, Go leaves their order open; the
  lemmas below that speak of the first element need no such choice.
\<close>

primrec insert_by :: "('a \<Rightarrow> 'a \<Rightarrow> bool) \<Rightarrow> 'a \<Rightarrow> 'a list \<Rightarrow> 'a list" where
  "insert_by lt x [] = [x]"
| "insert_by lt x (y # ys) = (if lt x y then x # y # ys else y # insert_by lt x ys)"

definition sort_slice :: "('a \<Rightarrow> 'a \<Rightarrow> bool) \<Rightarrow> 'a list \<Rightarrow> 'a list" where
  "sort_slice lt xs = foldl (\<lambda>acc x. insert_by lt x acc) [] xs"

definition candidate_less :: "'pk Replica \<times> f64 \<Rightarrow> 'pk Replica \<times> f64 \<Rightarrow> bool" where
  "candidate_less x y =
     (if snd x \<noteq> snd y then snd y < snd x else ID (fst x) < ID (fst y))"

definition Select :: "Store \<Rightarrow> 'pk Committee \<Rightarrow> u64 \<Rightarrow> 'pk Replica option" where
  "Select s c currentHeight =
     (if Replicas c = [] then None
      else let candidates = map (\<lambda>r. (r, Score s (ID r) currentHeight)) (Replicas c)
           in Some (fst (hd (sort_slice candidate_less candidates))))"

definition ScoreTable :: "Store \<Rightarrow> 'pk Committee \<Rightarrow> u64 \<Rightarrow> (string \<Rightarrow> f64 option)" where
  "ScoreTable s c currentHeight =
     foldl (\<lambda>table r. table(ID r \<mapsto> Score s (ID r) currentHeight)) Map.empty (Replicas c)"

subsection \<open>Counters\<close>

lemma get_eq: "get s i = (Stats s i, s\<lparr>stats := (stats s)(i \<mapsto> Stats s i)\<rparr>)"
  by (auto simp: get_def Stats_def fun_upd_idem split: option.splits)

lemma record_stats:
  "stats (RecordLeaderRound s i) = (stats s)(i \<mapsto> (Stats s i)\<lparr>RoundsAsLeader := RoundsAsLeader (Stats s i) + 1\<rparr>)"
  "stats (RecordTimeout s i) = (stats s)(i \<mapsto> (Stats s i)\<lparr>Timeouts := Timeouts (Stats s i) + 1\<rparr>)"
  "stats (RecordCommit s i h) = (stats s)(i \<mapsto> (Stats s i)\<lparr>
      CommittedAsLeader := CommittedAsLeader (Stats s i) + 1,
      LastLedHeight := max h (LastLedHeight (Stats s i))\<rparr>)"
  by (auto simp: RecordLeaderRound_def RecordTimeout_def RecordCommit_def get_eq Let_def max_def)

lemma record_weights [simp]:
  "alpha (RecordLeaderRound s i) = alpha s" "beta (RecordLeaderRound s i) = beta s"
  "alpha (RecordTimeout s i) = alpha s" "beta (RecordTimeout s i) = beta s"
  "alpha (RecordCommit s i h) = alpha s" "beta (RecordCommit s i h) = beta s"
  by (simp_all add: RecordLeaderRound_def RecordTimeout_def RecordCommit_def get_eq Let_def)

subsection \<open>Scores\<close>

lemma zero_stats_rates [simp]: "CommitRate zero_stats = 1" "Novelty zero_stats h = 1"
  by (simp_all add: CommitRate_def Novelty_def zero_stats_def Let_def fdiv_self)

lemma Score_Stats:
  "Score s i h = fadd (fmul (alpha s) (CommitRate (Stats s i))) (fmul (beta s) (Novelty (Stats s i) h))"
  by (auto simp: Score_def Stats_def split: option.splits)

lemma Stats_Timeout:
  "Stats (RecordTimeout s i) j = (if j = i then (Stats s i)\<lparr>Timeouts := Timeouts (Stats s i) + 1\<rparr> else Stats s j)"
  by (simp add: Stats_def record_stats)

lemma Score_RecordTimeout: "Score (RecordTimeout s i) j h = Score s j h"
  by (simp add: Score_Stats Stats_Timeout CommitRate_def Novelty_def)

lemma Novelty_range: "0 \<le> Novelty st h" "Novelty st h \<le> 1"
proof -
  show "0 \<le> Novelty st h" by (simp add: Novelty_def Let_def fdiv_nonneg)
  have "fdiv (f64_of_u64 (if h < LastLedHeight st then 0 else h - LastLedHeight st)) (f64_of_u64 h) \<le> 1"
    if "h \<noteq> 0"
    by (rule fdiv_le_1) (use that in \<open>auto simp: word_sub_le not_less\<close>)
  then show "Novelty st h \<le> 1" by (simp add: Novelty_def Let_def)
qed

lemma CommitRate_nonneg: "0 \<le> CommitRate st"
  by (simp add: CommitRate_def fdiv_nonneg)

lemma CommitRate_le_1: "CommittedAsLeader st \<le> RoundsAsLeader st \<Longrightarrow> CommitRate st \<le> 1"
  by (simp add: CommitRate_def fdiv_le_1)

lemma Score_bounds:
  assumes "0 \<le> alpha s" "0 \<le> beta s" "CommittedAsLeader (Stats s i) \<le> RoundsAsLeader (Stats s i)"
  shows "0 \<le> Score s i h" "Score s i h \<le> fadd (fmul (alpha s) 1) (fmul (beta s) 1)"
  using assms unfolding Score_Stats
  by (auto intro!: fadd_nonneg fadd_mono fmul_nonneg fmul_mono CommitRate_nonneg CommitRate_le_1
        Novelty_range)

subsection \<open>The sorted slice\<close>

lemma set_insert_by [simp]: "set (insert_by lt x ys) = insert x (set ys)"
  by (induction ys) auto

lemma insert_by_not_Nil [simp]: "insert_by lt x ys \<noteq> []"
  by (cases ys) auto

lemma set_sort_slice [simp]: "set (sort_slice lt xs) = set xs"
proof -
  have "set (foldl (\<lambda>acc x. insert_by lt x acc) ys xs) = set ys \<union> set xs" for ys
    by (induction xs arbitrary: ys) auto
  then show ?thesis by (simp add: sort_slice_def)
qed

definition prio :: "'pk Replica \<times> f64 \<Rightarrow> priority" where
  "prio x = Priority (snd x) (ID (fst x))"

lemma candidate_less_prio: "candidate_less x y \<longleftrightarrow> prio x < prio y"
  by (simp add: candidate_less_def prio_def less_priority_def)

lemma sorted_insert_by:
  "sorted (map prio ys) \<Longrightarrow> sorted (map prio (insert_by candidate_less x ys))"
  by (induction ys) (auto simp: candidate_less_prio)

lemma sorted_sort_slice: "sorted (map prio (sort_slice candidate_less xs))"
proof -
  have "sorted (map prio ys) \<Longrightarrow>
      sorted (map prio (foldl (\<lambda>acc x. insert_by candidate_less x acc) ys xs))" for ys
    by (induction xs arbitrary: ys) (auto simp: sorted_insert_by)
  then show ?thesis by (simp add: sort_slice_def)
qed

lemma hd_sort_slice_least:
  assumes "x \<in> set xs"
  shows "prio (hd (sort_slice candidate_less xs)) \<le> prio x" "hd (sort_slice candidate_less xs) \<in> set xs"
proof -
  let ?s = "sort_slice candidate_less xs"
  have x: "x \<in> set ?s" using assms by simp
  then obtain y ys where s: "?s = y # ys" by (cases ?s) auto
  then show "hd ?s \<in> set xs" by (metis list.set_intros(1) list.sel(1) set_sort_slice)
  have "sorted (map prio (y # ys))" using sorted_sort_slice [of xs] s by simp
  with x show "prio (hd ?s) \<le> prio x" by (auto simp: s)
qed

lemma Select_Some:
  assumes "Select s c h = Some r"
  shows "r \<in> set (Replicas c)"
    and "\<And>r'. r' \<in> set (Replicas c) \<Longrightarrow>
      Score s (ID r') h < Score s (ID r) h \<or>
      Score s (ID r') h = Score s (ID r) h \<and> ID r \<le> ID r'"
proof -
  let ?xs = "map (\<lambda>r. (r, Score s (ID r) h)) (Replicas c)"
  let ?h = "hd (sort_slice candidate_less ?xs)"
  have r: "r = fst ?h" and "?xs \<noteq> []"
    using assms by (auto simp: Select_def Let_def split: if_splits)
  then obtain x where "x \<in> set ?xs" by (cases ?xs) auto
  from hd_sort_slice_least(2) [OF this] have h: "?h \<in> set ?xs" .
  then show "r \<in> set (Replicas c)" by (auto simp: r)
  have hs: "?h = (r, Score s (ID r) h)" using h r by auto
  fix r' assume "r' \<in> set (Replicas c)"
  then have "(r', Score s (ID r') h) \<in> set ?xs" by simp
  from hd_sort_slice_least(1) [OF this]
  show "Score s (ID r') h < Score s (ID r) h \<or>
      Score s (ID r') h = Score s (ID r) h \<and> ID r \<le> ID r'"
    by (auto simp: hs prio_def less_eq_priority_def less_priority_def split: if_splits)
qed

lemma Select_None: "Select s c h = None \<longleftrightarrow> Replicas c = []"
  by (simp add: Select_def Let_def)

end
