(* ===== verification/DHotStuff.thy ===== *)
theory DHotStuff
  imports Pipeline Deliver ViewChange QC Reputation
begin

section \<open>The replica\<close>

text \<open>
  \<^verbatim>\<open>internal/consensus/dhotstuff.go\<close>: the state of one replica and its handlers. The
  interfaces the replica is built from are the fields of \<open>Env\<close>: the hash, the key parser, the
  executor, the signing function, ECDSA verification, the block store, and the transport's
  error reports. The configuration store lives in the deliverer, which shares it with the
  replica; the selector is present exactly when the reputation store is, as the constructor
  builds them. Messages handed to the network are appended to \<open>outbox\<close>; log lines are not
  modelled. A handler answers a panic or the new state.
\<close>

record ('pk, 'app) Env =
  sha :: "bytes \<Rightarrow> bytes"
  parsePKIX :: "bytes \<Rightarrow> 'pk ParsedKey option"
  execute :: "'app \<Rightarrow> MembershipRequest \<Rightarrow> 'app \<times> bytes"
  signFn :: "u64 \<Rightarrow> u64 \<Rightarrow> bytes \<Rightarrow> bytes option"
  ecdsaVerify :: "'pk \<Rightarrow> bytes \<Rightarrow> nat \<Rightarrow> nat \<Rightarrow> bool"
  blockchain :: BlockchainReader
  sendErr :: "string \<Rightarrow> message \<Rightarrow> bool"

record ('pk, 'app) DHotStuff =
  myID :: string
  curView :: u64
  curConf :: u64
  safety :: SafetyState
  pipeline :: PipelineState
  deliverer :: "('pk, 'app) Deliverer"
  vc :: ViewChanger
  repStore :: "Store option"
  requestQ :: "MembershipRequest channel"
  votesBuf :: "u64 \<Rightarrow> VoteMsg list option"
  newViewBuf :: "u64 \<Rightarrow> NewViewMsg list option"
  outbox :: "'pk action list"

definition NewDHotStuff :: "string \<Rightarrow> 'pk ConfigStore \<Rightarrow> 'app \<Rightarrow> nat \<Rightarrow> Store option
    \<Rightarrow> ('pk, 'app) DHotStuff" where
  "NewDHotStuff i cs a requestQSize rep =
     \<lparr>myID = i, curView = 0, curConf = 0,
      safety = \<lparr>LockedQC = None, GenericQC = None\<rparr>,
      pipeline = empty_pipeline, deliverer = NewDeliverer cs a, vc = NewViewChanger 0,
      repStore = rep, requestQ = make_chan requestQSize,
      votesBuf = Map.empty, newViewBuf = Map.empty, outbox = []\<rparr>"

text \<open>A send on a full channel blocks the caller: no step.\<close>

definition SubmitRequest :: "MembershipRequest \<Rightarrow> ('pk, 'app) DHotStuff \<Rightarrow> ('pk, 'app) DHotStuff option" where
  "SubmitRequest req d =
     (case chan_try_send (requestQ d) req of None \<Rightarrow> None | Some q \<Rightarrow> Some (d\<lparr>requestQ := q\<rparr>))"

subsection \<open>Leaders\<close>

definition selectLeader :: "'pk Committee \<Rightarrow> ('pk, 'app) DHotStuff \<Rightarrow> panic + 'pk Replica option" where
  "selectLeader mc d =
     (case repStore d of
        Some s \<Rightarrow> Inr (Select s mc (curView d))
      | None \<Rightarrow> (case Leader mc (curView d) of Inl p \<Rightarrow> Inl p | Inr r \<Rightarrow> Inr (Some r)))"

subsection \<open>Proposing\<close>

text \<open>The loop that drains the request queue without blocking.\<close>

primrec drain :: "nat \<Rightarrow> MembershipRequest list \<Rightarrow> MembershipRequest channel
    \<Rightarrow> MembershipRequest list \<times> MembershipRequest channel" where
  "drain 0 batch q = (batch, q)"
| "drain (Suc n) batch q =
     (case chan_try_recv q of
        Some (req, q') \<Rightarrow> drain n (batch @ [req]) q'
      | None \<Rightarrow> drain n batch q)"

definition batchSize :: nat where [go_simps]: "batchSize = 100"

text \<open>The round is recorded for the selected leader when there is a reputation store.\<close>

definition record_round :: "'pk Committee \<Rightarrow> ('pk, 'app) DHotStuff \<Rightarrow> panic + ('pk, 'app) DHotStuff" where
  "record_round mc d =
     (let leader = selectLeader mc d in
      case repStore d of
        None \<Rightarrow> (case leader of Inl p \<Rightarrow> Inl p | Inr _ \<Rightarrow> Inr d)
      | Some s \<Rightarrow>
          (case leader_deref leader of
             Inl p \<Rightarrow> Inl p
           | Inr r \<Rightarrow> Inr (d\<lparr>repStore := Some (RecordLeaderRound s (ID r))\<rparr>)))"

definition new_block :: "BlockchainReader \<Rightarrow> u64 \<Rightarrow> MembershipRequest list \<Rightarrow> QuorumCert option \<Rightarrow> Block" where
  "new_block bc conf batch justify =
     (let parentHash = (case justify of None \<Rightarrow> [] | Some qc \<Rightarrow> qc_BlockHash qc);
          height = (case justify of
                      None \<Rightarrow> 0
                    | Some qc \<Rightarrow>
                        (case bc_Get bc parentHash of
                           Some parent \<Rightarrow> Height parent + 1
                         | None \<Rightarrow> 0))
      in \<lparr>ParentHash = parentHash, Batch = batch, Justify = justify,
          Height = height, ConfNumber = conf\<rparr>)"

definition propose :: "('pk, 'app) Env \<Rightarrow> QuorumCert option \<Rightarrow> ('pk, 'app) DHotStuff
    \<Rightarrow> panic + ('pk, 'app) DHotStuff" where
  "propose env justify d =
     (case Latest (store (deliverer d)) of
        Inl p \<Rightarrow> Inl p
      | Inr mc \<Rightarrow>
          (case record_round mc d of
             Inl p \<Rightarrow> Inl p
           | Inr d1 \<Rightarrow>
               (case drain batchSize [] (requestQ d1) of
                  (batch, q) \<Rightarrow>
                    let block = new_block (blockchain env) (Number mc) batch justify
                    in Inr (d1\<lparr>requestQ := q,
                              outbox := outbox d1 @ [Broadcast mc (BlockMsg block)]\<rparr>))))"

subsection \<open>HandlePropose\<close>

text \<open>The block a certificate points to, if the store has it.\<close>

definition certified :: "('pk, 'app) Env \<Rightarrow> QuorumCert option \<Rightarrow> Block option" where
  "certified env qc =
     (case qc of None \<Rightarrow> None | Some q \<Rightarrow> bc_Get (blockchain env) (qc_BlockHash q))"

definition deliver_block :: "('pk, 'app) Env \<Rightarrow> Block \<Rightarrow> ('pk, 'app) DHotStuff \<Rightarrow> ('pk, 'app) DHotStuff" where
  "deliver_block env b d =
     d\<lparr>deliverer := fst (Deliver (sha env) (parsePKIX env) (execute env) b (deliverer d))\<rparr>"

text \<open>
  The voting part: \<open>Inr None\<close> is the early return after a signing error, \<open>Inr (Some d)\<close> goes
  on with the rest of the handler.
\<close>

definition vote_part :: "('pk, 'app) Env \<Rightarrow> 'pk Committee \<Rightarrow> Block \<Rightarrow> ('pk, 'app) DHotStuff
    \<Rightarrow> panic + ('pk, 'app) DHotStuff option" where
  "vote_part env mc bStar d =
     (if SafeNode (safety d) bStar (Justify bStar) (blockchain env) then
        (let blockHash = hashBlock (sha env) bStar in
         case signFn env (ConfNumber bStar) (Number mc) blockHash of
           None \<Rightarrow> Inr None
         | Some sig \<Rightarrow>
             (let vote = \<lparr>vote_ViewNumber = curView d, vote_ConfNumber = Number mc,
                          vote_BlockHash = blockHash, vote_Signature = sig,
                          vote_SignerId = myID d\<rparr>
              in case leader_deref (selectLeader mc d) of
                   Inl p \<Rightarrow> Inl p
                 | Inr leader \<Rightarrow>
                     Inr (Some (d\<lparr>outbox := outbox d @ [SendTo (Addr leader) (Vote vote)]\<rparr>))))
      else Inr (Some d))"

definition chain_updates :: "('pk, 'app) Env \<Rightarrow> Block \<Rightarrow> Block option \<Rightarrow> Block option
    \<Rightarrow> ('pk, 'app) DHotStuff \<Rightarrow> ('pk, 'app) DHotStuff" where
  "chain_updates env bStar bDouble bPrime d =
     (let d1 = (case bDouble of
                  None \<Rightarrow> d
                | Some bd \<Rightarrow> d\<lparr>safety := UpdateOnOneChain (sha env) (safety d) bStar bd\<rparr>)
      in case (bDouble, bPrime) of
           (Some bd, Some bp) \<Rightarrow>
             d1\<lparr>safety := UpdateOnTwoChain (sha env) (safety d1) bStar bd bp\<rparr>
         | _ \<Rightarrow> d1)"

definition three_chain_part :: "('pk, 'app) Env \<Rightarrow> 'pk Committee \<Rightarrow> Block \<Rightarrow> Block option
    \<Rightarrow> Block option \<Rightarrow> Block option \<Rightarrow> ('pk, 'app) DHotStuff \<Rightarrow> panic + ('pk, 'app) DHotStuff" where
  "three_chain_part env mc bStar bDouble bPrime b d =
     (case (bDouble, bPrime, b) of
        (Some bd, Some bp, Some bb) \<Rightarrow>
          (if CheckThreeChain (sha env) bStar bd bp bb then
             (let d1 = deliver_block env bb d in
              case repStore d1 of
                None \<Rightarrow> Inr d1
              | Some s \<Rightarrow>
                  (case leader_deref (selectLeader mc d1) of
                     Inl p \<Rightarrow> Inl p
                   | Inr leader \<Rightarrow>
                       Inr (d1\<lparr>repStore := Some (RecordCommit s (ID leader) (Height bb))\<rparr>)))
           else Inr d)
      | _ \<Rightarrow> Inr d)"

definition pipeline_part :: "('pk, 'app) Env \<Rightarrow> Block \<Rightarrow> ('pk, 'app) DHotStuff \<Rightarrow> ('pk, 'app) DHotStuff" where
  "pipeline_part env bStar d =
     (case Advance (sha env) (pipeline d) bStar of
        (p, toDeliver) \<Rightarrow>
          (let d1 = d\<lparr>pipeline := p\<rparr> in
           case toDeliver of None \<Rightarrow> d1 | Some b \<Rightarrow> deliver_block env b d1))"

definition HandlePropose :: "('pk, 'app) Env \<Rightarrow> Block \<Rightarrow> ('pk, 'app) DHotStuff
    \<Rightarrow> panic + ('pk, 'app) DHotStuff" where
  "HandlePropose env block d =
     (case Latest (store (deliverer d)) of
        Inl p \<Rightarrow> Inl p
      | Inr mc \<Rightarrow>
          (if Number mc < ConfNumber block then Inr d
           else
             let bDouble = certified env (Justify block);
                 bPrime = (case bDouble of None \<Rightarrow> None | Some bd \<Rightarrow> certified env (Justify bd));
                 b = (case bPrime of None \<Rightarrow> None | Some bp \<Rightarrow> certified env (Justify bp))
             in case vote_part env mc block d of
                  Inl p \<Rightarrow> Inl p
                | Inr None \<Rightarrow> Inr d
                | Inr (Some d1) \<Rightarrow>
                    (case three_chain_part env mc block bDouble bPrime b
                            (chain_updates env block bDouble bPrime d1) of
                       Inl p \<Rightarrow> Inl p
                     | Inr d2 \<Rightarrow> Inr (pipeline_part env block d2))))"

subsection \<open>HandleVote\<close>

definition buffered :: "(u64 \<Rightarrow> 'a list option) \<Rightarrow> u64 \<Rightarrow> 'a list" where
  "buffered m v = (case m v of None \<Rightarrow> [] | Some xs \<Rightarrow> xs)"

definition raise_generic :: "QuorumCert \<Rightarrow> SafetyState \<Rightarrow> SafetyState" where
  "raise_generic qc s =
     (if GenericQC s = None \<or> GetViewNumber (GenericQC s) < qc_ViewNumber qc
      then s\<lparr>GenericQC := Some qc\<rparr> else s)"

definition HandleVote :: "('pk, 'app) Env \<Rightarrow> VoteMsg \<Rightarrow> ('pk, 'app) DHotStuff
    \<Rightarrow> panic + ('pk, 'app) DHotStuff" where
  "HandleVote env vote d =
     (case Latest (store (deliverer d)) of
        Inl p \<Rightarrow> Inl p
      | Inr mc \<Rightarrow>
          (case ReplicaByID mc (vote_SignerId vote) of
             None \<Rightarrow> Inr d
           | Some replica \<Rightarrow>
               (case PubKey replica of
                  None \<Rightarrow> Inr d
                | Some pk \<Rightarrow>
                    (if \<not> Verify (sha env) (ecdsaVerify env) pk (vote_ViewNumber vote)
                            (vote_ConfNumber vote) (vote_BlockHash vote) (vote_Signature vote)
                     then Inr d
                     else
                       let view = vote_ViewNumber vote;
                           votes = AggregateVotes (buffered (votesBuf d) view) vote;
                           d1 = d\<lparr>votesBuf := (votesBuf d)(view \<mapsto> votes)\<rparr>
                       in if \<not> HasQuorum votes mc then Inr d1
                          else (case CreateQC votes mc of
                                  Inl (Panicked p) \<Rightarrow> Inl p
                                | Inl _ \<Rightarrow> Inr d1
                                | Inr qc \<Rightarrow>
                                    propose env (Some qc)
                                      (d1\<lparr>curView := curView d1 + 1,
                                          votesBuf := (votesBuf d1)(view := None),
                                          safety := raise_generic qc (safety d1)\<rparr>))))))"

subsection \<open>HandleNewView\<close>

definition HandleNewView :: "('pk, 'app) Env \<Rightarrow> NewViewMsg \<Rightarrow> ('pk, 'app) DHotStuff
    \<Rightarrow> panic + ('pk, 'app) DHotStuff" where
  "HandleNewView env msg d =
     (let view = nv_ViewNumber msg;
          msgs = buffered (newViewBuf d) view @ [msg];
          d1 = d\<lparr>newViewBuf := (newViewBuf d)(view \<mapsto> msgs)\<rparr>
      in case Latest (store (deliverer d1)) of
           Inl p \<Rightarrow> Inl p
         | Inr mc \<Rightarrow>
             (case OnNewViewMessages msgs mc of
                (highQC, ok) \<Rightarrow>
                  if \<not> ok then Inr d1
                  else
                    let d2 = d1\<lparr>newViewBuf := (newViewBuf d1)(view := None)\<rparr>;
                        d3 = (case highQC of
                                None \<Rightarrow> d2
                              | Some qc \<Rightarrow> d2\<lparr>safety := raise_generic qc (safety d2)\<rparr>)
                    in propose env (GenericQC (safety d3)) d3))"

subsection \<open>HandleTimeout\<close>

text \<open>
  The handler holds the replica's mutex in two separate sections and calls the view changer
  between them, so other handlers can run in the gaps: three operations, and their
  composition for a timeout that nothing interrupts.
\<close>

definition timeout_begin :: "('pk, 'app) DHotStuff \<Rightarrow> panic + (u64 \<times> ('pk, 'app) DHotStuff)" where
  "timeout_begin d =
     (case repStore d of
        None \<Rightarrow> Inr (curView d, d)
      | Some s \<Rightarrow>
          (case Latest (store (deliverer d)) of
             Inl p \<Rightarrow> Inl p
           | Inr mc \<Rightarrow>
               (case leader_deref (selectLeader mc d) of
                  Inl p \<Rightarrow> Inl p
                | Inr leader \<Rightarrow>
                    Inr (curView d, d\<lparr>repStore := Some (RecordTimeout s (ID leader))\<rparr>))))"

definition timeout_change :: "('pk, 'app) Env \<Rightarrow> bool \<Rightarrow> ('pk, 'app) DHotStuff
    \<Rightarrow> panic + ('pk, 'app) DHotStuff" where
  "timeout_change env ctxCancelled d =
     (case OnTimeout (sendErr env) ctxCancelled (safety d) (store (deliverer d)) (vc d) of
        Inl p \<Rightarrow> Inl p
      | Inr (vc', acts, err) \<Rightarrow> Inr (d\<lparr>vc := vc', outbox := outbox d @ acts\<rparr>))"

definition timeout_end :: "u64 \<Rightarrow> ('pk, 'app) DHotStuff \<Rightarrow> ('pk, 'app) DHotStuff" where
  "timeout_end timedOutView d =
     d\<lparr>votesBuf := (votesBuf d)(timedOutView := None),
       pipeline := Reset (pipeline d),
       curView := CurView (vc d)\<rparr>"

definition HandleTimeout :: "('pk, 'app) Env \<Rightarrow> bool \<Rightarrow> ('pk, 'app) DHotStuff
    \<Rightarrow> panic + ('pk, 'app) DHotStuff" where
  "HandleTimeout env ctxCancelled d =
     (case timeout_begin d of
        Inl p \<Rightarrow> Inl p
      | Inr (timedOutView, d1) \<Rightarrow>
          (case timeout_change env ctxCancelled d1 of
             Inl p \<Rightarrow> Inl p
           | Inr d2 \<Rightarrow> Inr (timeout_end timedOutView d2)))"

subsection \<open>Facts about the parts\<close>

lemma drain_eq:
  "drain n batch q = (batch @ take n (ch_buf q), q\<lparr>ch_buf := drop n (ch_buf q)\<rparr>)"
proof (induction n arbitrary: batch q)
  case (Suc n)
  then show ?case by (cases "ch_buf q") (auto simp: chan_try_recv_def)
qed simp

lemma new_block_simps [simp]:
  "ParentHash (new_block bc c b j) = GetBlockHash j" "Batch (new_block bc c b j) = b"
  "Justify (new_block bc c b j) = j" "ConfNumber (new_block bc c b j) = c"
  by (auto simp: new_block_def Let_def GetBlockHash_def split: option.splits)

lemma record_round_frame:
  "record_round mc d = Inr d' \<Longrightarrow>
     deliverer d' = deliverer d \<and> votesBuf d' = votesBuf d \<and> newViewBuf d' = newViewBuf d \<and>
     safety d' = safety d \<and> curView d' = curView d \<and> vc d' = vc d \<and> pipeline d' = pipeline d \<and>
     requestQ d' = requestQ d \<and> outbox d' = outbox d \<and> myID d' = myID d"
  by (auto simp: record_round_def Let_def split: option.splits sum.splits)

lemma deliver_block_frame [simp]:
  "deliverer (deliver_block env b d) =
     fst (Deliver (sha env) (parsePKIX env) (execute env) b (deliverer d))"
  "votesBuf (deliver_block env b d) = votesBuf d" "safety (deliver_block env b d) = safety d"
  "curView (deliver_block env b d) = curView d" "outbox (deliver_block env b d) = outbox d"
  "vc (deliver_block env b d) = vc d" "requestQ (deliver_block env b d) = requestQ d"
  "newViewBuf (deliver_block env b d) = newViewBuf d" "myID (deliver_block env b d) = myID d"
  "pipeline (deliver_block env b d) = pipeline d" "repStore (deliver_block env b d) = repStore d"
  "curConf (deliver_block env b d) = curConf d"
  by (simp_all add: deliver_block_def)

lemma chain_updates_frame [simp]:
  "deliverer (chain_updates env s bd bp d) = deliverer d"
  "votesBuf (chain_updates env s bd bp d) = votesBuf d"
  "curView (chain_updates env s bd bp d) = curView d"
  "outbox (chain_updates env s bd bp d) = outbox d"
  "vc (chain_updates env s bd bp d) = vc d"
  "requestQ (chain_updates env s bd bp d) = requestQ d"
  "newViewBuf (chain_updates env s bd bp d) = newViewBuf d"
  "pipeline (chain_updates env s bd bp d) = pipeline d"
  "repStore (chain_updates env s bd bp d) = repStore d"
  by (cases bd; cases bp; simp add: chain_updates_def)+

lemma pipeline_part_frame [simp]:
  "votesBuf (pipeline_part env b d) = votesBuf d" "safety (pipeline_part env b d) = safety d"
  "curView (pipeline_part env b d) = curView d" "outbox (pipeline_part env b d) = outbox d"
  "vc (pipeline_part env b d) = vc d" "requestQ (pipeline_part env b d) = requestQ d"
  "newViewBuf (pipeline_part env b d) = newViewBuf d"
  by (auto simp: pipeline_part_def Let_def split: prod.splits option.splits)

end
