(* ===== verification/Replica.thy ===== *)
theory Replica
  imports DHotStuff
begin

section \<open>Runs of a replica\<close>

text \<open>
  The handlers of \<^verbatim>\<open>internal/consensus/dhotstuff.go\<close> as the steps of a transition system. A
  timeout takes three steps, and other handlers may run between them. The invariant and the
  growth relation below hold of every handler, hence of every run.
\<close>

subsection \<open>Growth of the delivered state\<close>

definition grows :: "('pk, 'app) Deliverer \<Rightarrow> ('pk, 'app) Deliverer \<Rightarrow> bool" where
  "grows d d' \<longleftrightarrow> prefix (configs (store d)) (configs (store d')) \<and>
     prefix (executed d) (executed d') \<and> delivered d \<subseteq> delivered d' \<and>
     (configs_ok (store d) \<longrightarrow> configs_ok (store d')) \<and>
     (committees_ok (store d) \<longrightarrow> committees_ok (store d'))"

lemma grows_refl [simp, intro]: "grows d d"
  by (simp add: grows_def)

lemma grows_trans [trans]: "grows d1 d2 \<Longrightarrow> grows d2 d3 \<Longrightarrow> grows d1 d3"
  unfolding grows_def by (meson prefix_order.trans subset_trans)

lemma grows_Deliver: "grows d (fst (Deliver h p x b d))"
proof -
  obtain d' err where del: "Deliver h p x b d = (d', err)" by (cases "Deliver h p x b d")
  then show ?thesis
    using Deliver_configs_prefix Deliver_executed_prefix Deliver_delivered_mono
      Deliver_configs_ok Deliver_committees_ok
    by (fastforce simp: grows_def)
qed

subsection \<open>What each handler changes\<close>

lemma vote_part_frame:
  "vote_part env mc b d = Inr (Some d') \<Longrightarrow>
     deliverer d' = deliverer d \<and> votesBuf d' = votesBuf d \<and> requestQ d' = requestQ d \<and>
     safety d' = safety d \<and> curView d' = curView d \<and> vc d' = vc d \<and> pipeline d' = pipeline d"
  by (auto simp: vote_part_def Let_def split: if_splits option.splits sum.splits)

lemma three_chain_frame:
  "three_chain_part env mc bs bd bp b d = Inr d' \<Longrightarrow>
     grows (deliverer d) (deliverer d') \<and> votesBuf d' = votesBuf d \<and> requestQ d' = requestQ d \<and>
     safety d' = safety d \<and> curView d' = curView d \<and> outbox d' = outbox d \<and> vc d' = vc d"
  by (auto simp: three_chain_part_def Let_def grows_Deliver
        split: option.splits if_splits sum.splits)

lemma pipeline_part_grows: "grows (deliverer d) (deliverer (pipeline_part env b d))"
  by (auto simp: pipeline_part_def Let_def grows_Deliver split: prod.splits option.splits)

lemma HandlePropose_cases:
  assumes "HandlePropose env b d = Inr d'"
  obtains "d' = d"
  | mc d1 d2 bDouble bPrime bb where
    "Latest (store (deliverer d)) = Inr mc" "ConfNumber b \<le> Number mc"
    "bDouble = certified env (Justify b)"
    "vote_part env mc b d = Inr (Some d1)"
    "bPrime = (case bDouble of None \<Rightarrow> None | Some bd \<Rightarrow> certified env (Justify bd))"
    "bb = (case bPrime of None \<Rightarrow> None | Some bp \<Rightarrow> certified env (Justify bp))"
    "three_chain_part env mc b bDouble bPrime bb (chain_updates env b bDouble bPrime d1) = Inr d2"
    "d' = pipeline_part env b d2"
  using assms
  by (auto simp: HandlePropose_def Let_def not_less
        split: sum.splits if_splits option.splits)

lemma HandlePropose_frame:
  assumes "HandlePropose env b d = Inr d'"
  shows "grows (deliverer d) (deliverer d')" "votesBuf d' = votesBuf d" "requestQ d' = requestQ d"
    "curView d' = curView d" "vc d' = vc d"
proof -
  have "grows (deliverer d) (deliverer d') \<and> votesBuf d' = votesBuf d \<and> requestQ d' = requestQ d
      \<and> curView d' = curView d \<and> vc d' = vc d"
    using assms
  proof (cases rule: HandlePropose_cases)
    case 1
    then show ?thesis by simp
  next
    case (2 mc d1 d2 bDouble bPrime bb)
    note v = vote_part_frame [OF 2(4)] and t = three_chain_frame [OF 2(7)]
    have "grows (deliverer d) (deliverer d2)" using v t by simp
    then have "grows (deliverer d) (deliverer d')"
      unfolding 2(8) using pipeline_part_grows by (rule grows_trans)
    then show ?thesis using v t by (simp add: 2(8))
  qed
  then show "grows (deliverer d) (deliverer d')" "votesBuf d' = votesBuf d"
    "requestQ d' = requestQ d" "curView d' = curView d" "vc d' = vc d" by simp_all
qed

lemma propose_eq:
  assumes "propose env j d = Inr d'"
  obtains mc blk where "Latest (store (deliverer d)) = Inr mc"
    "deliverer d' = deliverer d" "votesBuf d' = votesBuf d" "newViewBuf d' = newViewBuf d"
    "safety d' = safety d" "curView d' = curView d" "vc d' = vc d" "pipeline d' = pipeline d"
    "requestQ d' = (requestQ d)\<lparr>ch_buf := drop 100 (ch_buf (requestQ d))\<rparr>"
    "outbox d' = outbox d @ [Broadcast mc (BlockMsg blk)]"
    "blk = new_block (blockchain env) (Number mc) (take 100 (ch_buf (requestQ d))) j"
proof -
  from assms obtain mc where mc: "Latest (store (deliverer d)) = Inr mc"
    by (auto simp: propose_def split: sum.splits)
  with assms obtain d1 where d1: "record_round mc d = Inr d1"
    by (auto simp: propose_def split: sum.splits)
  note f = record_round_frame [OF d1]
  let ?b = "new_block (blockchain env) (Number mc) (take 100 (ch_buf (requestQ d))) j"
  have "d' = d1\<lparr>requestQ := (requestQ d)\<lparr>ch_buf := drop 100 (ch_buf (requestQ d))\<rparr>,
      outbox := outbox d @ [Broadcast mc (BlockMsg ?b)]\<rparr>"
    using assms f by (simp add: propose_def mc d1 drain_eq batchSize_def Let_def)
  with f mc show thesis by (intro that [of mc ?b]) simp_all
qed

lemma HandleVote_cases:
  assumes "HandleVote env v d = Inr d'"
  obtains "d' = d"
  | mc r pk where
    "Latest (store (deliverer d)) = Inr mc" "ReplicaByID mc (vote_SignerId v) = Some r"
    "PubKey r = Some pk"
    "Verify (sha env) (ecdsaVerify env) pk (vote_ViewNumber v) (vote_ConfNumber v)
       (vote_BlockHash v) (vote_Signature v)"
    "d' = d\<lparr>votesBuf := (votesBuf d)(vote_ViewNumber v \<mapsto>
              AggregateVotes (buffered (votesBuf d) (vote_ViewNumber v)) v)\<rparr>"
  | mc r pk qc where
    "Latest (store (deliverer d)) = Inr mc" "ReplicaByID mc (vote_SignerId v) = Some r"
    "PubKey r = Some pk"
    "Verify (sha env) (ecdsaVerify env) pk (vote_ViewNumber v) (vote_ConfNumber v)
       (vote_BlockHash v) (vote_Signature v)"
    "HasQuorum (AggregateVotes (buffered (votesBuf d) (vote_ViewNumber v)) v) mc"
    "CreateQC (AggregateVotes (buffered (votesBuf d) (vote_ViewNumber v)) v) mc = Inr qc"
    "propose env (Some qc)
       (d\<lparr>curView := curView d + 1, votesBuf := (votesBuf d)(vote_ViewNumber v := None),
          safety := raise_generic qc (safety d)\<rparr>) = Inr d'"
  using assms
  by (auto simp: HandleVote_def Let_def split: sum.splits option.splits if_splits crypto_error.splits)

lemma HandleNewView_cases:
  assumes "HandleNewView env m d = Inr d'"
  obtains "d' = d\<lparr>newViewBuf := (newViewBuf d)(nv_ViewNumber m \<mapsto>
                     buffered (newViewBuf d) (nv_ViewNumber m) @ [m])\<rparr>"
  | mc sf where
    "Latest (store (deliverer d)) = Inr mc"
    "QuorumSize mc \<le> int (length (buffered (newViewBuf d) (nv_ViewNumber m) @ [m]))"
    "sf = (case highestViewQC (buffered (newViewBuf d) (nv_ViewNumber m) @ [m]) of
             None \<Rightarrow> safety d | Some qc \<Rightarrow> raise_generic qc (safety d))"
    "propose env (GenericQC sf)
       (d\<lparr>newViewBuf := (newViewBuf d)(nv_ViewNumber m := None), safety := sf\<rparr>) = Inr d'"
  using assms
  by (auto simp: HandleNewView_def OnNewViewMessages_def Let_def
        split: sum.splits option.splits if_splits)

lemma timeout_begin_frame:
  "timeout_begin d = Inr (v, d') \<Longrightarrow> v = curView d \<and> curView d' = curView d \<and> vc d' = vc d \<and>
     votesBuf d' = votesBuf d \<and> safety d' = safety d \<and> outbox d' = outbox d"
  by (auto simp: timeout_begin_def split: option.splits sum.splits)

lemma timeout_change_frame:
  "timeout_change env cx d = Inr d' \<Longrightarrow> vc_curView (vc d') = vc_curView (vc d) + 1 \<and>
     curView d' = curView d \<and> votesBuf d' = votesBuf d \<and> safety d' = safety d"
  by (auto simp: timeout_change_def dest: OnTimeout_view split: sum.splits)

subsection \<open>The replica invariant\<close>

text \<open>
  Configurations are numbered by position and carry the derived fault bound; a buffer holds
  votes for its own view, at most one per signer, each verified against the key of a member
  of an installed configuration; the request queue respects its capacity.
\<close>

definition vote_verified :: "('pk, 'app) Env \<Rightarrow> 'pk Committee list \<Rightarrow> VoteMsg \<Rightarrow> bool" where
  "vote_verified env cs v \<longleftrightarrow>
     (\<exists>mc \<in> set cs. \<exists>r pk. ReplicaByID mc (vote_SignerId v) = Some r \<and> PubKey r = Some pk \<and>
        Verify (sha env) (ecdsaVerify env) pk (vote_ViewNumber v) (vote_ConfNumber v)
          (vote_BlockHash v) (vote_Signature v))"

definition votes_ok :: "('pk, 'app) Env \<Rightarrow> 'pk Committee list \<Rightarrow> u64 \<Rightarrow> VoteMsg list \<Rightarrow> bool" where
  "votes_ok env cs view vs \<longleftrightarrow> distinct (map vote_SignerId vs) \<and>
     (\<forall>v \<in> set vs. vote_ViewNumber v = view \<and> vote_verified env cs v)"

definition replica_ok :: "('pk, 'app) Env \<Rightarrow> ('pk, 'app) DHotStuff \<Rightarrow> bool" where
  "replica_ok env d \<longleftrightarrow> configs_ok (store (deliverer d)) \<and> committees_ok (store (deliverer d)) \<and>
     (\<forall>view vs. votesBuf d view = Some vs \<longrightarrow> votes_ok env (configs (store (deliverer d))) view vs) \<and>
     chan_ok (requestQ d)"

lemma votes_ok_prefix: "votes_ok env cs v vs \<Longrightarrow> prefix cs cs' \<Longrightarrow> votes_ok env cs' v vs"
  unfolding votes_ok_def vote_verified_def by (meson set_mono_prefix subsetD)

lemma votes_ok_Nil [simp]: "votes_ok env cs v []"
  by (simp add: votes_ok_def)

lemma votes_ok_Aggregate [wf_intros]:
  "votes_ok env cs (vote_ViewNumber v) vs \<Longrightarrow> vote_verified env cs v \<Longrightarrow>
     votes_ok env cs (vote_ViewNumber v) (AggregateVotes vs v)"
  using set_Aggregate [of vs v] distinct_Aggregate [of vs v] by (fastforce simp: votes_ok_def)

lemma votes_ok_buffered:
  "replica_ok env d \<Longrightarrow> votes_ok env (configs (store (deliverer d))) v (buffered (votesBuf d) v)"
  by (auto simp: replica_ok_def buffered_def split: option.splits)

lemma Latest_in: "Latest s = Inr mc \<Longrightarrow> mc \<in> set (configs s)"
  by (auto simp: Latest_def split: if_splits)

lemma replica_ok_grows:
  assumes "replica_ok env d" "grows (deliverer d) (deliverer d')" "votesBuf d' = votesBuf d"
    "requestQ d' = requestQ d"
  shows "replica_ok env d'"
  using assms unfolding replica_ok_def grows_def by (auto dest: votes_ok_prefix)

lemma replica_ok_votesBuf:
  assumes "replica_ok env d" "deliverer d' = deliverer d" "chan_ok (requestQ d')"
    and "\<And>v vs. votesBuf d' v = Some vs \<Longrightarrow> votesBuf d v = Some vs \<or>
          votes_ok env (configs (store (deliverer d))) v vs"
  shows "replica_ok env d'"
  using assms unfolding replica_ok_def by auto

lemma replica_ok_propose [wf_intros]:
  assumes "replica_ok env d" "propose env j d = Inr d'"
  shows "replica_ok env d'"
proof -
  have "chan_ok (requestQ d)" using assms(1) by (simp add: replica_ok_def)
  then have "chan_ok ((requestQ d)\<lparr>ch_buf := drop 100 (ch_buf (requestQ d))\<rparr>)"
    by (auto simp: chan_ok_def)
  with assms(2) show ?thesis
    by (elim propose_eq) (auto intro: replica_ok_votesBuf [OF assms(1)])
qed

lemma replica_ok_HandlePropose [wf_intros]:
  "replica_ok env d \<Longrightarrow> HandlePropose env b d = Inr d' \<Longrightarrow> replica_ok env d'"
  by (blast intro: replica_ok_grows HandlePropose_frame)

lemma replica_ok_HandleVote [wf_intros]:
  assumes ok: "replica_ok env d" and h: "HandleVote env v d = Inr d'"
  shows "replica_ok env d'"
  using h
proof (cases rule: HandleVote_cases)
  case 1
  with ok show ?thesis by simp
next
  case (2 mc r pk)
  then have "vote_verified env (configs (store (deliverer d))) v"
    unfolding vote_verified_def using Latest_in by blast
  then have "votes_ok env (configs (store (deliverer d))) (vote_ViewNumber v)
      (AggregateVotes (buffered (votesBuf d) (vote_ViewNumber v)) v)"
    by (intro votes_ok_Aggregate votes_ok_buffered ok)
  moreover have "chan_ok (requestQ d)" using ok by (simp add: replica_ok_def)
  ultimately show ?thesis
    by (intro replica_ok_votesBuf [OF ok]) (auto simp: 2(5) split: if_splits)
next
  case (3 mc r pk qc)
  have "chan_ok (requestQ d)" using ok by (simp add: replica_ok_def)
  then have "replica_ok env (d\<lparr>curView := curView d + 1,
      votesBuf := (votesBuf d)(vote_ViewNumber v := None), safety := raise_generic qc (safety d)\<rparr>)"
    by (intro replica_ok_votesBuf [OF ok]) (auto split: if_splits)
  then show ?thesis using 3(7) by (rule replica_ok_propose)
qed

lemma replica_ok_HandleNewView [wf_intros]:
  assumes ok: "replica_ok env d" and h: "HandleNewView env m d = Inr d'"
  shows "replica_ok env d'"
  using h
proof (cases rule: HandleNewView_cases)
  case 1
  with ok show ?thesis by (simp add: replica_ok_def)
next
  case (2 mc sf)
  have "replica_ok env (d\<lparr>newViewBuf := (newViewBuf d)(nv_ViewNumber m := None), safety := sf\<rparr>)"
    using ok by (simp add: replica_ok_def)
  then show ?thesis using 2(4) by (rule replica_ok_propose)
qed

lemma replica_ok_timeout [wf_intros]:
  "replica_ok env d \<Longrightarrow> timeout_begin d = Inr (v, d') \<Longrightarrow> replica_ok env d'"
  "replica_ok env d \<Longrightarrow> timeout_change env cx d = Inr d' \<Longrightarrow> replica_ok env d'"
  "replica_ok env d \<Longrightarrow> replica_ok env (timeout_end v d)"
  by (auto simp: replica_ok_def timeout_begin_def timeout_change_def timeout_end_def
        split: option.splits sum.splits if_splits)

lemma replica_ok_Submit [wf_intros]:
  "replica_ok env d \<Longrightarrow> SubmitRequest r d = Some d' \<Longrightarrow> replica_ok env d'"
  by (auto simp: replica_ok_def SubmitRequest_def split: option.splits intro: chan_ok_send)

lemma replica_ok_New:
  "Number g = 0 \<Longrightarrow> wf_committee g \<Longrightarrow> replica_ok env (NewDHotStuff i (NewConfigStore g heap) a n rep)"
  by (simp add: replica_ok_def NewDHotStuff_def NewDeliverer_def configs_ok_New
      committees_ok_def NewConfigStore_def configs_ok_def)

subsection \<open>The transition system\<close>

record ('pk, 'app) process =
  node :: "('pk, 'app) DHotStuff"
  begun :: "u64 list"
  changed :: "u64 list"

inductive step :: "('pk, 'app) Env \<Rightarrow> ('pk, 'app) process \<Rightarrow> ('pk, 'app) process \<Rightarrow> bool"
  for env where
  on_propose: "HandlePropose env b (node s) = Inr d \<Longrightarrow> step env s (s\<lparr>node := d\<rparr>)"
| on_vote: "HandleVote env v (node s) = Inr d \<Longrightarrow> step env s (s\<lparr>node := d\<rparr>)"
| on_new_view: "HandleNewView env m (node s) = Inr d \<Longrightarrow> step env s (s\<lparr>node := d\<rparr>)"
| on_submit: "SubmitRequest r (node s) = Some d \<Longrightarrow> step env s (s\<lparr>node := d\<rparr>)"
| on_timeout_begin: "timeout_begin (node s) = Inr (v, d) \<Longrightarrow>
    step env s (s\<lparr>node := d, begun := begun s @ [v]\<rparr>)"
| on_timeout_change: "begun s = xs @ v # ys \<Longrightarrow> timeout_change env cx (node s) = Inr d \<Longrightarrow>
    step env s (s\<lparr>node := d, begun := xs @ ys, changed := changed s @ [v]\<rparr>)"
| on_timeout_end: "changed s = xs @ v # ys \<Longrightarrow>
    step env s (s\<lparr>node := timeout_end v (node s), changed := xs @ ys\<rparr>)"

inductive_cases stepE: "step env s t"

abbreviation runs :: "('pk, 'app) Env \<Rightarrow> ('pk, 'app) process \<Rightarrow> ('pk, 'app) process \<Rightarrow> bool" where
  "runs env \<equiv> (step env)\<^sup>*\<^sup>*"

definition start :: "('pk, 'app) DHotStuff \<Rightarrow> ('pk, 'app) process" where
  "start d = \<lparr>node = d, begun = [], changed = []\<rparr>"

lemma step_ok: "step env s t \<Longrightarrow> replica_ok env (node s) \<Longrightarrow> replica_ok env (node t)"
  by (erule step.cases) (auto intro: wf_intros)

lemma runs_ok: "runs env s t \<Longrightarrow> replica_ok env (node s) \<Longrightarrow> replica_ok env (node t)"
  by (induction rule: rtranclp_induct) (auto intro: step_ok)

lemma propose_deliverer: "propose env j d = Inr d' \<Longrightarrow> deliverer d' = deliverer d"
  by (erule propose_eq)

lemma handler_deliverer:
  "HandleVote env v d = Inr d' \<Longrightarrow> deliverer d' = deliverer d"
  "HandleNewView env m d = Inr d' \<Longrightarrow> deliverer d' = deliverer d"
  "SubmitRequest r d = Some d' \<Longrightarrow> deliverer d' = deliverer d"
  "timeout_begin d = Inr (w, d') \<Longrightarrow> deliverer d' = deliverer d"
  "timeout_change env cx d = Inr d' \<Longrightarrow> deliverer d' = deliverer d"
  "deliverer (timeout_end w d) = deliverer d"
proof -
  show "HandleVote env v d = Inr d' \<Longrightarrow> deliverer d' = deliverer d"
    by (erule HandleVote_cases) (auto dest: propose_deliverer)
  show "HandleNewView env m d = Inr d' \<Longrightarrow> deliverer d' = deliverer d"
    by (erule HandleNewView_cases) (auto dest: propose_deliverer)
  show "SubmitRequest r d = Some d' \<Longrightarrow> deliverer d' = deliverer d"
    by (auto simp: SubmitRequest_def split: option.splits)
  show "timeout_begin d = Inr (w, d') \<Longrightarrow> deliverer d' = deliverer d"
    by (auto simp: timeout_begin_def split: option.splits sum.splits)
  show "timeout_change env cx d = Inr d' \<Longrightarrow> deliverer d' = deliverer d"
    by (auto simp: timeout_change_def split: sum.splits)
  show "deliverer (timeout_end w d) = deliverer d" by (simp add: timeout_end_def)
qed

lemma step_grows: "step env s t \<Longrightarrow> grows (deliverer (node s)) (deliverer (node t))"
  by (erule step.cases) (auto simp: handler_deliverer dest: HandlePropose_frame)

lemma runs_grows: "runs env s t \<Longrightarrow> grows (deliverer (node s)) (deliverer (node t))"
  by (induction rule: rtranclp_induct) (auto intro: grows_trans step_grows)

end
