(* ===== verification/History.thy ===== *)
theory History
  imports Safety
begin

section \<open>Execution histories\<close>

text \<open>
  \<^verbatim>\<open>internal/statetransfer/history.go\<close>: the append-only log of committed blocks, its hash,
  and its wire form.
\<close>

record ExecutionHistory =
  Blocks :: "Block list"

record HistoryResponse =
  hr_History :: "Block list"

datatype history_error = HeightOutOfOrder u64 u64 | NonContiguous nat u64

definition NewExecutionHistory :: ExecutionHistory where
  "NewExecutionHistory = \<lparr>Blocks = []\<rparr>"

definition Append :: "ExecutionHistory \<Rightarrow> Block \<Rightarrow> history_error + ExecutionHistory" where
  "Append h block =
     (let expected = of_nat (length (Blocks h)) in
      if Height block \<noteq> expected then Inl (HeightOutOfOrder expected (Height block))
      else Inr (h\<lparr>Blocks := Blocks h @ [block]\<rparr>))"

definition Since :: "ExecutionHistory \<Rightarrow> u64 \<Rightarrow> Block list" where
  "Since h height =
     (if of_nat (length (Blocks h)) \<le> height then [] else drop (unat height) (Blocks h))"

definition HistoryLen :: "ExecutionHistory \<Rightarrow> int" where
  "HistoryLen h = int (length (Blocks h))"

definition LatestHeight :: "ExecutionHistory \<Rightarrow> int" where
  "LatestHeight h = (if length (Blocks h) = 0 then - 1 else int (length (Blocks h)) - 1)"

definition blockDigest :: "(bytes \<Rightarrow> bytes) \<Rightarrow> Block \<Rightarrow> bytes" where
  "blockDigest sha b = sha (ParentHash b @ be8 (Height b))"

text \<open>The hasher is fed one digest after another.\<close>

definition Hash :: "(bytes \<Rightarrow> bytes) \<Rightarrow> ExecutionHistory \<Rightarrow> bytes" where
  "Hash sha h = sha (concat (map (blockDigest sha) (Blocks h)))"

definition ToProto :: "ExecutionHistory \<Rightarrow> HistoryResponse" where
  "ToProto h = \<lparr>hr_History = Blocks h\<rparr>"

primrec from_proto_loop :: "nat \<Rightarrow> Block list \<Rightarrow> Block list \<Rightarrow> history_error + Block list" where
  "from_proto_loop i acc [] = Inr acc"
| "from_proto_loop i acc (b # bs) =
     (if Height b \<noteq> of_nat i then Inl (NonContiguous i (Height b))
      else from_proto_loop (Suc i) (acc @ [b]) bs)"

definition HistoryFromProto :: "HistoryResponse \<Rightarrow> history_error + ExecutionHistory" where
  "HistoryFromProto resp =
     (case from_proto_loop 0 [] (hr_History resp) of
        Inl e \<Rightarrow> Inl e
      | Inr bs \<Rightarrow> Inr \<lparr>Blocks = bs\<rparr>)"

subsection \<open>The history invariant\<close>

definition contiguous :: "Block list \<Rightarrow> bool" where
  "contiguous bs \<longleftrightarrow> (\<forall>i < length bs. Height (bs ! i) = of_nat i)"

lemma contiguous_snoc: "contiguous (bs @ [b]) \<longleftrightarrow> contiguous bs \<and> Height b = of_nat (length bs)"
  by (auto simp: contiguous_def nth_append less_Suc_eq)

lemma contiguous_New [wf_intros]: "contiguous (Blocks NewExecutionHistory)"
  by (simp add: contiguous_def NewExecutionHistory_def)

lemma contiguous_Append [wf_intros]:
  "contiguous (Blocks h) \<Longrightarrow> Append h b = Inr h' \<Longrightarrow> contiguous (Blocks h')"
  by (auto simp: Append_def Let_def contiguous_snoc split: if_splits)

lemma from_proto_loop_eq:
  "from_proto_loop i acc bs = Inr r \<longleftrightarrow>
     r = acc @ bs \<and> (\<forall>k < length bs. Height (bs ! k) = of_nat (i + k))"
proof (induction bs arbitrary: i acc)
  case (Cons b bs)
  have "(\<forall>k < length (b # bs). Height ((b # bs) ! k) = of_nat (i + k)) \<longleftrightarrow>
      Height b = of_nat i \<and> (\<forall>k < length bs. Height (bs ! k) = of_nat (Suc i + k))"
    by (auto simp: less_Suc_eq_0_disj)
  then show ?case by (auto simp: Cons.IH)
qed auto

lemma HistoryFromProto_Inr:
  "HistoryFromProto resp = Inr h \<longleftrightarrow> Blocks h = hr_History resp \<and> contiguous (hr_History resp)"
proof -
  have "HistoryFromProto resp = Inr h \<longleftrightarrow> from_proto_loop 0 [] (hr_History resp) = Inr (Blocks h)"
    by (auto simp: HistoryFromProto_def split: sum.splits)
  then show ?thesis by (auto simp: from_proto_loop_eq contiguous_def)
qed

lemma proto_roundtrip: "contiguous (Blocks h) \<Longrightarrow> HistoryFromProto (ToProto h) = Inr h"
  by (simp add: HistoryFromProto_Inr ToProto_def)

text \<open>Appending the blocks of a list one after another.\<close>

primrec append_all :: "ExecutionHistory \<Rightarrow> Block list \<Rightarrow> history_error + ExecutionHistory" where
  "append_all h [] = Inr h"
| "append_all h (b # bs) = (case Append h b of Inl e \<Rightarrow> Inl e | Inr h' \<Rightarrow> append_all h' bs)"

lemma append_all_Inr:
  assumes "contiguous (Blocks h)"
  shows "append_all h bs = Inr h' \<longleftrightarrow> Blocks h' = Blocks h @ bs \<and> contiguous (Blocks h @ bs)"
  using assms
proof (induction bs arbitrary: h)
  case (Cons b bs)
  show ?case
  proof (cases "Height b = of_nat (length (Blocks h))")
    case True
    let ?h = "h\<lparr>Blocks := Blocks h @ [b]\<rparr>"
    have "contiguous (Blocks ?h)" using True Cons.prems by (simp add: contiguous_snoc)
    with Cons.IH [of ?h] True show ?thesis by (simp add: Append_def)
  next
    case False
    have "\<not> contiguous (Blocks h @ b # bs)"
    proof
      assume c: "contiguous (Blocks h @ b # bs)"
      have "Height ((Blocks h @ b # bs) ! length (Blocks h)) = of_nat (length (Blocks h))"
        using c unfolding contiguous_def by (metis length_append length_Cons less_add_same_cancel1 zero_less_Suc)
      with False show False by simp
    qed
    with False show ?thesis by (simp add: Append_def Let_def)
  qed
qed auto

lemma Since_eq:
  "length (Blocks h) < 2 ^ 64 \<Longrightarrow> Since h k = drop (unat k) (Blocks h)"
  by (simp add: Since_def word_le_nat_alt unat_of_nat)

subsection \<open>What the history hash fixes\<close>

lemma blockDigest_hashBlock: "blockDigest sha b = hashBlock sha b"
  by (simp add: blockDigest_def hashBlock_def)

lemma concat_fixed_length:
  assumes "concat xss = concat yss" "0 < n"
    and "\<forall>x \<in> set xss. length x = n" "\<forall>y \<in> set yss. length y = n"
  shows "xss = yss"
  using assms(1,3,4)
proof (induction xss arbitrary: yss)
  case Nil
  then show ?case using assms(2) by (cases yss) auto
next
  case (Cons x xss)
  then obtain y ys where "yss = y # ys" using assms(2) by (cases yss) auto
  with Cons show ?case by (simp add: append_eq_append_conv)
qed

lemma Hash_determines:
  assumes "Hash sha h = Hash sha h'"
    and "\<And>x. length (sha x) = 32"
    and "inj_on sha {concat (map (blockDigest sha) (Blocks h)), concat (map (blockDigest sha) (Blocks h'))}"
    and "collision_free sha (set (Blocks h) \<union> set (Blocks h'))"
  shows "map ParentHash (Blocks h) = map ParentHash (Blocks h') \<and>
         map Height (Blocks h) = map Height (Blocks h')"
proof -
  have "concat (map (blockDigest sha) (Blocks h)) = concat (map (blockDigest sha) (Blocks h'))"
    using assms(1,3) unfolding Hash_def by (meson inj_onD insertI1 insertI2)
  then have eq: "map (blockDigest sha) (Blocks h) = map (blockDigest sha) (Blocks h')"
    by (rule concat_fixed_length [where n = 32]) (auto simp: blockDigest_def assms(2))
  then have len: "length (Blocks h) = length (Blocks h')" by (rule map_eq_imp_length_eq)
  have "ParentHash (Blocks h ! i) = ParentHash (Blocks h' ! i) \<and>
        Height (Blocks h ! i) = Height (Blocks h' ! i)" if i: "i < length (Blocks h)" for i
  proof -
    have "hashBlock sha (Blocks h ! i) = hashBlock sha (Blocks h' ! i)"
      using eq i len by (metis blockDigest_hashBlock nth_map)
    then show ?thesis using hashBlock_inject [OF assms(4)] i len by simp
  qed
  then show ?thesis using len by (auto intro: nth_equalityI)
qed

lemma Hash_ignores_batches:
  "map ParentHash (Blocks h) = map ParentHash (Blocks h') \<Longrightarrow>
   map Height (Blocks h) = map Height (Blocks h') \<Longrightarrow> Hash sha h = Hash sha h'"
proof -
  assume p: "map ParentHash (Blocks h) = map ParentHash (Blocks h')"
    and ht: "map Height (Blocks h) = map Height (Blocks h')"
  have "map (blockDigest sha) bs = map (\<lambda>(p, k). sha (p @ be8 k)) (zip (map ParentHash bs) (map Height bs))" for bs
    by (induction bs) (simp_all add: blockDigest_def)
  then have "map (blockDigest sha) (Blocks h) = map (blockDigest sha) (Blocks h')"
    using p ht by metis
  then show ?thesis by (simp add: Hash_def)
qed

end
