(* ===== verification/Syncer.thy ===== *)
theory Syncer
  imports History Committee
begin

section \<open>State synchronisation\<close>

text \<open>
  \<^verbatim>\<open>internal/statetransfer/syncer.go\<close>. One goroutine per replica asks for its data and puts
  one response on a channel; the collector takes the responses in arrival order until it can
  answer or the context ends. The arrival order is the argument \<open>events\<close>: the address of a
  replica whose response is taken, or the end of the context. \<open>None\<close> means the events so far
  leave the collector waiting. The connection pool and the remote calls are the arguments
  \<open>getClient\<close> (does a client exist) and \<open>rpc\<close> (the reply, if any).
\<close>

datatype arrival = Expired | Arrived string

datatype sync_error =
    GetClientFailed string
  | RequestFailed string
  | ParseFailed string history_error
  | ContextEnded int
  | NoHashQuorum int int
  | InsufficientResponses int int

subsection \<open>RequestHistory\<close>

definition fetch_history :: "(bytes \<Rightarrow> bytes) \<Rightarrow> (string \<Rightarrow> bool) \<Rightarrow> (string \<Rightarrow> HistoryResponse option)
    \<Rightarrow> string \<Rightarrow> sync_error + (ExecutionHistory \<times> bytes)" where
  "fetch_history sha getClient rpc addr =
     (if \<not> getClient addr then Inl (GetClientFailed addr)
      else case rpc addr of
             None \<Rightarrow> Inl (RequestFailed addr)
           | Some resp \<Rightarrow>
               (case HistoryFromProto resp of
                  Inl e \<Rightarrow> Inl (ParseFailed addr e)
                | Inr hist \<Rightarrow> Inr (hist, Hash sha hist)))"

text \<open>The tally: \<open>hashCount\<close> and \<open>hashHist\<close> are maps from hashes.\<close>

fun tally :: "(string \<Rightarrow> sync_error + (ExecutionHistory \<times> bytes)) \<Rightarrow> int \<Rightarrow> int \<Rightarrow> int
    \<Rightarrow> (bytes \<Rightarrow> int) \<Rightarrow> (bytes \<Rightarrow> ExecutionHistory option) \<Rightarrow> arrival list
    \<Rightarrow> (sync_error + ExecutionHistory) option" where
  "tally fetch needed expected received hashCount hashHist events =
     (if received < expected then
        (case events of
           [] \<Rightarrow> None
         | Expired # _ \<Rightarrow> Some (Inl (ContextEnded received))
         | Arrived a # es \<Rightarrow>
             (case fetch a of
                Inl e \<Rightarrow> tally fetch needed expected (received + 1) hashCount hashHist es
              | Inr (hist, hash) \<Rightarrow>
                  (let count = hashCount(hash := hashCount hash + 1);
                       first = (case hashHist hash of
                                  None \<Rightarrow> hashHist(hash \<mapsto> hist)
                                | Some _ \<Rightarrow> hashHist)
                   in if needed \<le> count hash then Some (Inr (the (first hash)))
                      else tally fetch needed expected (received + 1) count first es)))
      else Some (Inl (NoHashQuorum needed received)))"

declare tally.simps [simp del]

lemma tally_simps:
  "tally fetch needed n received counts hists [] =
     (if received < n then None else Some (Inl (NoHashQuorum needed received)))"
  "tally fetch needed n received counts hists (Expired # es) =
     (if received < n then Some (Inl (ContextEnded received))
      else Some (Inl (NoHashQuorum needed received)))"
  "tally fetch needed n received counts hists (Arrived a # es) =
     (if received < n then
        (case fetch a of
           Inl e \<Rightarrow> tally fetch needed n (received + 1) counts hists es
         | Inr (hist, hash) \<Rightarrow>
             (let count = counts(hash := counts hash + 1);
                  first = (case hists hash of None \<Rightarrow> hists(hash \<mapsto> hist) | Some _ \<Rightarrow> hists)
              in if needed \<le> count hash then Some (Inr (the (first hash)))
                 else tally fetch needed n (received + 1) count first es))
      else Some (Inl (NoHashQuorum needed received)))"
  by (simp_all add: tally.simps)

definition RequestHistory :: "(bytes \<Rightarrow> bytes) \<Rightarrow> (string \<Rightarrow> bool) \<Rightarrow> (string \<Rightarrow> HistoryResponse option)
    \<Rightarrow> 'pk Committee \<Rightarrow> arrival list \<Rightarrow> (sync_error + ExecutionHistory) option" where
  "RequestHistory sha getClient rpc mc events =
     tally (fetch_history sha getClient rpc) (2 * FaultCap mc + 1) (Size mc) 0 (\<lambda>_. 0) Map.empty events"

subsection \<open>RequestUpdate\<close>

definition fetch_update :: "(string \<Rightarrow> bool) \<Rightarrow> (string \<Rightarrow> Block option option) \<Rightarrow> string
    \<Rightarrow> sync_error + Block option" where
  "fetch_update getClient rpc addr =
     (if \<not> getClient addr then Inl (GetClientFailed addr)
      else case rpc addr of None \<Rightarrow> Inl (RequestFailed addr) | Some best \<Rightarrow> Inr best)"

definition better :: "Block option \<Rightarrow> Block option \<Rightarrow> Block option" where
  "better best block =
     (case block of
        None \<Rightarrow> best
      | Some b \<Rightarrow>
          (case best of
             None \<Rightarrow> Some b
           | Some best' \<Rightarrow> if Height best' < Height b then Some b else best))"

fun collect_updates :: "(string \<Rightarrow> sync_error + Block option) \<Rightarrow> int \<Rightarrow> int \<Rightarrow> int \<Rightarrow> int
    \<Rightarrow> Block option \<Rightarrow> arrival list \<Rightarrow> (sync_error + Block) option" where
  "collect_updates fetch needed expected received good best events =
     (if received < expected then
        (case events of
           [] \<Rightarrow> None
         | Expired # _ \<Rightarrow>
             (if needed \<le> good \<and> best \<noteq> None then Some (Inr (the best))
              else Some (Inl (ContextEnded good)))
         | Arrived a # es \<Rightarrow>
             (case fetch a of
                Inl e \<Rightarrow> collect_updates fetch needed expected (received + 1) good best es
              | Inr block \<Rightarrow>
                  (let best' = better best block in
                   if needed \<le> good + 1 \<and> best' \<noteq> None then Some (Inr (the best'))
                   else collect_updates fetch needed expected (received + 1) (good + 1) best' es)))
      else if needed \<le> good \<and> best \<noteq> None then Some (Inr (the best))
      else Some (Inl (InsufficientResponses good needed)))"

declare collect_updates.simps [simp del]

lemma collect_updates_simps:
  "collect_updates fetch needed n received good best [] =
     (if received < n then None
      else if needed \<le> good \<and> best \<noteq> None then Some (Inr (the best))
      else Some (Inl (InsufficientResponses good needed)))"
  "collect_updates fetch needed n received good best (Expired # es) =
     (if needed \<le> good \<and> best \<noteq> None then Some (Inr (the best))
      else if received < n then Some (Inl (ContextEnded good))
      else Some (Inl (InsufficientResponses good needed)))"
  "collect_updates fetch needed n received good best (Arrived a # es) =
     (if received < n then
        (case fetch a of
           Inl e \<Rightarrow> collect_updates fetch needed n (received + 1) good best es
         | Inr block \<Rightarrow>
             (let best' = better best block in
              if needed \<le> good + 1 \<and> best' \<noteq> None then Some (Inr (the best'))
              else collect_updates fetch needed n (received + 1) (good + 1) best' es))
      else if needed \<le> good \<and> best \<noteq> None then Some (Inr (the best))
      else Some (Inl (InsufficientResponses good needed)))"
  by (auto simp: collect_updates.simps)

definition RequestUpdate :: "(string \<Rightarrow> bool) \<Rightarrow> (string \<Rightarrow> Block option option) \<Rightarrow> 'pk Committee
    \<Rightarrow> arrival list \<Rightarrow> (sync_error + Block) option" where
  "RequestUpdate getClient rpc mc events =
     collect_updates (fetch_update getClient rpc) (Size mc - FaultCap mc) (Size mc) 0 0 None events"

text \<open>\<open>BroadcastHistory\<close> only logs one line per new member and always succeeds.\<close>

definition BroadcastHistory :: "ExecutionHistory \<Rightarrow> 'pk Replica list \<Rightarrow> (int \<times> string) list \<times> sync_error option" where
  "BroadcastHistory hist newMembers =
     (let resp = ToProto hist in
      (map (\<lambda>r. (int (length (hr_History resp)), Addr r)) newMembers, None))"

subsection \<open>The Syncer object\<close>

text \<open>
  The remote call carries the identity of the replica that asks. \<open>heard_within\<close> lists what a collector
  sees under a deadline: the replicas in \<open>order\<close>, each after its \<open>delay\<close> in nanoseconds, up to the
  first that is too late, then the end of the context.
\<close>

definition DefaultSyncTimeout :: int where "DefaultSyncTimeout = 30 * 10 ^ 9"

record Syncer =
  sy_myID :: string
  sy_rpcPool :: "string \<Rightarrow> bool"
  sy_timeout :: int

definition NewSyncer :: "string \<Rightarrow> (string \<Rightarrow> bool) \<Rightarrow> int \<Rightarrow> Syncer" where
  "NewSyncer myID pool timeout =
     (let timeout' = (if timeout \<le> 0 then DefaultSyncTimeout else timeout)
      in \<lparr>sy_myID = myID, sy_rpcPool = pool, sy_timeout = timeout'\<rparr>)"

definition heard_within :: "int \<Rightarrow> (string \<Rightarrow> int) \<Rightarrow> string list \<Rightarrow> arrival list" where
  "heard_within timeout delay order = map Arrived (takeWhile (\<lambda>a. delay a < timeout) order) @ [Expired]"

definition Syncer_RequestHistory :: "(bytes \<Rightarrow> bytes) \<Rightarrow> Syncer \<Rightarrow> (string \<Rightarrow> string \<Rightarrow> HistoryResponse option)
    \<Rightarrow> 'pk Committee \<Rightarrow> (string \<Rightarrow> int) \<Rightarrow> string list \<Rightarrow> (sync_error + ExecutionHistory) option" where
  "Syncer_RequestHistory sha s rpc mc delay order =
     RequestHistory sha (sy_rpcPool s) (rpc (sy_myID s)) mc (heard_within (sy_timeout s) delay order)"

definition Syncer_RequestUpdate :: "Syncer \<Rightarrow> (string \<Rightarrow> string \<Rightarrow> Block option option)
    \<Rightarrow> 'pk Committee \<Rightarrow> (string \<Rightarrow> int) \<Rightarrow> string list \<Rightarrow> (sync_error + Block) option" where
  "Syncer_RequestUpdate s rpc mc delay order =
     RequestUpdate (sy_rpcPool s) (rpc (sy_myID s)) mc (heard_within (sy_timeout s) delay order)"

lemma NewSyncer_timeout: "0 < sy_timeout (NewSyncer me pool t)"
  by (simp add: NewSyncer_def DefaultSyncTimeout_def Let_def)

text \<open>In an order of increasing delays, everyone who is in time is heard.\<close>

lemma in_time_heard:
  "sorted (map delay order) \<Longrightarrow> set (takeWhile (\<lambda>a. delay a < t) order) = {a \<in> set order. delay a < t}"
proof (induction order)
  case (Cons a order)
  then show ?case by (cases "delay a < t") force+
qed simp

subsection \<open>The tally\<close>

definition votes_for :: "(string \<Rightarrow> sync_error + (ExecutionHistory \<times> bytes)) \<Rightarrow> bytes \<Rightarrow> arrival list \<Rightarrow> nat" where
  "votes_for fetch hash events =
     length (filter (\<lambda>e. \<exists>a h. e = Arrived a \<and> fetch a = Inr (h, hash)) events)"

lemma votes_for_Cons:
  "votes_for fetch hash (Arrived a # es) =
     (case fetch a of Inr (h, k) \<Rightarrow> if k = hash then 1 else 0 | Inl _ \<Rightarrow> 0) + votes_for fetch hash es"
  by (auto simp: votes_for_def split: sum.splits)

lemma tally_sound:
  assumes "tally fetch needed expected received counts hists events = Some (Inr h)"
    and "\<forall>k. hists k \<noteq> None \<longrightarrow> (\<exists>a. fetch a = Inr (the (hists k), k))"
  shows "\<exists>hash used rest. events = used @ rest \<and>
      needed \<le> counts hash + int (votes_for fetch hash used) \<and> (\<exists>a. fetch a = Inr (h, hash))"
  using assms
proof (induction events arbitrary: received counts hists)
  case Nil
  then show ?case by (auto simp: tally_simps split: if_splits)
next
  case (Cons e es)
  have sz: "received < expected"
    using Cons.prems(1) by (cases e) (auto simp: tally_simps split: if_splits)
  then obtain a where e: "e = Arrived a"
    using Cons.prems(1) by (cases e) (auto simp: tally_simps)
  show ?case
  proof (cases "fetch a")
    case (Inl err)
    with Cons.prems(1) sz e have "tally fetch needed expected (received + 1) counts hists es = Some (Inr h)"
      by (simp add: tally_simps)
    from Cons.IH [OF this Cons.prems(2)] obtain hash used rest where
      "es = used @ rest" "needed \<le> counts hash + int (votes_for fetch hash used)"
      "\<exists>a. fetch a = Inr (h, hash)" by blast
    then show ?thesis using Inl e
      by (intro exI [of _ hash] exI [of _ "e # used"] exI [of _ rest]) (simp add: votes_for_Cons)
  next
    case (Inr p)
    obtain hist hash where p: "p = (hist, hash)" by (cases p)
    let ?c = "counts(hash := counts hash + 1)"
    let ?f = "case hists hash of None \<Rightarrow> hists(hash \<mapsto> hist) | Some _ \<Rightarrow> hists"
    have fin: "\<forall>k. ?f k \<noteq> None \<longrightarrow> (\<exists>a. fetch a = Inr (the (?f k), k))"
      using Cons.prems(2) Inr p by (auto split: option.splits)
    have some: "?f hash \<noteq> None" by (auto split: option.splits)
    show ?thesis
    proof (cases "needed \<le> counts hash + 1")
      case True
      then have "h = the (?f hash)"
        using Cons.prems(1) sz e Inr p
        by (simp add: tally_simps Let_def)
      then have "\<exists>a. fetch a = Inr (h, hash)" using fin some by blast
      then show ?thesis using True Inr p e
        by (intro exI [of _ hash] exI [of _ "[e]"] exI [of _ es])
           (simp add: votes_for_def)
    next
      case False
      then have "tally fetch needed expected (received + 1) ?c ?f es = Some (Inr h)"
        using Cons.prems(1) sz e Inr p
        by (simp add: tally_simps Let_def)
      from Cons.IH [OF this fin] obtain k used rest where
        "es = used @ rest" "needed \<le> ?c k + int (votes_for fetch k used)"
        "\<exists>a. fetch a = Inr (h, k)" by blast
      then show ?thesis using Inr p e
        by (intro exI [of _ k] exI [of _ "e # used"] exI [of _ rest])
           (auto simp: votes_for_Cons split: if_splits)
    qed
  qed
qed

text \<open>The collector answers once every replica has responded, or earlier.\<close>

lemma tally_answers:
  assumes "\<forall>e \<in> set events. e \<noteq> Expired" "expected \<le> received + int (length events)"
  shows "\<exists>r. tally fetch needed expected received counts hists events = Some r"
  using assms
proof (induction events arbitrary: received counts hists)
  case Nil
  then show ?case by (simp add: tally_simps)
next
  case (Cons e es)
  then obtain a where e: "e = Arrived a" by (cases e) auto
  have "\<exists>r. tally fetch needed expected (received + 1) c f es = Some r" for c f
    using Cons.prems by (intro Cons.IH) auto
  then show ?case
    by (auto simp: tally_simps e Let_def split: sum.splits prod.splits)
qed

lemma distinct_arrivals_card:
  assumes "distinct events"
  shows "votes_for fetch hash events = card {a. Arrived a \<in> set events \<and> (\<exists>h. fetch a = Inr (h, hash))}"
proof -
  let ?P = "\<lambda>e. \<exists>a h. e = Arrived a \<and> fetch a = Inr (h, hash)"
  let ?A = "{a. Arrived a \<in> set events \<and> (\<exists>h. fetch a = Inr (h, hash))}"
  have "votes_for fetch hash events = card (set (filter ?P events))"
    using assms distinct_card [of "filter ?P events"] by (simp add: votes_for_def)
  also have "set (filter ?P events) = Arrived ` ?A" by auto
  also have "card (Arrived ` ?A) = card ?A" by (rule card_image) (auto simp: inj_on_def)
  finally show ?thesis .
qed

lemma honest_matching:
  assumes "distinct events" "finite B" "int (card B) \<le> f"
    and "2 * f + 1 \<le> int (votes_for fetch hash events)"
  shows "f + 1 \<le> int (card {a. a \<notin> B \<and> Arrived a \<in> set events \<and> (\<exists>h. fetch a = Inr (h, hash))})"
proof -
  let ?A = "{a. Arrived a \<in> set events \<and> (\<exists>h. fetch a = Inr (h, hash))}"
  have "card ?A - card B \<le> card (?A - B)" by (rule diff_card_le_card_Diff [OF assms(2)])
  moreover have "?A - B = {a. a \<notin> B \<and> Arrived a \<in> set events \<and> (\<exists>h. fetch a = Inr (h, hash))}" by auto
  moreover have "2 * f + 1 \<le> int (card ?A)" using assms(4) distinct_arrivals_card [OF assms(1)] by simp
  ultimately show ?thesis using assms(3) by simp
qed

text \<open>A hash that enough of the arrivals vouch for ends the collection, and nothing later matters.\<close>

lemma tally_reaches:
  assumes "needed \<le> counts hash + int (votes_for fetch hash (map Arrived xs))" "counts hash < needed"
    and "received + int (length xs) \<le> expected"
  shows "\<exists>g. tally fetch needed expected received counts hists (map Arrived xs) = Some (Inr g)"
  using assms
proof (induction xs arbitrary: received counts hists)
  case Nil
  then show ?case by (simp add: votes_for_def)
next
  case (Cons a xs)
  show ?case
  proof (cases "fetch a")
    case (Inl err)
    with Cons.prems Cons.IH [of counts "received + 1" hists] show ?thesis
      by (simp add: tally_simps votes_for_Cons)
  next
    case (Inr p)
    obtain hist k where p: "p = (hist, k)" by (cases p)
    let ?c = "counts(k := counts k + 1)"
    let ?f = "case hists k of None \<Rightarrow> hists(k \<mapsto> hist) | Some _ \<Rightarrow> hists"
    show ?thesis
    proof (cases "needed \<le> counts k + 1")
      case True
      then show ?thesis using Cons.prems(3) Inr p by (simp add: tally_simps Let_def)
    next
      case False
      then have "\<exists>g. tally fetch needed expected (received + 1) ?c ?f (map Arrived xs) = Some (Inr g)"
        using Cons.prems Inr p by (intro Cons.IH) (auto simp: votes_for_Cons split: if_splits)
      then show ?thesis using False Cons.prems(3) Inr p by (simp add: tally_simps Let_def)
    qed
  qed
qed

lemma tally_prefix:
  "tally fetch needed expected received counts hists es = Some r \<Longrightarrow>
   tally fetch needed expected received counts hists (es @ rest) = Some r"
proof (induction es arbitrary: received counts hists)
  case Nil
  then show ?case by (cases rest; cases "hd rest") (auto simp: tally_simps split: if_splits)
next
  case (Cons e es)
  then show ?case by (cases e) (auto simp: tally_simps Let_def split: sum.splits prod.splits if_splits)
qed

text \<open>
  A hash that all replicas outside a set of at most \<open>f\<close> serve is the hash of the answer.
\<close>

lemma tally_majority:
  assumes "distinct xs" "finite B" "int (card B) \<le> f" "0 \<le> f" "int (length xs) \<le> expected"
    and "2 * f + 1 \<le> int (card (set xs - B))" "\<forall>a \<in> set xs - B. \<exists>g. fetch a = Inr (g, hash)"
  shows "\<exists>g. tally fetch (2 * f + 1) expected 0 (\<lambda>_. 0) Map.empty (map Arrived xs @ rest) = Some (Inr g) \<and>
    (\<exists>a. fetch a = Inr (g, hash))"
proof -
  let ?t = "tally fetch (2 * f + 1) expected 0 (\<lambda>_. 0) Map.empty"
  have dist: "distinct (map Arrived xs)" using assms(1) by (simp add: distinct_map inj_on_def)
  have "card (set xs - B) \<le> card {a. Arrived a \<in> set (map Arrived xs) \<and> (\<exists>g. fetch a = Inr (g, hash))}"
    using assms(7) by (intro card_mono finite_subset [OF _ finite_set [of xs]]) auto
  also have "\<dots> = votes_for fetch hash (map Arrived xs)" by (rule distinct_arrivals_card [OF dist, symmetric])
  finally have "\<exists>g. ?t (map Arrived xs) = Some (Inr g)"
    using assms(4-6) by (intro tally_reaches [where hash = hash]) simp_all
  then obtain g where g: "?t (map Arrived xs) = Some (Inr g)" by blast
  from tally_sound [OF this] obtain k used rest' where k: "map Arrived xs = used @ rest'"
    "2 * f + 1 \<le> int (votes_for fetch k used)" "\<exists>a. fetch a = Inr (g, k)" by auto
  have "distinct used" using dist k(1) by simp
  from honest_matching [OF this assms(2,3) k(2)] assms(4)
  have "{a. a \<notin> B \<and> Arrived a \<in> set used \<and> (\<exists>h. fetch a = Inr (h, k))} \<noteq> {}" by (intro notI) simp
  then obtain a h where "a \<notin> B" "Arrived a \<in> set (map Arrived xs)" and h: "fetch a = Inr (h, k)"
    using k(1) by auto
  then have "a \<in> set xs - B" by auto
  with assms(7) h have "k = hash" by force
  with tally_prefix [OF g] k(3) show ?thesis by blast
qed

subsection \<open>The update collector\<close>

lemma better_Some: "better best block = Some b \<longleftrightarrow>
   (case block of None \<Rightarrow> best = Some b
    | Some c \<Rightarrow> (case best of None \<Rightarrow> b = c
       | Some d \<Rightarrow> b = (if Height d < Height c then c else d)))"
  by (auto simp: better_def split: option.splits)

definition reported :: "(string \<Rightarrow> sync_error + Block option) \<Rightarrow> arrival list \<Rightarrow> Block set" where
  "reported fetch events = {b. \<exists>a. Arrived a \<in> set events \<and> fetch a = Inr (Some b)}"

definition good_count :: "(string \<Rightarrow> sync_error + Block option) \<Rightarrow> arrival list \<Rightarrow> nat" where
  "good_count fetch events = length (filter (\<lambda>e. \<exists>a r. e = Arrived a \<and> fetch a = Inr r) events)"

lemma reported_Cons: "reported fetch (Arrived a # es) =
   (case fetch a of Inr (Some b) \<Rightarrow> insert b (reported fetch es) | _ \<Rightarrow> reported fetch es)"
  by (auto simp: reported_def split: sum.splits option.splits)

lemma good_count_Cons: "good_count fetch (Arrived a # es) =
   (case fetch a of Inr _ \<Rightarrow> 1 | Inl _ \<Rightarrow> 0) + good_count fetch es"
  by (auto simp: good_count_def split: sum.splits)

text \<open>
  The answer is a block reported in a prefix of the arrivals that holds enough responses, and
  no block reported in that prefix is higher.
\<close>

lemma reported_Nil [simp]: "reported fetch [] = {}" and good_count_Nil [simp]: "good_count fetch [] = 0"
  by (simp_all add: reported_def good_count_def)

lemma collect_updates_sound:
  assumes "collect_updates fetch needed expected received good best events = Some (Inr r)"
  shows "\<exists>used rest. events = used @ rest \<and> needed \<le> good + int (good_count fetch used) \<and>
      r \<in> set_option best \<union> reported fetch used \<and>
      (\<forall>b \<in> set_option best \<union> reported fetch used. Height b \<le> Height r)"
  using assms
proof (induction events arbitrary: received good best)
  case Nil
  then show ?case
    by (auto simp: collect_updates_simps split: if_splits)
next
  case (Cons e es)
  note unf = collect_updates_simps
  show ?case
  proof (cases "received < expected \<and> e \<noteq> Expired")
    case False
    with Cons.prems have "needed \<le> good" "best = Some r"
      by (cases e; auto simp: unf split: if_splits)+
    then show ?thesis by (intro exI [of _ "[]"] exI [of _ "e # es"]) simp
  next
    case True
    then obtain a where e: "e = Arrived a" and sz: "received < expected" by (cases e) auto
    show ?thesis
    proof (cases "fetch a")
      case (Inl err)
      with Cons.prems sz e
      have "collect_updates fetch needed expected (received + 1) good best es = Some (Inr r)"
        by (simp add: unf)
      from Cons.IH [OF this] obtain used rest where u: "es = used @ rest"
        "needed \<le> good + int (good_count fetch used)" "r \<in> set_option best \<union> reported fetch used"
        "\<forall>b \<in> set_option best \<union> reported fetch used. Height b \<le> Height r" by blast
      show ?thesis
        by (rule exI [of _ "e # used"], rule exI [of _ rest])
           (use u Inl in \<open>simp add: e reported_Cons good_count_Cons\<close>)
    next
      case (Inr block)
      let ?b = "better best block"
      have grow: "set_option ?b \<subseteq> set_option best \<union> set_option block"
        "\<forall>c \<in> set_option best \<union> set_option block. \<exists>d \<in> set_option ?b. Height c \<le> Height d"
        by (auto simp: better_def split: option.splits)
      have rep: "reported fetch (e # used) = set_option block \<union> reported fetch used" for used
        using Inr by (auto simp: e reported_Cons split: option.splits)
      have cnt: "good_count fetch (e # used) = 1 + good_count fetch used" for used
        using Inr by (simp add: e good_count_Cons)
      show ?thesis
      proof (cases "needed \<le> good + 1 \<and> ?b \<noteq> None")
        case True
        then have "the ?b = r" using Cons.prems sz e Inr by (simp add: unf Let_def)
        then have "?b = Some r" using True by auto
        then show ?thesis using True grow
          by (intro exI [of _ "[e]"] exI [of _ es]) (auto simp: rep cnt)
      next
        case False
        then have "collect_updates fetch needed expected (received + 1) (good + 1) ?b es = Some (Inr r)"
          using Cons.prems sz e Inr by (simp add: unf Let_def split: if_splits)
        from Cons.IH [OF this] obtain used rest where u: "es = used @ rest"
          "needed \<le> good + 1 + int (good_count fetch used)" "r \<in> set_option ?b \<union> reported fetch used"
          "\<forall>b \<in> set_option ?b \<union> reported fetch used. Height b \<le> Height r" by blast
        have "\<forall>b \<in> set_option best \<union> (set_option block \<union> reported fetch used). Height b \<le> Height r"
          using u(4) grow(2) by (meson UnE UnI1 UnI2 order_trans)
        moreover have "r \<in> set_option best \<union> (set_option block \<union> reported fetch used)"
          using u(3) grow(1) by blast
        ultimately show ?thesis using u(1,2)
          by (intro exI [of _ "e # used"] exI [of _ rest]) (simp add: rep cnt)
      qed
    qed
  qed
qed

end
