(* ===== verification/Discovery.thy ===== *)
theory Discovery
  imports Syncer ConfigStore
begin

section \<open>Configuration discovery\<close>

text \<open>
  \<^verbatim>\<open>internal/discovery/discovery.go\<close>. \<open>requestUpdates\<close> ranges over a channel that is closed
  when every goroutine has sent its response, so its input is the list of all arrivals. The
  safety checker and the remote calls are arguments. \<open>SyncIfBehind\<close> reads the configuration
  store and never writes it; its answer is an error or none.
\<close>

datatype discovery_error =
    UpdatesFailed sync_error
  | FailedSafeNode u64
  | HistoryFailed sync_error
  | NotWired

primrec requestUpdates_loop :: "(string \<Rightarrow> sync_error + Block option) \<Rightarrow> int \<Rightarrow> int \<Rightarrow> Block option
    \<Rightarrow> string list \<Rightarrow> sync_error + Block" where
  "requestUpdates_loop fetch needed good best [] =
     (if needed \<le> good \<and> best \<noteq> None then Inr (the best)
      else Inl (InsufficientResponses good needed))"
| "requestUpdates_loop fetch needed good best (a # addrs) =
     (case fetch a of
        Inl e \<Rightarrow> requestUpdates_loop fetch needed good best addrs
      | Inr block \<Rightarrow>
          (let best' = better best block in
           if needed \<le> good + 1 \<and> best' \<noteq> None then Inr (the best')
           else requestUpdates_loop fetch needed (good + 1) best' addrs))"

definition requestUpdates :: "(string \<Rightarrow> bool) \<Rightarrow> (string \<Rightarrow> Block option option) \<Rightarrow> 'pk Committee
    \<Rightarrow> string list \<Rightarrow> sync_error + Block" where
  "requestUpdates getClient rpc mc arrivals =
     requestUpdates_loop (fetch_update getClient rpc) (Size mc - FaultCap mc) 0 None arrivals"

text \<open>
  \<open>None\<close> while the history request is still waiting. The nil check on the best block is
  part of \<open>requestUpdates\<close>, which answers a block or an error.
\<close>

definition SyncIfBehind :: "(bytes \<Rightarrow> bytes) \<Rightarrow> (Block \<Rightarrow> QuorumCert option \<Rightarrow> bool)
    \<Rightarrow> (string \<Rightarrow> bool) \<Rightarrow> (string \<Rightarrow> Block option option)
    \<Rightarrow> (string \<Rightarrow> bool) \<Rightarrow> (string \<Rightarrow> HistoryResponse option)
    \<Rightarrow> 'pk ConfigStore \<Rightarrow> u64 \<Rightarrow> string list \<Rightarrow> arrival list
    \<Rightarrow> (panic + discovery_error option) option" where
  "SyncIfBehind sha safeNode getClient rpcUpdate syncerClient rpcHistory cs knownLatestConf updates histories =
     (case Latest cs of
        Inl p \<Rightarrow> Some (Inl p)
      | Inr current \<Rightarrow>
          (if knownLatestConf \<le> Number current then Some (Inr None)
           else
             let targetMc = (case AtNumber cs knownLatestConf of Inl _ \<Rightarrow> current | Inr c \<Rightarrow> c)
             in case requestUpdates getClient rpcUpdate targetMc updates of
                  Inl e \<Rightarrow> Some (Inr (Some (UpdatesFailed e)))
                | Inr bestBlock \<Rightarrow>
                    (if \<not> safeNode bestBlock (Justify bestBlock)
                     then Some (Inr (Some (FailedSafeNode (Height bestBlock))))
                     else (case RequestHistory sha syncerClient rpcHistory targetMc histories of
                             None \<Rightarrow> None
                           | Some (Inl e) \<Rightarrow> Some (Inr (Some (HistoryFailed e)))
                           | Some (Inr hist) \<Rightarrow> Some (Inr None)))))"

definition HandleUpdateRequest :: "string \<Rightarrow> discovery_error + Block" where
  "HandleUpdateRequest requester = Inl NotWired"

subsection \<open>The two update collectors agree\<close>

lemma collectors_agree_loop:
  "received + int (length addrs) = n \<Longrightarrow>
   collect_updates fetch needed n received good best (map Arrived addrs) =
     Some (requestUpdates_loop fetch needed good best addrs)"
proof (induction addrs arbitrary: received good best)
  case Nil
  then show ?case by (auto simp: collect_updates_simps)
next
  case (Cons a addrs)
  then show ?case
    by (cases "fetch a") (auto simp: collect_updates_simps Let_def)
qed

lemma collectors_agree:
  "int (length addrs) = Size mc \<Longrightarrow>
   RequestUpdate getClient rpc mc (map Arrived addrs) = Some (requestUpdates getClient rpc mc addrs)"
  by (simp add: RequestUpdate_def requestUpdates_def collectors_agree_loop)

lemma requestUpdates_loop_sound:
  assumes "requestUpdates_loop fetch needed 0 None addrs = Inr r"
  shows "\<exists>used rest. addrs = used @ rest \<and> needed \<le> int (good_count fetch (map Arrived used)) \<and>
    r \<in> reported fetch (map Arrived used) \<and> (\<forall>b \<in> reported fetch (map Arrived used). Height b \<le> Height r)"
proof -
  have "collect_updates fetch needed (int (length addrs)) 0 0 None (map Arrived addrs) = Some (Inr r)"
    using assms by (simp add: collectors_agree_loop)
  from collect_updates_sound [OF this] obtain used rest where
    "map Arrived addrs = used @ rest" "needed \<le> int (good_count fetch used)"
    "r \<in> reported fetch used" "\<forall>b \<in> reported fetch used. Height b \<le> Height r" by auto
  then show ?thesis by (auto simp: map_eq_append_conv)
qed

text \<open>A block higher than all others that is reported before enough responses are in is the answer.\<close>

lemma requestUpdates_loop_keeps:
  assumes "\<forall>c \<in> reported fetch (map Arrived ws). Height c \<le> Height b"
    and "needed \<le> good + int (good_count fetch (map Arrived ws))"
  shows "requestUpdates_loop fetch needed good (Some b) ws = Inr b"
  using assms
proof (induction ws arbitrary: good)
  case (Cons a ws)
  show ?case
  proof (cases "fetch a")
    case (Inr block)
    have "better (Some b) block = Some b"
      using Cons.prems(1) Inr by (auto simp: better_def reported_Cons split: option.splits)
    moreover have "requestUpdates_loop fetch needed (good + 1) (Some b) ws = Inr b"
      using Cons.prems Inr by (intro Cons.IH) (auto simp: reported_Cons good_count_Cons split: option.splits)
    ultimately show ?thesis using Inr by (simp add: Let_def)
  qed (use Cons in \<open>auto simp: reported_Cons good_count_Cons\<close>)
qed simp

lemma requestUpdates_loop_highest:
  assumes "fetch a = Inr (Some b)" "good + int (good_count fetch (map Arrived us)) < needed"
    and "\<forall>c \<in> set_option best \<union> reported fetch (map Arrived (us @ ws)). Height c < Height b"
    and "needed \<le> good + int (good_count fetch (map Arrived (us @ a # ws)))"
  shows "requestUpdates_loop fetch needed good best (us @ a # ws) = Inr b"
  using assms(2-4)
proof (induction us arbitrary: good best)
  case Nil
  have "better best (Some b) = Some b"
    using Nil.prems(2) by (auto simp: better_def split: option.splits)
  moreover have "requestUpdates_loop fetch needed (good + 1) (Some b) ws = Inr b"
    using Nil.prems assms(1) by (intro requestUpdates_loop_keeps) (auto simp: good_count_Cons less_imp_le)
  ultimately show ?case using assms(1) by (simp add: Let_def)
next
  case (Cons x us)
  show ?case
  proof (cases "fetch x")
    case (Inr block)
    have "requestUpdates_loop fetch needed (good + 1) (better best block) (us @ a # ws) = Inr b"
      using Cons.prems Inr
      by (intro Cons.IH) (auto simp: reported_Cons good_count_Cons better_def split: option.splits if_splits)
    moreover have "\<not> needed \<le> good + 1" using Cons.prems(1) Inr by (simp add: good_count_Cons)
    ultimately show ?thesis using Inr by (simp add: Let_def)
  qed (use Cons in \<open>auto simp: reported_Cons good_count_Cons\<close>)
qed

subsection \<open>SyncIfBehind\<close>

lemma SyncIfBehind_target:
  assumes "configs_ok cs" "length (configs cs) < 2 ^ 64" "Latest cs = Inr current"
    and "Number current < k"
  shows "AtNumber cs k = Inl (ConfigNotFound k)"
proof -
  have "unat (Number current) = length (configs cs) - 1"
    using store.latest_number [OF assms(1)] store.latest_last [OF assms(1)] assms(2,3)
    by (simp add: unat_of_nat)
  then have "length (configs cs) \<le> unat k"
    using assms(4) by (simp add: word_less_nat_alt)
  then show ?thesis
    using assms(2) by (simp add: AtNumber_def word_le_nat_alt unat_of_nat)
qed

lemma SyncIfBehind_success:
  assumes "configs_ok cs" "length (configs cs) < 2 ^ 64" "Latest cs = Inr current"
    and "Number current < k"
    and "SyncIfBehind sha safeNode gc rpcU gcH rpcH cs k updates histories = Some (Inr None)"
  shows "\<exists>best hist. requestUpdates gc rpcU current updates = Inr best \<and>
      safeNode best (Justify best) \<and> RequestHistory sha gcH rpcH current histories = Some (Inr hist)"
  using assms SyncIfBehind_target [OF assms(1-4)]
  by (auto simp: SyncIfBehind_def Let_def split: sum.splits if_splits option.splits)

end
