(* ===== verification/Network.thy ===== *)
theory Network
  imports ViewChange History
begin

section \<open>Transport, router and connection pool\<close>

text \<open>
  \<^verbatim>\<open>internal/network/{transport,router,pool}.go\<close>. gRPC is third-party code: dialling, the
  remote calls and closing a connection are arguments. What the code decides, which call a
  message becomes, which replicas a broadcast reaches, when a connection is dialled, and which
  status a router answers, is modelled.
\<close>

subsection \<open>The transport\<close>

datatype rpc_call = ProposeRPC string Block | SendNewViewRPC string NewViewMsg

datatype transport_error =
    ClientFailed string
  | ProposeFailed string
  | NewViewFailed string
  | UnsupportedMessage
  | SendErrors nat

text \<open>The calls made on the wire, in order, and the error.\<close>

definition Send :: "(string \<Rightarrow> bool) \<Rightarrow> (rpc_call \<Rightarrow> bool) \<Rightarrow> string \<Rightarrow> message
    \<Rightarrow> rpc_call list \<times> transport_error option" where
  "Send getClient rpcOk addr msg =
     (if \<not> getClient addr then ([], Some (ClientFailed addr))
      else case msg of
             BlockMsg m \<Rightarrow>
               ([ProposeRPC addr m],
                if rpcOk (ProposeRPC addr m) then None else Some (ProposeFailed addr))
           | ViewMsg m \<Rightarrow>
               ([SendNewViewRPC addr m],
                if rpcOk (SendNewViewRPC addr m) then None else Some (NewViewFailed addr))
           | Vote v \<Rightarrow> ([], Some UnsupportedMessage))"

text \<open>
  The goroutines of a broadcast are independent; their calls are listed in committee order
  and their errors counted.
\<close>

primrec broadcast_loop :: "(string \<Rightarrow> bool) \<Rightarrow> (rpc_call \<Rightarrow> bool) \<Rightarrow> string \<Rightarrow> message
    \<Rightarrow> 'pk Replica list \<Rightarrow> rpc_call list \<times> nat" where
  "broadcast_loop getClient rpcOk myAddr msg [] = ([], 0)"
| "broadcast_loop getClient rpcOk myAddr msg (r # rs) =
     (case broadcast_loop getClient rpcOk myAddr msg rs of
        (calls, errs) \<Rightarrow>
          if Addr r = myAddr then (calls, errs)
          else (case Send getClient rpcOk (Addr r) msg of
                  (c, err) \<Rightarrow> (c @ calls, if err = None then errs else Suc errs)))"

definition BroadcastToCommittee :: "(string \<Rightarrow> bool) \<Rightarrow> (rpc_call \<Rightarrow> bool) \<Rightarrow> string
    \<Rightarrow> 'pk Committee \<Rightarrow> message \<Rightarrow> rpc_call list \<times> transport_error option" where
  "BroadcastToCommittee getClient rpcOk myAddr c msg =
     (case broadcast_loop getClient rpcOk myAddr msg (Replicas c) of
        (calls, errs) \<Rightarrow> (calls, if 0 < errs then Some (SendErrors errs) else None))"

definition joinLines :: "string list \<Rightarrow> string" where
  "joinLines ss = foldl (\<lambda>out s. (out @ s) @ [CHR 0x0A]) [] ss"

lemma joinLines_eq: "joinLines ss = concat (map (\<lambda>s. s @ [CHR 0x0A]) ss)"
proof -
  have "foldl (\<lambda>out s. (out @ s) @ [CHR 0x0A]) acc ss = acc @ concat (map (\<lambda>s. s @ [CHR 0x0A]) ss)" for acc
    by (induction ss arbitrary: acc) simp_all
  then show ?thesis by (simp add: joinLines_def)
qed

lemma Send_Vote: "fst (Send gc ok addr (Vote v)) = [] \<and> snd (Send gc ok addr (Vote v)) \<noteq> None"
  by (simp add: Send_def)

lemma broadcast_BlockMsg:
  "fst (broadcast_loop gc ok me (BlockMsg b) rs) =
     map (\<lambda>r. ProposeRPC (Addr r) b) (filter (\<lambda>r. Addr r \<noteq> me \<and> gc (Addr r)) rs)"
  by (induction rs) (auto simp: Send_def split: prod.splits)

lemma broadcast_errors:
  "snd (broadcast_loop gc ok me msg rs) =
     length (filter (\<lambda>r. Addr r \<noteq> me \<and> snd (Send gc ok (Addr r) msg) \<noteq> None) rs)"
  by (induction rs) (auto split: prod.splits)

subsection \<open>The router\<close>

datatype status_code = InvalidArgument | FailedPrecondition | Internal

definition Router_Propose :: "('s \<Rightarrow> Block \<Rightarrow> 's \<times> ('e + VoteMsg)) \<Rightarrow> 's \<Rightarrow> Block option
    \<Rightarrow> 's \<times> (status_code + VoteMsg)" where
  "Router_Propose handlePropose s block =
     (case block of
        None \<Rightarrow> (s, Inl InvalidArgument)
      | Some b \<Rightarrow>
          (case handlePropose s b of
             (s', Inl e) \<Rightarrow> (s', Inl FailedPrecondition)
           | (s', Inr vote) \<Rightarrow> (s', Inr vote)))"

definition Router_SendNewView :: "('s \<Rightarrow> NewViewMsg \<Rightarrow> 's) \<Rightarrow> 's \<Rightarrow> NewViewMsg option
    \<Rightarrow> 's \<times> status_code option" where
  "Router_SendNewView handleNewView s msg =
     (case msg of None \<Rightarrow> (s, Some InvalidArgument) | Some m \<Rightarrow> (handleNewView s m, None))"

definition Router_RequestUpdate :: "('e + Block option) \<Rightarrow> string option \<Rightarrow> status_code + Block option" where
  "Router_RequestUpdate bestBlock req =
     (case req of
        None \<Rightarrow> Inl InvalidArgument
      | Some _ \<Rightarrow> (case bestBlock of Inl e \<Rightarrow> Inl Internal | Inr best \<Rightarrow> Inr best))"

definition Router_RequestHistory :: "('e + Block list) \<Rightarrow> string option \<Rightarrow> status_code + HistoryResponse" where
  "Router_RequestHistory history req =
     (case req of
        None \<Rightarrow> Inl InvalidArgument
      | Some _ \<Rightarrow> (case history of Inl e \<Rightarrow> Inl Internal | Inr h \<Rightarrow> Inr \<lparr>hr_History = h\<rparr>))"

subsection \<open>The connection pool\<close>

text \<open>
  Connections are numbered in the order they were dialled, and \<open>dialled\<close> lists the addresses
  of the open ones in that order. \<open>GetConn\<close> takes a read lock for the
  fast path and, when that misses, a write lock for the slow path, which looks again before
  it dials; the two sections are separate steps that other goroutines can run between.
\<close>

record ConnPool =
  conns :: "string \<Rightarrow> nat option"
  dialled :: "string list"

definition NewConnPool :: ConnPool where
  "NewConnPool = \<lparr>conns = Map.empty, dialled = []\<rparr>"

definition GetConn_fast :: "string \<Rightarrow> ConnPool \<Rightarrow> nat option" where
  "GetConn_fast addr p = conns p addr"

definition GetConn_slow :: "bool \<Rightarrow> string \<Rightarrow> ConnPool \<Rightarrow> ConnPool \<times> (transport_error + nat)" where
  "GetConn_slow dialOk addr p =
     (case conns p addr of
        Some cc \<Rightarrow> (p, Inr cc)
      | None \<Rightarrow>
          (if \<not> dialOk then (p, Inl (ClientFailed addr))
           else let cc = length (dialled p)
                in (p\<lparr>conns := (conns p)(addr \<mapsto> cc), dialled := dialled p @ [addr]\<rparr>, Inr cc)))"

definition GetConn :: "bool \<Rightarrow> string \<Rightarrow> ConnPool \<Rightarrow> ConnPool \<times> (transport_error + nat)" where
  "GetConn dialOk addr p =
     (case GetConn_fast addr p of
        Some cc \<Rightarrow> (p, Inr cc)
      | None \<Rightarrow> GetConn_slow dialOk addr p)"

text \<open>
  \<open>Close\<close> visits the cached connections in the order the map iteration gives, remembers the
  first error and empties the cache.
\<close>

primrec close_loop :: "(string \<Rightarrow> bool) \<Rightarrow> string option \<Rightarrow> string list
    \<Rightarrow> (string \<Rightarrow> nat option) \<Rightarrow> string option \<times> (string \<Rightarrow> nat option)" where
  "close_loop closeOk firstErr [] cs = (firstErr, cs)"
| "close_loop closeOk firstErr (a # order) cs =
     close_loop closeOk (if \<not> closeOk a \<and> firstErr = None then Some a else firstErr) order (cs(a := None))"

definition Close :: "(string \<Rightarrow> bool) \<Rightarrow> string list \<Rightarrow> ConnPool \<Rightarrow> ConnPool \<times> string option" where
  "Close closeOk order p =
     (case close_loop closeOk None order (conns p) of
        (err, cs) \<Rightarrow> (p\<lparr>conns := cs, dialled := filter (\<lambda>a. cs a \<noteq> None) (dialled p)\<rparr>, err))"

definition PoolLen :: "ConnPool \<Rightarrow> nat" where
  "PoolLen p = card (dom (conns p))"

text \<open>Slow paths of several goroutines, in the order they get the write lock.\<close>

primrec slow_paths :: "(bool \<times> string) list \<Rightarrow> ConnPool \<Rightarrow> ConnPool" where
  "slow_paths [] p = p"
| "slow_paths (x # xs) p = slow_paths xs (fst (GetConn_slow (fst x) (snd x) p))"

definition pool_ok :: "ConnPool \<Rightarrow> bool" where
  "pool_ok p \<longleftrightarrow> distinct (dialled p) \<and> dom (conns p) = set (dialled p) \<and>
     (\<forall>a cc. conns p a = Some cc \<longrightarrow> cc < length (dialled p) \<and> dialled p ! cc = a)"

lemma pool_ok_New [wf_intros]: "pool_ok NewConnPool"
  by (simp add: pool_ok_def NewConnPool_def)

lemma pool_ok_slow [wf_intros]:
  assumes "pool_ok p"
  shows "pool_ok (fst (GetConn_slow ok a p))"
proof (cases "conns p a = None \<and> ok")
  case True
  then have "a \<notin> set (dialled p)" using assms by (auto simp: pool_ok_def)
  moreover have "cc < length (dialled p) \<and> dialled p ! cc = b" if "conns p b = Some cc" for b cc
    using assms that by (simp add: pool_ok_def)
  ultimately show ?thesis
    using assms True by (auto simp: pool_ok_def GetConn_slow_def Let_def nth_append less_Suc_eq)
next
  case False
  with assms show ?thesis by (auto simp: GetConn_slow_def split: option.splits)
qed

lemma pool_ok_slow_paths: "pool_ok p \<Longrightarrow> pool_ok (slow_paths xs p)"
  by (induction xs arbitrary: p) (simp_all add: pool_ok_slow)

lemma slow_path_keeps: "conns p a = Some cc \<Longrightarrow> conns (slow_paths xs p) a = Some cc"
proof (induction xs arbitrary: p)
  case (Cons x xs)
  have "conns (fst (GetConn_slow (fst x) (snd x) p)) a = Some cc"
    using Cons.prems by (auto simp: GetConn_slow_def Let_def split: option.splits)
  then show ?case by (simp add: Cons.IH)
qed simp

lemma close_loop_empties: "snd (close_loop ok e order cs) a = (if a \<in> set order then None else cs a)"
  by (induction order arbitrary: e cs) auto

lemma close_loop_Some: "fst (close_loop ok (Some x) order cs) = Some x"
  by (induction order arbitrary: cs) auto

lemma close_loop_error: "fst (close_loop ok None order cs) = find (\<lambda>a. \<not> ok a) order"
  by (induction order arbitrary: cs) (auto simp: close_loop_Some)

lemma Close_empty:
  assumes "pool_ok p" "set order = dom (conns p)"
  shows "fst (Close ok order p) = NewConnPool"
proof -
  have "snd (close_loop ok None order (conns p)) = Map.empty"
    using assms(2) by (auto simp: close_loop_empties fun_eq_iff)
  then show ?thesis by (simp add: Close_def NewConnPool_def split_def)
qed

end
