(* ===== verification/Bench.thy ===== *)
theory Bench
  imports Pipeline Deliver
begin

section \<open>Block stores, windows and counters of the harnesses\<close>

text \<open>
  The in-memory block store, the commit window and the delivery counter of
  \<^verbatim>\<open>internal/benchutil/cluster.go\<close>, and the block store and window of
  \<^verbatim>\<open>internal/repbench/cluster.go\<close>. The store is the repository's implementation of the
  \<open>BlockchainReader\<close> interface that the safety rule relies on.
\<close>

subsection \<open>Hash functions and keys\<close>

text \<open>The harnesses fill the height buffer from its end, shifting the height right.\<close>

primrec height_loop :: "nat \<Rightarrow> u64 \<Rightarrow> bytes \<Rightarrow> bytes" where
  "height_loop 0 ht buf = buf"
| "height_loop (Suc i) ht buf = height_loop i (drop_bit 8 ht) (buf[i := ucast ht])"

definition bench_hashBlock :: "(bytes \<Rightarrow> bytes) \<Rightarrow> Block \<Rightarrow> bytes" where
  "bench_hashBlock sha b = sha (ParentHash b @ height_loop 8 (Height b) (replicate 8 0))"

definition rep_hashBlock :: "(bytes \<Rightarrow> bytes) \<Rightarrow> Block \<Rightarrow> bytes" where
  "rep_hashBlock sha b = sha (ParentHash b @ height_loop 8 (Height b) (replicate 8 0))"

lemma height_loop_be8: "height_loop 8 x (replicate 8 0) = be8 x"
  by (simp add: numeral_eq_Suc be8_def drop_bit_drop_bit [symmetric] del: drop_bit_drop_bit)
     (simp add: drop_bit_drop_bit numeral_eq_Suc)

lemma bench_hashBlock_eq: "bench_hashBlock sha b = hashBlock sha b"
  by (simp only: bench_hashBlock_def hashBlock_def height_loop_be8)

lemma rep_hashBlock_eq: "rep_hashBlock sha b = hashBlock sha b"
  by (simp only: rep_hashBlock_def hashBlock_def height_loop_be8)

text \<open>\<open>hex.EncodeToString\<close>: two lower-case digits per byte.\<close>

definition hex_digit :: "nat \<Rightarrow> char" where
  "hex_digit n = (if n < 10 then char_of (48 + n) else char_of (87 + n))"

definition hex :: "bytes \<Rightarrow> string" where
  "hex bs = concat (map (\<lambda>b. [hex_digit (unat b div 16), hex_digit (unat b mod 16)]) bs)"

lemma hex_digit_inject: "m < 16 \<Longrightarrow> n < 16 \<Longrightarrow> hex_digit m = hex_digit n \<longleftrightarrow> m = n"
proof -
  assume mn: "m < 16" "n < 16"
  have inj: "(char_of (a :: nat) :: char) = char_of b \<longleftrightarrow> a = b" if "a < 256" "b < 256" for a b
    using that by (simp add: char_of_eq_iff flip: take_bit_eq_mod) (metis char_of_eq_iff mod_less of_char_of)
  show ?thesis using mn by (auto simp: hex_digit_def inj)
qed

lemma hex_inject [simp]: "hex xs = hex ys \<longleftrightarrow> xs = ys"
proof
  show "hex xs = hex ys \<Longrightarrow> xs = ys"
  proof (induction xs arbitrary: ys)
    case Nil
    then show ?case by (cases ys) (simp_all add: hex_def)
  next
    case (Cons x xs)
    then obtain y zs where ys: "ys = y # zs" by (cases ys) (auto simp: hex_def)
    have lt: "unat b div 16 < 16" for b :: u8
    proof -
      have "unat b < 2 ^ 8" by (rule order.strict_trans2 [OF unsigned_less]) simp
      then show ?thesis by (simp add: less_mult_imp_div_less)
    qed
    from Cons.prems have "unat x div 16 = unat y div 16" "unat x mod 16 = unat y mod 16"
      and tl: "hex xs = hex zs"
      by (simp_all add: ys hex_def hex_digit_inject lt)
    then have "unat x = unat y" by (metis div_mult_mod_eq)
    with Cons.IH [OF tl] show ?case by (simp add: ys word_unat_eq_iff)
  qed
qed simp

subsection \<open>The in-memory block store\<close>

record memBlockchain =
  blocks :: "string \<Rightarrow> Block option"

definition newMemBlockchain :: memBlockchain where
  "newMemBlockchain = \<lparr>blocks = Map.empty\<rparr>"

definition put :: "(bytes \<Rightarrow> bytes) \<Rightarrow> memBlockchain \<Rightarrow> Block \<Rightarrow> memBlockchain" where
  "put sha m b = m\<lparr>blocks := (blocks m)(hex (bench_hashBlock sha b) \<mapsto> b)\<rparr>"

definition Get :: "memBlockchain \<Rightarrow> bytes \<Rightarrow> Block option" where
  "Get m hash = blocks m (hex hash)"

text \<open>\<open>repbench\<close> declares the store again, with its own hash function.\<close>

type_synonym rep_memBlockchain = memBlockchain

definition rep_newMemBlockchain :: rep_memBlockchain where
  "rep_newMemBlockchain = \<lparr>blocks = Map.empty\<rparr>"

definition rep_put :: "(bytes \<Rightarrow> bytes) \<Rightarrow> rep_memBlockchain \<Rightarrow> Block \<Rightarrow> rep_memBlockchain" where
  "rep_put sha m b = m\<lparr>blocks := (blocks m)(hex (rep_hashBlock sha b) \<mapsto> b)\<rparr>"

definition rep_Get :: "rep_memBlockchain \<Rightarrow> bytes \<Rightarrow> Block option" where
  "rep_Get m hash = blocks m (hex hash)"

lemma rep_store_eq [simp]:
  "rep_newMemBlockchain = newMemBlockchain" "rep_put sha m b = put sha m b" "rep_Get m h = Get m h"
  by (simp_all add: rep_newMemBlockchain_def newMemBlockchain_def rep_put_def put_def rep_Get_def Get_def
      rep_hashBlock_eq bench_hashBlock_eq)

text \<open>The walk of \<open>benchutil\<close>, with its cycle guard; the first argument counts the iterations left.\<close>

primrec bench_walk :: "nat \<Rightarrow> memBlockchain \<Rightarrow> string set \<Rightarrow> string \<Rightarrow> string \<Rightarrow> bool" where
  "bench_walk 0 m visited cur target = False"
| "bench_walk (Suc n) m visited cur target =
     (if cur = target then True
      else if cur \<in> visited then False
      else case blocks m cur of
             None \<Rightarrow> False
           | Some b \<Rightarrow> bench_walk n m (insert cur visited) (hex (ParentHash b)) target)"

definition bench_Extends :: "memBlockchain \<Rightarrow> bytes \<Rightarrow> bytes \<Rightarrow> bool" where
  "bench_Extends m childHash ancestorHash =
     (if childHash = ancestorHash then True
      else bench_walk 1024 m {} (hex childHash) (hex ancestorHash))"

text \<open>The walk of \<open>repbench\<close>, bounded by the iteration count alone.\<close>

primrec rep_walk :: "nat \<Rightarrow> memBlockchain \<Rightarrow> string \<Rightarrow> string \<Rightarrow> bool" where
  "rep_walk 0 m cur target = False"
| "rep_walk (Suc n) m cur target =
     (if cur = target then True
      else case blocks m cur of
             None \<Rightarrow> False
           | Some b \<Rightarrow> rep_walk n m (hex (ParentHash b)) target)"

definition rep_Extends :: "memBlockchain \<Rightarrow> bytes \<Rightarrow> bytes \<Rightarrow> bool" where
  "rep_Extends m childHash ancestorHash =
     (if childHash = ancestorHash then True
      else rep_walk 1024 m (hex childHash) (hex ancestorHash))"

subsection \<open>The cycle guard changes no answer\<close>

definition follows :: "memBlockchain \<Rightarrow> string set \<Rightarrow> string \<Rightarrow> bool" where
  "follows m V cur \<longleftrightarrow>
     (\<forall>v \<in> V. \<forall>b. blocks m v = Some b \<longrightarrow> hex (ParentHash b) \<in> insert cur V)"

lemma rep_walk_cycle:
  "follows m V cur \<Longrightarrow> cur \<in> V \<Longrightarrow> target \<notin> V \<Longrightarrow> \<not> rep_walk n m cur target"
proof (induction n arbitrary: cur)
  case (Suc n)
  have next_in: "hex (ParentHash b) \<in> V" if "blocks m cur = Some b" for b
    using Suc.prems that by (auto simp: follows_def)
  have "\<not> rep_walk n m (hex (ParentHash b)) target" if b: "blocks m cur = Some b" for b
  proof (rule Suc.IH)
    show "follows m V (hex (ParentHash b))"
      using Suc.prems next_in [OF b] by (auto simp: follows_def)
  qed (use Suc.prems next_in [OF b] in auto)
  with Suc.prems show ?case by (auto split: option.splits)
qed simp

lemma bench_walk_rep_walk:
  "follows m V cur \<Longrightarrow> target \<notin> V \<Longrightarrow> bench_walk n m V cur target = rep_walk n m cur target"
proof (induction n arbitrary: V cur)
  case (Suc n)
  consider "cur = target" | "cur \<noteq> target" "cur \<in> V" | "cur \<noteq> target" "cur \<notin> V" by blast
  then show ?case
  proof cases
    case 2
    with rep_walk_cycle [OF Suc.prems(1) _ Suc.prems(2), of "Suc n"] show ?thesis by simp
  next
    case 3
    have "bench_walk n m (insert cur V) (hex (ParentHash b)) target = rep_walk n m (hex (ParentHash b)) target"
      if "blocks m cur = Some b" for b
      using Suc.prems 3 that by (intro Suc.IH) (auto simp: follows_def)
    with 3 show ?thesis by (auto split: option.splits)
  qed simp
qed simp

lemma Extends_agree: "bench_Extends m c a = rep_Extends m c a"
  by (simp add: bench_Extends_def rep_Extends_def bench_walk_rep_walk follows_def)

subsection \<open>The store implements the reader interface\<close>

definition bench_reader :: "memBlockchain \<Rightarrow> BlockchainReader" where
  "bench_reader m = \<lparr>bc_Get = Get m, bc_Extends = bench_Extends m\<rparr>"

definition rep_reader :: "memBlockchain \<Rightarrow> BlockchainReader" where
  "rep_reader m = \<lparr>bc_Get = Get m, bc_Extends = rep_Extends m\<rparr>"

lemma rep_walk_within: "rep_walk (Suc n) m (hex h) (hex a) \<longleftrightarrow> ancestor_within n (Get m) h a"
proof (induction n arbitrary: h)
  case 0
  show ?case by (cases "blocks m (hex h)") simp_all
next
  case (Suc n)
  have "rep_walk (Suc (Suc n)) m (hex h) (hex a) \<longleftrightarrow> h = a \<or>
      (\<exists>b. Get m h = Some b \<and> rep_walk (Suc n) m (hex (ParentHash b)) (hex a))"
    by (subst rep_walk.simps) (simp add: Get_def del: rep_walk.simps split: option.splits)
  then show ?case by (auto simp: Suc.IH split: option.splits simp del: rep_walk.simps)
qed

lemma ancestor_within_refl: "ancestor_within n g h h"
  by (cases n) simp_all

lemma rep_Extends_within: "rep_Extends m h a \<longleftrightarrow> ancestor_within 1023 (Get m) h a"
proof -
  have "rep_walk 1024 m (hex h) (hex a) \<longleftrightarrow> ancestor_within 1023 (Get m) h a"
    using rep_walk_within [of 1023] by (simp del: rep_walk.simps)
  with ancestor_within_refl [of 1023 "Get m" h] show ?thesis
    by (auto simp: rep_Extends_def simp del: ancestor_within.simps rep_walk.simps)
qed

interpretation rep_store: block_store "rep_reader m" 1023
  by standard (simp_all only: rep_reader_def BlockchainReader.simps rep_Extends_within ancestor_within_sound)

interpretation bench_store: block_store "bench_reader m" 1023
  by standard (simp_all only: bench_reader_def BlockchainReader.simps Extends_agree rep_Extends_within
      ancestor_within_sound)

definition chain_ok :: "(bytes \<Rightarrow> bytes) \<Rightarrow> memBlockchain \<Rightarrow> bool" where
  "chain_ok sha m \<longleftrightarrow> (\<forall>k b. blocks m k = Some b \<longrightarrow> k = hex (hashBlock sha b))"

lemma chain_ok_put [wf_intros]: "chain_ok sha m \<Longrightarrow> chain_ok sha (put sha m b)"
  by (simp add: chain_ok_def put_def bench_hashBlock_eq)

lemma Get_hash: "chain_ok sha m \<Longrightarrow> Get m h = Some b \<Longrightarrow> hashBlock sha b = h"
  by (metis chain_ok_def Get_def hex_inject)

lemma Get_put: "Get (put sha m b) h = (if h = hashBlock sha b then Some b else Get m h)"
  by (simp add: Get_def put_def bench_hashBlock_eq)

subsection \<open>Safety state of the harnesses\<close>

record safeNodeState =
  lockedQC :: "QuorumCert option"
  genericQC :: "QuorumCert option"

definition bench_safeNode :: "safeNodeState \<Rightarrow> Block \<Rightarrow> QuorumCert option \<Rightarrow> memBlockchain \<Rightarrow> bool" where
  "bench_safeNode s node qc bc =
     (case lockedQC s of
        None \<Rightarrow> True
      | Some l \<Rightarrow>
          if qc_ViewNumber l < GetViewNumber qc then True
          else bench_Extends bc (ParentHash node) (qc_BlockHash l))"

definition rep_safeNode :: "safeNodeState \<Rightarrow> Block \<Rightarrow> QuorumCert option \<Rightarrow> memBlockchain \<Rightarrow> bool" where
  "rep_safeNode s node qc bc =
     (case lockedQC s of
        None \<Rightarrow> True
      | Some l \<Rightarrow>
          if qc_ViewNumber l < GetViewNumber qc then True
          else rep_Extends bc (ParentHash node) (qc_BlockHash l))"

lemma safeNode_agree:
  "bench_safeNode s node qc m = SafeNode \<lparr>LockedQC = lockedQC s, GenericQC = genericQC s\<rparr> node qc (bench_reader m)"
  "rep_safeNode s node qc m = bench_safeNode s node qc m"
  by (auto simp: bench_safeNode_def rep_safeNode_def SafeNode_def bench_reader_def Extends_agree
        split: option.splits)

subsection \<open>Commit windows\<close>

datatype pipelineWindow =
  Slots (slot0: "Block option") (slot1: "Block option") (slot2: "Block option") (slot3: "Block option")

definition empty_window :: pipelineWindow where
  "empty_window = Slots None None None None"

definition bench_advance :: "(bytes \<Rightarrow> bytes) \<Rightarrow> pipelineWindow \<Rightarrow> Block \<Rightarrow> pipelineWindow \<times> Block option" where
  "bench_advance sha p b =
     (let p' = Slots (slot1 p) (slot2 p) (slot3 p) (Some b) in
      (p', case slot0 p of
             None \<Rightarrow> None
           | Some candidate \<Rightarrow>
               (case (slot2 p', slot1 p', slot0 p') of
                  (Some bStar, Some bDouble, Some bPrime) \<Rightarrow>
                    if ParentHash bStar = bench_hashBlock sha bDouble
                       \<and> ParentHash bDouble = bench_hashBlock sha bPrime
                       \<and> ParentHash bPrime = bench_hashBlock sha candidate
                    then Some candidate else None
                | _ \<Rightarrow> None)))"

definition rep_reset :: "pipelineWindow \<Rightarrow> pipelineWindow" where
  "rep_reset p = Slots None None None None"

lemma rep_reset_eq [simp]: "rep_reset p = empty_window"
  by (simp add: rep_reset_def empty_window_def)

definition rep_advance :: "(bytes \<Rightarrow> bytes) \<Rightarrow> pipelineWindow \<Rightarrow> Block \<Rightarrow> pipelineWindow \<times> Block option" where
  "rep_advance sha p b =
     (let p' = Slots (slot1 p) (slot2 p) (slot3 p) (Some b) in
      (p', case slot0 p of
             None \<Rightarrow> None
           | Some candidate \<Rightarrow>
               (case (slot2 p', slot1 p', slot0 p') of
                  (Some bStar, Some bDouble, Some bPrime) \<Rightarrow>
                    if ParentHash bStar = rep_hashBlock sha bDouble
                       \<and> ParentHash bDouble = rep_hashBlock sha bPrime
                       \<and> ParentHash bPrime = rep_hashBlock sha candidate
                    then Some candidate else None
                | _ \<Rightarrow> None)))"

definition window_slots :: "pipelineWindow \<Rightarrow> Block option list" where
  "window_slots p = [slot0 p, slot1 p, slot2 p, slot3 p]"

lemma window_contract:
  "window_slots empty_window = [None, None, None, None]"
  "window_slots (fst (bench_advance h p b)) = tl (window_slots p) @ [Some b]"
  "snd (bench_advance h p b) = window_commit h (window_slots p)"
  by (simp_all add: window_slots_def empty_window_def bench_advance_def Let_def)
     (cases "slot0 p"; cases "slot1 p"; cases "slot2 p"; cases "slot3 p";
      simp add: window_commit_def extends_def bench_hashBlock_eq)

lemma rep_advance_eq: "rep_advance h p b = bench_advance h p b"
  by (simp only: rep_advance_def bench_advance_def rep_hashBlock_eq [abs_def] bench_hashBlock_eq [abs_def])

interpretation bench_pipe: commit_window h window_slots "bench_advance h" empty_window
  by standard (rule window_contract)+

interpretation rep_pipe: commit_window h window_slots "rep_advance h" empty_window
  by standard (simp_all only: rep_advance_eq window_contract)

subsection \<open>The delivery counter\<close>

record 'pk deliverCounter =
  dc_delivered :: int
  dc_configs :: "'pk ConfigStore"

definition counter_deliver :: "(bytes \<Rightarrow> 'pk ParsedKey option) \<Rightarrow> 'pk deliverCounter \<Rightarrow> Block
    \<Rightarrow> 'pk deliverCounter \<times> int" where
  "counter_deliver parsePKIX d block =
     (let n = int (length (Batch block));
          d1 = d\<lparr>dc_delivered := dc_delivered d + n\<rparr>
      in case AtNumber (dc_configs d1) (ConfNumber block) of
           Inl e \<Rightarrow> (d1, n)
         | Inr mc \<Rightarrow>
             (let memReqs = filter (\<lambda>req. rq_Type req \<noteq> RequestType_REGULAR) (Batch block) in
              if 0 < length memReqs then
                (case Apply parsePKIX mc memReqs of
                   Inl e \<Rightarrow> (d1, n)
                 | Inr newMc \<Rightarrow>
                     (case Install (dc_configs d1) newMc of
                        Inl e \<Rightarrow> (d1, n)
                      | Inr cs \<Rightarrow> (d1\<lparr>dc_configs := cs\<rparr>, n)))
              else (d1, n)))"

definition counter_total :: "'pk deliverCounter \<Rightarrow> int" where
  "counter_total d = dc_delivered d"

definition counter_reset :: "'pk deliverCounter \<Rightarrow> 'pk deliverCounter" where
  "counter_reset d = d\<lparr>dc_delivered := 0\<rparr>"

lemma counter_deliver_count:
  "counter_total (fst (counter_deliver p d b)) = counter_total d + int (length (Batch b))"
  "snd (counter_deliver p d b) = int (length (Batch b))"
  by (auto simp: counter_deliver_def counter_total_def Let_def split: sum.splits)

end
