(* ===== verification/Samples.thy ===== *)
theory Samples
  imports Replica Discovery Network Bench
begin

section \<open>A small instance of the parameters\<close>

text \<open>
  Concrete values for the parameters of the model, used to show that the hypotheses of the
  properties can hold: a committee of four replicas whose keys are their names, a hash that is
  the identity, signatures that spell out the signer's name and the bytes signed, a block
  store, and an application that counts the requests it executes.
\<close>

definition name_bytes :: "string \<Rightarrow> bytes" where
  "name_bytes s = map of_char s"

definition member :: "string \<Rightarrow> string Replica" where
  "member i = \<lparr>ID = i, Addr = i @ '':1'', PubKey = Some i\<rparr>"

definition four :: "string Committee" where
  "four = NewCommittee 0 (map member [''A'', ''B'', ''C'', ''D''])"

lemma four_simps [simp]:
  "Replicas four = [member ''A'', member ''B'', member ''C'', member ''D'']"
  "Number four = 0" "FaultCap four = 1" "QuorumSize four = 3" "Size four = 4"
  by (simp_all add: four_def QuorumSize_def Size_def fault_bound_def)

lemma member_simps [simp]:
  "ID (member i) = i" "Addr (member i) = i @ '':1''" "PubKey (member i) = Some i"
  by (simp_all add: member_def)

lemma ids_four [simp]: "ids four = [''A'', ''B'', ''C'', ''D'']"
  by (simp add: ids_def)

lemma four_valid [simp]: "committee_valid four"
  by (simp add: committee_valid_def wf_committee_def distinct_ids_def fault_bound_def)

definition idsha :: "bytes \<Rightarrow> bytes" where
  "idsha x = x"

text \<open>A verifier for \<open>ValidateQC\<close>: the signature is the name followed by the hash.\<close>

definition name_verify :: "string option \<Rightarrow> bytes \<Rightarrow> bytes \<Rightarrow> bool" where
  "name_verify pk h s \<longleftrightarrow> (case pk of None \<Rightarrow> False | Some i \<Rightarrow> s = name_bytes i @ h)"

definition sample_qc :: "string list \<Rightarrow> bytes \<Rightarrow> QuorumCert" where
  "sample_qc is h = \<lparr>qc_Type = '''', qc_ViewNumber = 1, qc_ConfNumber = 0, qc_BlockHash = h,
     qc_Signatures = map (\<lambda>i. name_bytes i @ h) is, qc_SignerIds = is\<rparr>"

definition sample_vote :: "string \<Rightarrow> bytes \<Rightarrow> VoteMsg" where
  "sample_vote i h = \<lparr>vote_ViewNumber = 1, vote_ConfNumber = 0, vote_BlockHash = h,
     vote_Signature = name_bytes i @ h, vote_SignerId = i\<rparr>"

lemma sample_vote_simps [simp]:
  "vote_SignerId (sample_vote i h) = i" "vote_BlockHash (sample_vote i h) = h"
  "vote_Signature (sample_vote i h) = name_bytes i @ h"
  "vote_ViewNumber (sample_vote i h) = 1" "vote_ConfNumber (sample_vote i h) = 0"
  by (simp_all add: sample_vote_def)

lemma sample_qc_simps [simp]:
  "qc_SignerIds (sample_qc is h) = is" "qc_BlockHash (sample_qc is h) = h"
  "qc_Signatures (sample_qc is h) = map (\<lambda>i. name_bytes i @ h) is"
  "qc_ViewNumber (sample_qc is h) = 1"
  by (simp_all add: sample_qc_def)

lemma sig_ok_four [simp]:
  "i \<in> {''A'', ''B'', ''C'', ''D''} \<Longrightarrow> sig_ok four name_verify h (i, name_bytes i @ h)"
  by (auto simp: sig_ok_def ReplicaByID_def name_verify_def)

lemma sample_qc_valid [simp]:
  "set is \<subseteq> {''A'', ''B'', ''C'', ''D''} \<Longrightarrow> distinct is \<Longrightarrow> 3 \<le> length is \<Longrightarrow>
     ValidateQC (sample_qc is h) four name_verify = None"
  by (auto simp: ValidateQC_None zip_map2 zip_same_conv_map intro!: sig_ok_four)

subsection \<open>Requests and keys\<close>

definition request :: "RequestType \<Rightarrow> string \<Rightarrow> bytes \<Rightarrow> MembershipRequest" where
  "request t i p = \<lparr>rq_Type = t, rq_ClientId = i, rq_Payload = p\<rparr>"

lemma request_simps [simp]:
  "rq_Type (request t i p) = t" "rq_ClientId (request t i p) = i" "rq_Payload (request t i p) = p"
  by (simp_all add: request_def)

text \<open>Keys are the non-empty payloads, read as names.\<close>

definition name_parse :: "bytes \<Rightarrow> string ParsedKey option" where
  "name_parse p = (if p = [] then None else Some (EcdsaKey (map (\<lambda>b. char_of (unat b)) p)))"

subsection \<open>Replicas\<close>

definition sample_sign :: "u64 \<Rightarrow> u64 \<Rightarrow> bytes \<Rightarrow> bytes option" where
  "sample_sign v c h = Some (replicate 64 0)"

definition sample_env :: "memBlockchain \<Rightarrow> (string, nat) Env" where
  "sample_env m = \<lparr>sha = idsha, parsePKIX = name_parse, execute = (\<lambda>n r. (Suc n, [])),
     signFn = sample_sign, ecdsaVerify = (\<lambda>pk dig r s. True),
     blockchain = bench_reader m, sendErr = (\<lambda>a m. False)\<rparr>"

lemma sample_env_simps [simp]:
  "sha (sample_env m) = idsha" "parsePKIX (sample_env m) = name_parse"
  "execute (sample_env m) = (\<lambda>n r. (Suc n, []))" "signFn (sample_env m) = sample_sign"
  "ecdsaVerify (sample_env m) = (\<lambda>pk dig r s. True)"
  "blockchain (sample_env m) = bench_reader m" "sendErr (sample_env m) = (\<lambda>a m. False)"
  by (simp_all add: sample_env_def)

definition sample_store :: "string ConfigStore" where
  "sample_store = NewConfigStore four (\<lambda>_. make_chan 1)"

definition sample_node :: "(string, nat) DHotStuff" where
  "sample_node = NewDHotStuff ''A'' sample_store 0 8 None"

definition sample_block :: "bytes \<Rightarrow> u64 \<Rightarrow> QuorumCert option \<Rightarrow> MembershipRequest list \<Rightarrow> Block" where
  "sample_block p h j batch = \<lparr>ParentHash = p, Batch = batch, Justify = j, Height = h, ConfNumber = 0\<rparr>"

lemma sample_block_simps [simp]:
  "ParentHash (sample_block p h j b) = p" "Height (sample_block p h j b) = h"
  "Justify (sample_block p h j b) = j" "Batch (sample_block p h j b) = b"
  "ConfNumber (sample_block p h j b) = 0"
  by (simp_all add: sample_block_def)

lemma sample_store_ok [simp]:
  "configs sample_store = [four]" "configs_ok sample_store" "Latest sample_store = Inr four"
  by (simp_all add: sample_store_def NewConfigStore_def configs_ok_def Latest_def)

lemma sample_node_simps [simp]:
  "store (deliverer sample_node) = sample_store" "curView sample_node = 0"
  "repStore sample_node = None" "outbox sample_node = []"
  "safety sample_node = \<lparr>LockedQC = None, GenericQC = None\<rparr>"
  "votesBuf sample_node = Map.empty" "newViewBuf sample_node = Map.empty"
  "delivered (deliverer sample_node) = {}" "executed (deliverer sample_node) = []"
  "pipeline sample_node = empty_pipeline" "vc sample_node = \<lparr>vc_curView = 0\<rparr>"
  "myID sample_node = ''A''" "requestQ sample_node = make_chan 8"
  by (simp_all add: sample_node_def NewDHotStuff_def NewDeliverer_def NewViewChanger_def)

lemma sample_node_ok [simp]: "replica_ok env sample_node"
  unfolding sample_node_def sample_store_def
  by (rule replica_ok_New) (simp_all add: wf_committee_def fault_bound_def)

end
