(* ===== verification/Membership_Properties.thy ===== *)
theory Membership_Properties
  imports Samples
begin

section \<open>Properties of committees, certificates and the configuration store\<close>

text \<open>
  What \<^verbatim>\<open>internal/membership\<close> and the vote aggregation of \<^verbatim>\<open>internal/crypto\<close> guarantee: quorum
  intersection and the agreement that rests on it, the exact conditions under which
  certificates are accepted and built, reconfiguration as a function on member sets, the
  thresholds, rotation, and the configuration log. Each property with hypotheses is followed
  by an instance at which they hold.
\<close>

subsection \<open>Certificates\<close>

text \<open>C1: two certificates that pass validation against the same committee have more than
  \<open>FaultCap\<close> signers in common, so at least one correct replica signed both.\<close>

theorem validated_qcs_intersect:
  assumes "committee_valid c"
    and "ValidateQC q1 c verify1 = None" "ValidateQC q2 c verify2 = None"
  shows "FaultCap c < int (card (set (qc_SignerIds q1) \<inter> set (qc_SignerIds q2)))"
proof -
  note s1 = ValidateQC_signers [OF assms(2)] and s2 = ValidateQC_signers [OF assms(3)]
  have "nat (FaultCap c) < card (set (qc_SignerIds q1) \<inter> set (qc_SignerIds q2))"
    using s1 s2 by (intro cq.quorums_intersect [OF assms(1)]) auto
  then show ?thesis by linarith
qed

theorem validated_qcs_intersect_witness:
  "FaultCap four < int (card (set (qc_SignerIds (sample_qc [''A'', ''B'', ''C''] [1]))
     \<inter> set (qc_SignerIds (sample_qc [''D'', ''B'', ''C''] [2]))))"
  by (rule validated_qcs_intersect [where ?verify1.0 = name_verify and ?verify2.0 = name_verify]) simp_all

text \<open>C2: certificates cannot conflict. If at most \<open>FaultCap\<close> members are faulty and every
  other member's key verifies signatures over a single block hash (the view and configuration
  being fixed in \<open>verify\<close>), two validated certificates certify the same block hash.\<close>

theorem validated_qcs_agree:
  assumes "committee_valid c"
    and "ValidateQC q1 c verify = None" "ValidateQC q2 c verify = None"
    and "finite B" "int (card B) \<le> FaultCap c"
    and "\<And>r h h' s s'. r \<in> set (Replicas c) \<Longrightarrow> ID r \<notin> B \<Longrightarrow>
           verify (PubKey r) h s \<Longrightarrow> verify (PubKey r) h' s' \<Longrightarrow> h = h'"
  shows "qc_BlockHash q1 = qc_BlockHash q2"
  by (rule validated_same_hash [OF assms(1-5)]) (use assms(6) in blast)

text \<open>In the instance, \<open>D\<close> is faulty and the others accept the hash \<open>[7]\<close> only.\<close>

theorem validated_qcs_agree_witness:
  "qc_BlockHash (sample_qc [''A'', ''B'', ''C''] [7]) = qc_BlockHash (sample_qc [''D'', ''B'', ''C''] [7])"
proof (rule validated_qcs_agree [where c = four and B = "{''D''}" and
      verify = "\<lambda>pk h s. name_verify pk h s \<and> (pk = Some ''D'' \<or> h = [7])"])
  have ok: "ValidateQC (sample_qc is [7]) four (\<lambda>pk h s. name_verify pk h s \<and> (pk = Some ''D'' \<or> h = [7])) = None"
    if "set is \<subseteq> {''A'', ''B'', ''C'', ''D''}" "distinct is" "3 \<le> length is" for "is"
    using sample_qc_valid [OF that, of "[7]"] by (auto simp: ValidateQC_None sig_ok_def)
  show "ValidateQC (sample_qc [''A'', ''B'', ''C''] [7]) four
      (\<lambda>pk h s. name_verify pk h s \<and> (pk = Some ''D'' \<or> h = [7])) = None"
    "ValidateQC (sample_qc [''D'', ''B'', ''C''] [7]) four
      (\<lambda>pk h s. name_verify pk h s \<and> (pk = Some ''D'' \<or> h = [7])) = None"
    by (rule ok; simp)+
qed auto

text \<open>\<open>ValidateQC\<close> accepts a certificate exactly when it has at least a quorum of
  signatures, one per identity, no identity twice, and each one verifies under the key of the
  committee member with that identity.\<close>

lemma ValidateQC_accepts_iff:
  "ValidateQC qc c verify = None \<longleftrightarrow>
     QuorumSize c \<le> int (length (qc_Signatures qc))
     \<and> length (qc_Signatures qc) = length (qc_SignerIds qc)
     \<and> distinct (qc_SignerIds qc)
     \<and> list_all (sig_ok c verify (qc_BlockHash qc)) (zip (qc_SignerIds qc) (qc_Signatures qc))"
  by (simp add: ValidateQC_None list_all_iff)

text \<open>C14: \<open>HasQuorum\<close> counts distinct signers, and \<open>CreateQC\<close> succeeds exactly when
  \<open>HasQuorum\<close> does, so the handler never meets a quorum it cannot turn into a certificate.\<close>

theorem CreateQC_iff_HasQuorum:
  assumes "0 < QuorumSize c"
  shows "((\<exists>qc. CreateQC votes c = Inr qc) \<longleftrightarrow> HasQuorum votes c) \<and>
    (HasQuorum votes c \<longleftrightarrow> QuorumSize c \<le> int (card (signers votes)))"
  using CreateQC_total [OF assms] HasQuorum_iff [OF assms] by blast

theorem CreateQC_iff_HasQuorum_witness:
  "\<not> HasQuorum [sample_vote ''A'' [1], sample_vote ''A'' [1], sample_vote ''B'' [1]] four"
  using CreateQC_iff_HasQuorum [of four "[sample_vote ''A'' [1], sample_vote ''A'' [1], sample_vote ''B'' [1]]"]
  by simp

text \<open>C13: a certificate built from votes that agree on the block hash and carry valid
  signatures passes validation.\<close>

theorem CreateQC_validates:
  assumes "committee_valid c" "CreateQC votes c = Inr qc"
    and "list_all (\<lambda>v. vote_BlockHash v = h \<and> sig_ok c verify h (vote_SignerId v, vote_Signature v)) votes"
  shows "ValidateQC qc c verify = None \<and> qc_BlockHash qc = h"
proof -
  have q: "0 < QuorumSize c" using assms(1) by (simp add: committee_valid_QuorumSize)
  have "votes \<noteq> []" using assms(2) q by (auto simp: CreateQC_def)
  then have "qc_BlockHash qc = h"
    using assms(2,3) q by (simp add: CreateQC_Inr list_all_iff)
  with CreateQC_ValidateQC [OF q assms(2), of h verify] assms(3) show ?thesis
    by (simp add: list_all_iff)
qed

theorem CreateQC_validates_witness:
  "\<exists>qc. CreateQC (map (\<lambda>i. sample_vote i [5]) [''A'', ''B'', ''A'', ''D'']) four = Inr qc \<and>
     ValidateQC qc four name_verify = None \<and> qc_BlockHash qc = [5]"
proof -
  let ?vs = "map (\<lambda>i. sample_vote i [5]) [''A'', ''B'', ''A'', ''D'']"
  have "HasQuorum ?vs four" by (simp add: HasQuorum_iff card_insert_if)
  then obtain qc where qc: "CreateQC ?vs four = Inr qc"
    using CreateQC_total [of four ?vs] by auto
  have "list_all (\<lambda>v. vote_BlockHash v = [5] \<and> sig_ok four name_verify [5] (vote_SignerId v, vote_Signature v)) ?vs"
    by simp
  from CreateQC_validates [OF four_valid qc this] qc show ?thesis by blast
qed

text \<open>\<open>CreateQC\<close> does not compare the votes it combines. Votes of a quorum of distinct
  signers yield a certificate for the block hash of the first vote, whatever the other votes
  are for.\<close>

lemma CreateQC_mixes_votes:
  assumes "0 < QuorumSize c" "distinct (map vote_SignerId votes)"
    and "QuorumSize c \<le> int (length votes)"
  shows "\<exists>qc. CreateQC votes c = Inr qc \<and> qc_BlockHash qc = vote_BlockHash (hd votes) \<and>
     qc_ViewNumber qc = vote_ViewNumber (hd votes) \<and>
     qc_SignerIds qc = map vote_SignerId (take (nat (QuorumSize c)) votes)"
proof -
  have f: "firsts votes = votes" using assms(2) by (simp add: first_by_id)
  then have q: "QuorumOf votes c = (take (nat (QuorumSize c)) votes, True)"
    using assms(1,3) by (simp add: QuorumOf_eq Let_def)
  then show ?thesis using assms(1) by (simp add: CreateQC_Inr)
qed

lemma CreateQC_mixes_votes_witness:
  "\<exists>qc. CreateQC [sample_vote ''A'' [1], sample_vote ''B'' [2], sample_vote ''C'' [3]] four = Inr qc \<and>
     qc_BlockHash qc = [1] \<and> qc_SignerIds qc = [''A'', ''B'', ''C'']"
  using CreateQC_mixes_votes [of four "[sample_vote ''A'' [1], sample_vote ''B'' [2], sample_vote ''C'' [3]]"]
  by auto

text \<open>\<open>QuorumOf\<close> and \<open>CreateQC\<close> select the same votes, the first one of each of the
  first \<open>QuorumSize\<close> signers.\<close>

lemma QuorumOf_CreateQC_agree:
  assumes "0 < QuorumSize c" "CreateQC votes c = Inr qc"
  shows "QuorumOf votes c = (take (nat (QuorumSize c)) (first_by vote_SignerId {} votes), True) \<and>
    zip (qc_SignerIds qc) (qc_Signatures qc) =
      map (\<lambda>v. (vote_SignerId v, vote_Signature v)) (fst (QuorumOf votes c))"
  using assms by (auto simp: CreateQC_Inr QuorumOf_eq Let_def zip_map_map zip_same_conv_map split: if_splits)

subsection \<open>Reconfiguration\<close>

text \<open>C21: a successful \<open>Apply\<close> refines the abstract effect of the batch on the set of
  members: it adds and removes identities as the requests say, in order, increments the
  configuration number and recomputes the fault bound.\<close>

theorem Apply_refines_members:
  assumes "Apply p c reqs = Inr c'"
  shows "set (ids c') = members_after (set (ids c)) reqs \<and> Number c' = Number c + 1 \<and>
    FaultCap c' = int (fault_bound (length (Replicas c')))"
  using Apply_members [OF assms] Apply_Number [OF assms] wf_Apply [OF assms]
  by (simp add: wf_committee_def)

theorem Apply_refines_members_witness:
  "\<exists>c'. Apply name_parse four
      [request RequestType_ADD ''E'' [69], request RequestType_REMOVE ''A'' []] = Inr c' \<and>
    set (ids c') = {''B'', ''C'', ''D'', ''E''} \<and> Number c' = 1"
proof -
  let ?reqs = "[request RequestType_ADD ''E'' [69], request RequestType_REMOVE ''A'' []]"
  have "applicable name_parse (set (ids four)) ?reqs" by (simp add: name_parse_def)
  then obtain c' where c': "Apply name_parse four ?reqs = Inr c'"
    using Apply_applicable by blast
  then show ?thesis using Apply_refines_members [OF c'] by auto
qed


text \<open>Requests that passed \<open>ValidateMembershipRequest\<close> against the committee can be
  applied, and keep the identities distinct.\<close>

lemma validated_request_applies:
  assumes "ValidateMembershipRequest p req c = None" "distinct_ids c"
    and "rq_Type req \<in> {RequestType_REGULAR, RequestType_ADD, RequestType_REMOVE}"
  shows "\<exists>c'. Apply p c [req] = Inr c' \<and> distinct_ids c'"
proof -
  have a: "applicable p (set (ids c)) [req]" "fresh_adds (set (ids c)) [req]"
    using Validate_applicable [OF assms(1,3)] by simp_all
  then obtain c' where c': "Apply p c [req] = Inr c'" using Apply_applicable by blast
  with Apply_distinct [OF c' assms(2) a(2)] show ?thesis by blast
qed

lemma validated_request_applies_witness:
  "\<exists>c'. Apply name_parse four [request RequestType_ADD ''E'' [69]] = Inr c' \<and> distinct_ids c'"
  by (rule validated_request_applies)
     (simp_all add: ValidateMembershipRequest_def kindOf_def name_parse_def distinct_ids_def)

text \<open>Without that check, adding an identity that is already a member succeeds and the new
  committee lists it twice: the fault bound and the quorum then count replicas that are not
  distinct, and only the first key is ever looked up.\<close>

lemma Apply_accepts_duplicate_member:
  assumes "rq_Type req = RequestType_ADD" "p (rq_Payload req) = Some (EcdsaKey k)"
    and "ReplicaByID c (rq_ClientId req) = Some r"
  shows "\<exists>c'. Apply p c [req] = Inr c' \<and> \<not> distinct_ids c' \<and>
    length (Replicas c') = length (Replicas c) + 1 \<and> ReplicaByID c' (rq_ClientId req) = Some r"
proof -
  let ?new = "\<lparr>ID = rq_ClientId req, Addr = '''', PubKey = Some k\<rparr>"
  have "apply_loop p (Replicas c) [req] = Inr (Replicas c @ [?new])"
    using assms(1,2) by (simp add: apply_one_def)
  then obtain c' where c': "Apply p c [req] = Inr c'" and rs: "Replicas c' = Replicas c @ [?new]"
    by (auto simp: Apply_Inr)
  have "find_replica i (rs @ ss) = Some r" if "find_replica i rs = Some r" for i rs ss
    using that by (induction rs) auto
  then have "ReplicaByID c' (rq_ClientId req) = Some r"
    using assms(3) by (simp add: ReplicaByID_def rs)
  moreover have "\<not> distinct_ids c'"
    using ReplicaByID_Some [OF assms(3)] by (force simp: distinct_ids_def ids_def rs)
  ultimately show ?thesis using c' rs by simp
qed

subsection \<open>Thresholds and rotation\<close>

text \<open>C23: the derived fault bound is the largest \<open>f\<close> with \<open>3 f + 1\<close> members, and the quorum is
  the smallest number for which two quorums share more than \<open>f\<close> members, while the members
  left after \<open>f\<close> failures still reach it.\<close>

theorem committee_thresholds:
  assumes "wf_committee c" "Replicas c \<noteq> []"
  shows "(3 * f + 1 \<le> length (Replicas c) \<longleftrightarrow> int f \<le> FaultCap c) \<and>
    (Size c + FaultCap c < 2 * q \<longleftrightarrow> QuorumSize c \<le> q) \<and>
    QuorumSize c + FaultCap c \<le> Size c"
proof -
  let ?n = "length (Replicas c)"
  have n: "0 < ?n" using assms(2) by simp
  have F: "FaultCap c = int (fault_bound ?n)" using assms(1) by (simp add: wf_committee_def)
  have Q: "QuorumSize c = int (quorum_size ?n)" by (rule QuorumSize_wf [OF assms(1)])
  have "Size c + FaultCap c < 2 * q \<longleftrightarrow> QuorumSize c \<le> q"
    unfolding QuorumSize_def Let_def Size_def F using n by (simp add: F) presburger
  moreover have "QuorumSize c + FaultCap c \<le> Size c"
    using quorum_size_available [OF n] by (simp add: Q F Size_def)
  ultimately show ?thesis using fault_bound_maximal [OF n, of f] by (simp add: F)
qed

theorem committee_thresholds_witness:
  "(3 * 1 + 1 \<le> length (Replicas four) \<longleftrightarrow> int 1 \<le> FaultCap four) \<and>
    (Size four + FaultCap four < 2 * 3 \<longleftrightarrow> QuorumSize four \<le> 3) \<and>
    QuorumSize four + FaultCap four \<le> Size four"
  by (rule committee_thresholds) (simp_all add: wf_committee_def fault_bound_def)

text \<open>C24: among the leaders of any \<open>FaultCap + 1\<close> consecutive views one is correct: rotation
  meets a correct leader within the fault bound, as long as the view counter does not wrap.\<close>

theorem rotation_meets_correct_leader:
  assumes "committee_valid c" "length (Replicas c) < 2 ^ 64"
    and "finite B" "int (card B) \<le> FaultCap c" "unat v + nat (FaultCap c) < 2 ^ 64"
  shows "\<exists>k r. int k \<le> FaultCap c \<and> Leader c (v + of_nat k) = Inr r \<and> ID r \<notin> B"
proof -
  have F: "FaultCap c = int (fault_bound (length (Replicas c)))"
    using assms(1) by (simp add: committee_valid_def wf_committee_def)
  then have "card B \<le> fault_bound (length (Replicas c))"
    "unat v + fault_bound (length (Replicas c)) < 2 ^ 64"
    using assms(4,5) by simp_all
  then have "\<exists>k \<le> fault_bound (length (Replicas c)). \<exists>r. Leader c (v + of_nat k) = Inr r \<and> ID r \<notin> B"
    using assms(1-3) by (intro rotation_reaches_honest) (simp_all add: committee_valid_def)
  then show ?thesis using F by auto
qed

theorem rotation_meets_correct_leader_witness:
  "\<exists>k r. int k \<le> FaultCap four \<and> Leader four (6 + of_nat k) = Inr r \<and> ID r \<notin> {''C''}"
  by (rule rotation_meets_correct_leader) simp_all

subsection \<open>The configuration store and the request batches\<close>

text \<open>Installing the next configuration makes it the latest, numbers it by its position,
  and leaves every lookup that succeeded before unchanged.\<close>

lemma Install_extends_log:
  assumes "configs_ok s" "Install s c = Inr s'" "length (configs s') < 2 ^ 64"
  shows "Latest s' = Inr c \<and> Number c = Number (last (configs s)) + 1 \<and> configs_ok s' \<and>
    (AtNumber s k = Inr d \<longrightarrow> AtNumber s' k = Inr d \<and> Number d = k)"
proof -
  have "length (configs s) < 2 ^ 64" using store.install_Inr [OF assms(2)] assms(3) by simp
  then show ?thesis
    using store.latest_after_install [OF assms(1,2)] store.install_successor [OF assms(1,2)]
      store.install_inv [OF assms(1,2)] store.at_number_stable [OF assms(1,3,2)]
      store.at_number_number [OF assms(1)]
    by blast
qed

lemma Install_extends_log_witness:
  "\<exists>s'. Install sample_store (four\<lparr>Number := 1\<rparr>) = Inr s' \<and> Latest s' = Inr (four\<lparr>Number := 1\<rparr>) \<and>
     AtNumber s' 0 = Inr four"
proof -
  obtain s' where s': "Install sample_store (four\<lparr>Number := 1\<rparr>) = Inr s'" and c: "configs s' = [four, four\<lparr>Number := 1\<rparr>]"
    by (simp add: Install_Inr_iff)
  have "AtNumber sample_store 0 = Inr four" by (simp add: AtNumber_def)
  then show ?thesis
    using Install_extends_log [OF _ s', of 0 four] c s' by simp
qed

text \<open>Installing notifies each subscribed channel exactly once without blocking: a channel
  with a waiting receiver or free room gets the new configuration, a full one is skipped, and
  no other channel changes.\<close>

lemma Install_notifies_once:
  assumes "Install s c = Inr s'" "distinct (subscribers s)"
  shows "chans s' a =
    (if a \<in> set (subscribers s)
     then (case chan_try_send (chans s a) c of None \<Rightarrow> chans s a | Some ch \<Rightarrow> ch) else chans s a)"
proof -
  have "chans s' = notify c (subscribers s) (chans s)" using assms(1) by (simp add: Install_Inr_iff)
  then show ?thesis using notify_other notify_once [OF assms(2)] by metis
qed

text \<open>\<open>ClassifyBatch\<close> splits a batch into the requests that are neither ADD nor REMOVE and
  those that are, keeping each part in batch order, and \<open>HasMembershipRequests\<close> says whether the
  second part is non-empty. A request of an unknown type counts as regular.\<close>

lemma ClassifyBatch_partition:
  "ClassifyBatch batch =
     (filter (\<lambda>r. rq_Type r \<noteq> RequestType_ADD \<and> rq_Type r \<noteq> RequestType_REMOVE) batch,
      filter (\<lambda>r. rq_Type r = RequestType_ADD \<or> rq_Type r = RequestType_REMOVE) batch) \<and>
   (HasMembershipRequests batch \<longleftrightarrow> snd (ClassifyBatch batch) \<noteq> [])"
  by (auto simp: ClassifyBatch_eq HasMembershipRequests_iff filter_empty_conv intro: filter_cong)

end
