(* ===== verification/Crypto_Properties.thy ===== *)
theory Crypto_Properties
  imports Samples
begin

section \<open>Properties of signatures and reputation\<close>

text \<open>
  The signature format of \<^verbatim>\<open>internal/crypto/signer.go\<close> and the scores and the selection of
  \<^verbatim>\<open>internal/reputation/store.go\<close>.
\<close>

subsection \<open>Signatures\<close>

text \<open>\<open>encodeRS\<close> turns any two integers below \<open>2 ^ 256\<close> into 64 bytes without panicking,
  and \<open>decodeRS\<close> reads the same two integers back.\<close>

lemma encodeRS_decodeRS_roundtrip:
  assumes "r < 2 ^ 256" "s < 2 ^ 256"
  shows "\<exists>sig. encodeRS r s = Inr sig \<and> length sig = signatureLen \<and> decodeRS sig = (r, s)"
proof -
  have "(256 :: nat) ^ 32 = 2 ^ 256" by simp
  with encode_decode [of r s] assms show ?thesis by (simp add: go_simps)
qed

lemma encodeRS_decodeRS_roundtrip_witness:
  "\<exists>sig. encodeRS 258 7 = Inr sig \<and> length sig = 64 \<and> decodeRS sig = (258, 7)"
  using encodeRS_decodeRS_roundtrip [of 258 7] by (simp add: go_simps)

text \<open>C31: what \<open>Sign\<close> produces, \<open>Verify\<close> accepts, for any signature scheme whose own
  verification accepts its signatures and whose integers are below the field size.\<close>

theorem Sign_Verify:
  assumes "Sign H ecdsaSign sk v c h = Inr sig"
    and "\<And>dig r s. ecdsaSign sk dig = Some (r, s) \<Longrightarrow>
           r < 2 ^ 256 \<and> s < 2 ^ 256 \<and> ev pk dig r s"
  shows "Verify H ev pk v c h sig"
proof -
  obtain r s where rs: "ecdsaSign sk (hashTuple H v c h) = Some (r, s)" and e: "encodeRS r s = Inr sig"
    using assms(1) by (auto simp: Sign_def Let_def split: option.splits sum.splits)
  then have b: "r < 2 ^ 256" "s < 2 ^ 256" "ev pk (hashTuple H v c h) r s"
    using assms(2) by blast+
  then obtain sig' where "encodeRS r s = Inr sig'" "length sig' = 64" "decodeRS sig' = (r, s)"
    using encode_decode [of r s] by auto
  with e b show ?thesis by (simp add: Verify_def Let_def go_simps)
qed

text \<open>The instance signs with the length of the digest.\<close>

theorem Sign_Verify_witness:
  "\<exists>sig. Sign idsha (\<lambda>sk dig. if length dig < 100 then Some (sk + length dig, 1) else None) 40 2 3 [9] = Inr sig \<and>
     Verify idsha (\<lambda>pk dig r s. r = pk + length dig) 40 2 3 [9] sig"
proof -
  let ?sign = "\<lambda>sk dig :: bytes. if length dig < 100 then Some (sk + length dig, 1) else None"
  have "encodeRS 57 1 = Inr (pad32 57 @ pad32 1)" by (rule encodeRS_eq) simp_all
  then have sign: "Sign idsha ?sign (40 :: nat) 2 3 [9] = Inr (pad32 57 @ pad32 1)"
    by (simp add: Sign_def hashTuple_def idsha_def Let_def)
  have "Verify idsha (\<lambda>pk dig r s. r = pk + length dig) 40 2 3 [9] (pad32 57 @ pad32 1)"
    by (rule Sign_Verify [OF sign]) (auto split: if_splits)
  with sign show ?thesis by blast
qed

text \<open>The signed digest binds the view, the configuration and the block hash: equal digests
  of two tuples are a collision of the hash function or the tuples are equal.\<close>

lemma hashTuple_binds:
  assumes "hashTuple H v c h = hashTuple H v' c' h'" "inj_on H S"
    and "{(be8 v @ be8 c) @ h, (be8 v' @ be8 c') @ h'} \<subseteq> S"
  shows "v = v' \<and> c = c' \<and> h = h'"
proof -
  have "(be8 v @ be8 c) @ h = (be8 v' @ be8 c') @ h'"
    using assms by (auto simp: hashTuple_def dest: inj_onD)
  then show ?thesis by (simp only: hashTuple_input_inject)
qed

subsection \<open>Reputation\<close>

text \<open>C32: \<open>Select\<close> answers a member of the committee with the highest score, and among those the
  one with the least identity; it answers nil exactly for an empty committee. The outcome does
  not depend on how the sort orders equal elements.\<close>

theorem Select_best_score:
  "(Select s c h = None \<longleftrightarrow> Replicas c = []) \<and>
   (Select s c h = Some r \<longrightarrow> r \<in> set (Replicas c) \<and>
      (r' \<in> set (Replicas c) \<longrightarrow>
         Score s (ID r') h < Score s (ID r) h \<or> (Score s (ID r') h = Score s (ID r) h \<and> ID r \<le> ID r')))"
  using Select_Some [of s c h r] Select_None by metis

theorem Select_best_score_witness:
  "\<exists>r. Select NewStore four 5 = Some r \<and> ID r = ''A''"
proof -
  obtain r where r: "Select NewStore four 5 = Some r"
    using Select_None [of NewStore four 5] by auto
  have same: "Score NewStore i 5 = Score NewStore j 5" for i j
    by (simp add: Score_def NewStore_def)
  have "ID r \<le> ''A''"
    using Select_best_score [of NewStore four 5 r "member ''A''"] r same [of "''A''" "ID r"] by auto
  moreover have "r \<in> set (Replicas four)"
    using Select_best_score [of NewStore four 5 r] r by blast
  ultimately show ?thesis using r by auto
qed

text \<open>Scores stay between zero and the score of a replica without a record, in rounded
  double-precision arithmetic, as long as a leader has not more commits than rounds.\<close>

lemma Score_within_bounds:
  assumes "0 \<le> alpha s" "0 \<le> beta s" "CommittedAsLeader (Stats s i) \<le> RoundsAsLeader (Stats s i)"
  shows "0 \<le> Score s i h \<and> Score s i h \<le> fadd (fmul (alpha s) 1) (fmul (beta s) 1)"
  using Score_bounds [OF assms] by blast

lemma Score_within_bounds_witness:
  "0 \<le> Score (RecordLeaderRound (NewStore\<lparr>alpha := 1, beta := 1\<rparr>) ''A'') ''A'' 10"
proof -
  have "CommittedAsLeader (Stats (RecordLeaderRound (NewStore\<lparr>alpha := 1, beta := 1\<rparr>) ''A'') ''A'')
      \<le> RoundsAsLeader (Stats (RecordLeaderRound (NewStore\<lparr>alpha := 1, beta := 1\<rparr>) ''A'') ''A'')"
    by (simp add: Stats_def record_stats NewStore_def zero_stats_def)
  then show ?thesis
    using Score_within_bounds [of "RecordLeaderRound (NewStore\<lparr>alpha := 1, beta := 1\<rparr>) ''A''" "''A''" 10]
    by simp
qed

text \<open>Recording a timeout changes no score, hence no selection: a leader that only times out
  keeps the rank it had.\<close>

lemma timeouts_change_no_selection:
  "Score (RecordTimeout s i) j h = Score s j h \<and> Select (RecordTimeout s i) c h = Select s c h \<and>
   Timeouts (Stats (RecordTimeout s i) i) = Timeouts (Stats s i) + 1"
  by (simp add: Score_RecordTimeout Stats_Timeout Select_def)

end
