(* ===== verification/Consensus_Properties.thy ===== *)
theory Consensus_Properties
  imports Samples
begin

section \<open>Properties of the consensus core\<close>

text \<open>
  The commit pipeline, delivery, the safety rule over the repository's block store, view
  changes, and the handlers of a replica in \<^verbatim>\<open>internal/consensus\<close>.
\<close>

subsection \<open>Commits\<close>

text \<open>C4: over any sequence of proposed blocks, the answer to push \<open>k\<close> is block \<open>k - 4\<close> exactly
  when blocks \<open>k - 4\<close> to \<open>k - 1\<close> form a chain of parent links: commits follow the order of the
  proposals, four pushes late, and nothing else is ever committed.\<close>

theorem pipeline_commits_chains:
  assumes "k < length bs"
  shows "snd (feed (Advance h) empty_pipeline bs) ! k =
    (if 4 \<le> k \<and> chained h (rev (take 4 (drop (k - 4) bs))) then Some (bs ! (k - 4)) else None)"
  using pipe.feed_outputs [OF assms] by (simp add: pipe.committed_at_def)

theorem pipeline_commits_chains_witness:
  "snd (feed (Advance idsha) empty_pipeline
      [sample_block [] 0 None [], sample_block (be8 0) 1 None [],
       sample_block (be8 0 @ be8 1) 2 None [], sample_block ((be8 0 @ be8 1) @ be8 2) 3 None [],
       sample_block [] 4 None []]) ! 4 = Some (sample_block [] 0 None [])"
  using pipeline_commits_chains [of 4 "[sample_block [] 0 None [], sample_block (be8 0) 1 None [],
       sample_block (be8 0 @ be8 1) 2 None [], sample_block ((be8 0 @ be8 1) @ be8 2) 3 None [],
       sample_block [] 4 None []]" idsha]
  by (simp add: extends_def hashBlock_def idsha_def numeral_eq_Suc)

text \<open>Two three-chains whose newest blocks have the same hash commit the same position: all
  four blocks agree in parent hash and height, unless the hash function collides on them.\<close>

lemma three_chains_agree:
  assumes "CheckThreeChain h b3 b2 b1 b0" "CheckThreeChain h c3 c2 c1 c0"
    and "hashBlock h b3 = hashBlock h c3"
    and "collision_free h {b3, b2, b1, b0, c3, c2, c1, c0}"
  shows "hashBlock h b0 = hashBlock h c0 \<and> Height b0 = Height c0 \<and> ParentHash b0 = ParentHash c0"
proof -
  have "{b3, b2, b1, b0, c3, c2, c1, c0} = set [b3, b2, b1, b0] \<union> set [c3, c2, c1, c0]" by auto
  with assms have "map ParentHash [b3, b2, b1, b0] = map ParentHash [c3, c2, c1, c0] \<and>
      map Height [b3, b2, b1, b0] = map Height [c3, c2, c1, c0]"
    by (intro chained_unique [where sha = h]) (simp_all add: CheckThreeChain_chained)
  then show ?thesis by (auto intro: hashBlock_cong)
qed

lemma three_chains_agree_witness:
  "\<exists>b c. b \<noteq> c \<and> hashBlock idsha b = hashBlock idsha c \<and> Height b = Height c \<and> ParentHash b = ParentHash c"
proof -
  let ?b = "\<lambda>n. sample_block (concat (map be8 (map of_nat [0..<n]))) (of_nat n) None []"
  let ?c = "sample_block [] 0 None [request 0 ''x'' []]"
  have h: "hashBlock idsha (?b 0) = be8 0" "hashBlock idsha (?b 1) = be8 0 @ be8 1"
    "hashBlock idsha (?b 2) = (be8 0 @ be8 1) @ be8 2" "hashBlock idsha ?c = be8 0"
    by (simp_all add: hashBlock_def idsha_def upt_rec)
  have p: "ParentHash (?b 1) = be8 0" "ParentHash (?b 2) = be8 0 @ be8 1"
    "ParentHash (?b 3) = (be8 0 @ be8 1) @ be8 2" by (simp_all add: upt_rec)
  have chains: "CheckThreeChain idsha (?b 3) (?b 2) (?b 1) (?b 0)" "CheckThreeChain idsha (?b 3) (?b 2) (?b 1) ?c"
    by (simp_all only: CheckThreeChain_def h p simp_thms)
  have free: "collision_free idsha S" for S
    unfolding collision_free_def idsha_def by (rule inj_onI)
  from three_chains_agree [OF chains refl free] show ?thesis
    by (intro exI [of _ "?b 0"] exI [of _ ?c]) (simp add: sample_block_def)
qed

subsection \<open>Delivery\<close>

text \<open>C10: when all deliveries of a sequence succeed, the application has executed the regular
  requests of the first block of each new hash, in order, exactly once, and every block hash of
  the sequence counts as delivered.\<close>

theorem deliver_exactly_once:
  assumes "deliver_all h p x bs d = (d', errs)" "set errs \<subseteq> {None}"
  shows "executed d' = executed d @
      concat (map (\<lambda>b. filter is_regular (Batch b)) (first_by (hashBlock h) (delivered d) bs)) \<and>
    delivered d' = delivered d \<union> hashBlock h ` set bs"
  by (rule deliver_all_executed [OF assms])

theorem deliver_exactly_once_witness:
  "executed (fst (deliver_all idsha name_parse (\<lambda>n r. (Suc n, []))
      [sample_block [] 0 None [request 0 ''x'' []], sample_block [] 0 None [request 0 ''x'' []],
       sample_block [] 1 None [request 0 ''y'' []]] (deliverer sample_node)))
    = [request 0 ''x'' [], request 0 ''y'' []]"
proof -
  let ?bs = "[sample_block [] 0 None [request 0 ''x'' []], sample_block [] 0 None [request 0 ''x'' []],
       sample_block [] 1 None [request 0 ''y'' []]]"
  obtain d' errs where d: "deliver_all idsha name_parse (\<lambda>n r. (Suc n, [])) ?bs (deliverer sample_node) = (d', errs)"
    by (cases "deliver_all idsha name_parse (\<lambda>n r. (Suc n, [])) ?bs (deliverer sample_node)")
  have "set errs \<subseteq> {None}"
    using d by (auto simp: Deliver_def Let_def ClassifyBatch_eq AtNumber_def go_simps split: prod.splits if_splits)
  from deliver_exactly_once [OF d this] d show ?thesis
    by (simp add: hashBlock_def idsha_def go_simps)
qed

text \<open>The block hash covers the parent and the height only. Once a block is delivered,
  delivering another block with the same parent and height, whatever its batch, does nothing
  and reports success.\<close>

lemma conflicting_batch_dropped:
  assumes "Deliver h p x b d = (d1, None)"
    and "ParentHash b' = ParentHash b" "Height b' = Height b"
  shows "Deliver h p x b' d1 = (d1, None)"
proof -
  have "hashBlock h b' \<in> delivered d1"
    using Deliver_success [OF assms(1)] hashBlock_cong [OF assms(2,3), of h] by simp
  then show ?thesis by (rule Deliver_duplicate)
qed

lemma conflicting_batch_dropped_witness:
  "\<exists>d1. Deliver idsha name_parse (\<lambda>n r. (Suc n, [])) (sample_block [] 0 None [request 0 ''x'' []])
      (deliverer sample_node) = (d1, None) \<and>
    Deliver idsha name_parse (\<lambda>n r. (Suc n, [])) (sample_block [] 0 None [request 0 ''y'' []]) d1 = (d1, None)"
proof -
  have "\<exists>d1. Deliver idsha name_parse (\<lambda>n r. (Suc n, [])) (sample_block [] 0 None [request 0 ''x'' []])
      (deliverer sample_node) = (d1, None)"
    by (simp add: Deliver_def Let_def ClassifyBatch_eq AtNumber_def go_simps)
  then obtain d1 where d1: "Deliver idsha name_parse (\<lambda>n r. (Suc n, [])) (sample_block [] 0 None [request 0 ''x'' []])
      (deliverer sample_node) = (d1, None)" by blast
  from conflicting_batch_dropped [OF d1] d1 show ?thesis by simp
qed

text \<open>C39: a block with membership requests that names an older configuration than the latest can
  never be delivered successfully, yet every attempt executes its regular requests again.\<close>

theorem stale_reconfiguration_reexecutes:
  assumes "configs_ok (store d)" "length (configs (store d)) < 2 ^ 64"
    and "unat (ConfNumber b) + 1 < length (configs (store d))"
    and "HasMembershipRequests (Batch b)" "hashBlock h b \<notin> delivered d"
    and "Deliver h p x b d = (d1, e1)" "Deliver h p x b d1 = (d2, e2)"
  shows "e1 \<noteq> None \<and> e2 \<noteq> None \<and>
    executed d2 = executed d @ filter is_regular (Batch b) @ filter is_regular (Batch b)"
proof -
  have one: "e1 \<noteq> None" "executed d1 = executed d @ filter is_regular (Batch b)" "delivered d1 = delivered d"
    using Deliver_stale_reconfiguration [OF assms(1-5), of p x] assms(6) by auto
  then have st: "store d1 = store d" using Deliver_failure assms(6) by (metis not_None_eq)
  have "e2 \<noteq> None" "executed d2 = executed d1 @ filter is_regular (Batch b)"
    using Deliver_stale_reconfiguration [of d1 b h p x] assms one st by auto
  with one show ?thesis by simp
qed

theorem stale_reconfiguration_reexecutes_witness:
  "\<exists>d d2. executed (d :: (string, nat) Deliverer) = [] \<and> executed d2 = [request 0 ''x'' [], request 0 ''x'' []] \<and>
     (\<exists>d1 e1 e2. Deliver idsha name_parse (\<lambda>n r. (Suc n, []))
        (sample_block [] 0 None [request 0 ''x'' [], request 2 ''A'' []]) d = (d1, e1) \<and>
      Deliver idsha name_parse (\<lambda>n r. (Suc n, []))
        (sample_block [] 0 None [request 0 ''x'' [], request 2 ''A'' []]) d1 = (d2, e2))"
proof -
  let ?b = "sample_block [] 0 None [request 0 ''x'' [], request 2 ''A'' []]"
  let ?d = "(deliverer sample_node)\<lparr>store := sample_store\<lparr>configs := [four, four\<lparr>Number := 1\<rparr>]\<rparr>\<rparr>"
  obtain d1 e1 where 1: "Deliver idsha name_parse (\<lambda>n r. (Suc n, [])) ?b ?d = (d1, e1)"
    by (cases "Deliver idsha name_parse (\<lambda>n r. (Suc n, [])) ?b ?d")
  obtain d2 e2 where 2: "Deliver idsha name_parse (\<lambda>n r. (Suc n, [])) ?b d1 = (d2, e2)"
    by (cases "Deliver idsha name_parse (\<lambda>n r. (Suc n, [])) ?b d1")
  have "configs_ok (store ?d)" by (simp add: configs_ok_def nth_Cons split: nat.splits)
  from stale_reconfiguration_reexecutes [OF this _ _ _ _ 1 2] 1 2 show ?thesis
    by (intro exI [of _ ?d] exI [of _ d2]) (auto simp: go_simps)
qed

subsection \<open>The safety rule over the block store\<close>

text \<open>C25: with the in-memory block store as the reader, a proposal that the safety rule admits
  without a newer certificate has the locked block among its ancestors in the store.\<close>

theorem SafeNode_extends_lock:
  assumes "SafeNode s b qc (bench_reader m)" "LockedQC s = Some l"
    and "GetViewNumber qc \<le> qc_ViewNumber l"
  shows "ancestor (Get m) (ParentHash b) (qc_BlockHash l)"
  using bench_store.SafeNode_locked [OF assms] by (simp add: bench_reader_def)

theorem SafeNode_extends_lock_witness:
  "ancestor (Get (put idsha newMemBlockchain (sample_block [] 0 None []))) (be8 0) []"
proof -
  let ?m = "put idsha newMemBlockchain (sample_block [] 0 None [])"
  let ?s = "\<lparr>LockedQC = Some (sample_qc [] []), GenericQC = None\<rparr>"
  have g: "Get ?m (be8 0) = Some (sample_block [] 0 None [])"
    by (simp add: Get_put hashBlock_def idsha_def)
  have "ancestor_within 1023 (Get ?m) (be8 0) []"
    by (simp only: numeral_eq_Suc, simp only: ancestor_within.simps, simp add: g ancestor_within_refl)
  then have "SafeNode ?s (sample_block (be8 0) 1 None []) None (bench_reader ?m)"
    by (intro bench_store.SafeNode_accepts [where l = "sample_qc [] []"]) (simp_all add: bench_reader_def)
  from SafeNode_extends_lock [OF this] show ?thesis by simp
qed

text \<open>The two implementations of \<open>Extends\<close>, with and without a cycle guard, answer alike,
  and both decide ancestry up to 1023 links.\<close>

lemma Extends_implementations_agree:
  "bench_Extends m child anc = rep_Extends m child anc \<and>
   bench_Extends m child anc = ancestor_within 1023 (Get m) child anc"
  by (simp only: Extends_agree rep_Extends_within simp_thms)

subsection \<open>Handling proposals\<close>

lemma HandlePropose_voted:
  assumes "HandlePropose env b d = Inr d'" "Latest (store (deliverer d)) = Inr mc"
    and "ConfNumber b \<le> Number mc" "vote_part env mc b d = Inr (Some d1)"
    and "bd = certified env (Justify b)"
    and "bp = (case bd of None \<Rightarrow> None | Some q \<Rightarrow> certified env (Justify q))"
  obtains bb d2 where "three_chain_part env mc b bd bp bb (chain_updates env b bd bp d1) = Inr d2"
    "d' = pipeline_part env b d2"
  using assms(1,2,4-6) leD [OF assms(3)] by (auto simp: HandlePropose_def Let_def split: sum.splits)

lemma HandlePropose_vote:
  assumes "HandlePropose env b d = Inr d'" "Latest (store (deliverer d)) = Inr mc"
    and "ConfNumber b \<le> Number mc" "SafeNode (safety d) b (Justify b) (blockchain env)"
    and "signFn env (ConfNumber b) (Number mc) (hashBlock (sha env) b) = Some sig"
  shows "\<exists>leader. leader_deref (selectLeader mc d) = Inr leader \<and>
    outbox d' = outbox d @ [SendTo (Addr leader) (Vote \<lparr>vote_ViewNumber = curView d,
      vote_ConfNumber = Number mc, vote_BlockHash = hashBlock (sha env) b, vote_Signature = sig,
      vote_SignerId = myID d\<rparr>)]"
proof -
  have "\<exists>leader. leader_deref (selectLeader mc d) = Inr leader"
  proof (cases "leader_deref (selectLeader mc d)")
    case (Inl e)
    then have "vote_part env mc b d = Inl e" using assms(4,5) by (simp add: vote_part_def Let_def)
    with assms(1,2) leD [OF assms(3)] show ?thesis by (simp add: HandlePropose_def Let_def)
  qed blast
  then obtain leader where l: "leader_deref (selectLeader mc d) = Inr leader" by blast
  let ?d1 = "d\<lparr>outbox := outbox d @ [SendTo (Addr leader) (Vote \<lparr>vote_ViewNumber = curView d,
      vote_ConfNumber = Number mc, vote_BlockHash = hashBlock (sha env) b, vote_Signature = sig,
      vote_SignerId = myID d\<rparr>)]\<rparr>"
  have v: "vote_part env mc b d = Inr (Some ?d1)"
    using assms(4,5) l by (simp add: vote_part_def Let_def)
  from HandlePropose_voted [OF assms(1-3) v refl refl] obtain bd bp bb d2
    where t: "three_chain_part env mc b bd bp bb (chain_updates env b bd bp ?d1) = Inr d2"
      and d': "d' = pipeline_part env b d2" by metis
  have "outbox d' = outbox (chain_updates env b bd bp ?d1)"
    using three_chain_frame [OF t] by (simp only: d' pipeline_part_frame)
  then have "outbox d' = outbox ?d1" by (simp only: chain_updates_frame)
  with l show ?thesis by simp
qed

lemma sample_propose:
  "\<exists>d. HandlePropose (sample_env newMemBlockchain) (sample_block p 0 None batch) sample_node = Inr d \<and>
     deliverer d = deliverer sample_node \<and> safety d = safety sample_node \<and> repStore d = None \<and>
     pipeline d = fst (Advance idsha empty_pipeline (sample_block p 0 None batch)) \<and> curView d = 0"
  by (simp add: HandlePropose_def certified_def vote_part_def SafeNode_def sample_sign_def Let_def
      selectLeader_def Leader_def leader_deref_def chain_updates_def three_chain_part_def
      pipeline_part_def Advance_def empty_pipeline_def)

text \<open>A replica keeps no record of the views it voted in. Two proposals handled one after
  the other in one view both get its vote, so one replica signs two different blocks for the same
  view.\<close>

lemma HandlePropose_votes_twice:
  assumes "HandlePropose env b d = Inr d1" "HandlePropose env b' d1 = Inr d2"
    and "Latest (store (deliverer d)) = Inr mc" "Latest (store (deliverer d1)) = Inr mc'"
    and "ConfNumber b \<le> Number mc" "ConfNumber b' \<le> Number mc'"
    and "SafeNode (safety d) b (Justify b) (blockchain env)"
    and "SafeNode (safety d1) b' (Justify b') (blockchain env)"
    and "signFn env (ConfNumber b) (Number mc) (hashBlock (sha env) b) = Some sig"
    and "signFn env (ConfNumber b') (Number mc') (hashBlock (sha env) b') = Some sig'"
  shows "\<exists>l l' v v'. outbox d2 = outbox d @ [SendTo l (Vote v), SendTo l' (Vote v')] \<and>
    vote_ViewNumber v = curView d \<and> vote_ViewNumber v' = curView d \<and>
    vote_BlockHash v = hashBlock (sha env) b \<and> vote_BlockHash v' = hashBlock (sha env) b'"
proof -
  obtain l where "outbox d1 = outbox d @ [SendTo l (Vote \<lparr>vote_ViewNumber = curView d,
      vote_ConfNumber = Number mc, vote_BlockHash = hashBlock (sha env) b, vote_Signature = sig,
      vote_SignerId = myID d\<rparr>)]"
    using HandlePropose_vote [OF assms(1,3,5,7,9)] by auto
  moreover obtain l' where "outbox d2 = outbox d1 @ [SendTo l' (Vote \<lparr>vote_ViewNumber = curView d1,
      vote_ConfNumber = Number mc', vote_BlockHash = hashBlock (sha env) b', vote_Signature = sig',
      vote_SignerId = myID d1\<rparr>)]"
    using HandlePropose_vote [OF assms(2,4,6,8,10)] by auto
  moreover have "curView d1 = curView d" by (rule HandlePropose_frame [OF assms(1)])
  ultimately show ?thesis by fastforce
qed

lemma HandlePropose_votes_twice_witness:
  "\<exists>d1 d2 l l' v v'. HandlePropose (sample_env newMemBlockchain) (sample_block [7] 0 None []) sample_node = Inr d1 \<and>
     HandlePropose (sample_env newMemBlockchain) (sample_block [8] 0 None []) d1 = Inr d2 \<and>
     outbox d2 = [SendTo l (Vote v), SendTo l' (Vote v')] \<and> vote_ViewNumber v = vote_ViewNumber v' \<and>
     vote_BlockHash v \<noteq> vote_BlockHash v'"
proof -
  let ?b = "\<lambda>p. sample_block p 0 None []" and ?e = "sample_env newMemBlockchain"
  obtain d1 where d1: "HandlePropose ?e (?b [7]) sample_node = Inr d1"
    "deliverer d1 = deliverer sample_node" "safety d1 = safety sample_node" "repStore d1 = None"
    "pipeline d1 = fst (Advance idsha empty_pipeline (?b [7]))" "curView d1 = 0"
    using sample_propose by blast
  have "\<exists>d2. HandlePropose ?e (?b [8]) d1 = Inr d2"
    by (simp add: HandlePropose_def certified_def vote_part_def SafeNode_def sample_sign_def Let_def
      selectLeader_def Leader_def leader_deref_def chain_updates_def three_chain_part_def d1)
  then obtain d2 where d2: "HandlePropose ?e (?b [8]) d1 = Inr d2" by blast
  show ?thesis
    using HandlePropose_votes_twice [OF d1(1) d2, of four four "replicate 64 0" "replicate 64 0"] d1 d2
    by (force simp: SafeNode_def sample_sign_def hashBlock_def idsha_def)
qed

text \<open>C38: the chain updates do not depend on the safety rule. A proposal that the rule rejects
  gets no vote, but when its parent links are in place it still replaces the locked certificate
  by that of its parent, even by an older one.\<close>

theorem rejected_proposal_moves_lock:
  assumes "HandlePropose env b d = Inr d'" "Latest (store (deliverer d)) = Inr mc"
    and "ConfNumber b \<le> Number mc" "\<not> SafeNode (safety d) b (Justify b) (blockchain env)"
    and "certified env (Justify b) = Some bd" "certified env (Justify bd) = Some bp"
    and "ParentHash b = hashBlock (sha env) bd" "ParentHash bd = hashBlock (sha env) bp"
  shows "outbox d' = outbox d \<and> LockedQC (safety d') = Justify bd \<and> GenericQC (safety d') = Justify b"
proof -
  have v: "vote_part env mc b d = Inr (Some d)" using assms(4) by (simp add: vote_part_def)
  from HandlePropose_voted [OF assms(1-3) v refl refl] obtain bb d2
    where t: "three_chain_part env mc b (Some bd) (Some bp) bb (chain_updates env b (Some bd) (Some bp) d) = Inr d2"
      and d': "d' = pipeline_part env b d2" by (metis assms(5,6) option.simps(5))
  have "safety d' = safety (chain_updates env b (Some bd) (Some bp) d)"
    "outbox d' = outbox (chain_updates env b (Some bd) (Some bp) d)"
    using three_chain_frame [OF t] by (simp_all only: d' pipeline_part_frame)
  then show ?thesis
    using assms(7,8) by (simp add: chain_updates_def UpdateOnOneChain_def UpdateOnTwoChain_def)
qed

text \<open>In the instance the replica is locked by a certificate of view 9 and ends up locked by one of
  view 1.\<close>

theorem rejected_proposal_moves_lock_witness:
  "\<exists>m b d'. HandlePropose (sample_env m) b
       (sample_node\<lparr>safety := \<lparr>LockedQC = Some ((sample_qc [] [99])\<lparr>qc_ViewNumber := 9\<rparr>), GenericQC = None\<rparr>\<rparr>) = Inr d' \<and>
     outbox d' = [] \<and> LockedQC (safety d') = Some (sample_qc [] (be8 0))"
proof -
  let ?b0 = "sample_block [] 0 None []"
  let ?b1 = "sample_block (be8 0) 1 (Some (sample_qc [] (be8 0))) []"
  let ?b2 = "sample_block (be8 0 @ be8 1) 2 (Some (sample_qc [] (be8 0 @ be8 1))) []"
  let ?m = "put idsha (put idsha newMemBlockchain ?b0) ?b1"
  let ?d = "sample_node\<lparr>safety := \<lparr>LockedQC = Some ((sample_qc [] [99])\<lparr>qc_ViewNumber := 9\<rparr>), GenericQC = None\<rparr>\<rparr>"
  have ne: "be8 x \<noteq> []" for x using length_be8 [of x] by force
  have g0: "Get ?m (be8 0) = Some ?b0" and g1: "Get ?m (be8 0 @ be8 1) = Some ?b1"
    by (simp_all add: Get_put hashBlock_def idsha_def ne)
  have c1: "certified (sample_env ?m) (Justify ?b2) = Some ?b1"
    and c0: "certified (sample_env ?m) (Justify ?b1) = Some ?b0"
    by (simp_all add: certified_def bench_reader_def g0 g1)
  have empty_store: "Get newMemBlockchain h = None" for h by (simp add: Get_def newMemBlockchain_def)
  have parents: "ParentHash blk \<in> {be8 0, []}" if "Get ?m h = Some blk" for h blk
    using that unfolding Get_put empty_store by (auto split: if_splits)
  have len: "be8 0 @ be8 1 \<noteq> [99]" "be8 0 \<noteq> [99]"
    by (rule notI, drule arg_cong [where f = length], simp)+
  have "\<not> ancestor (Get ?m) h [99]" if "h \<in> {be8 0 @ be8 1, be8 0, []}" for h
  proof
    assume "ancestor (Get ?m) h [99]"
    then show False using that
    proof (induction h "[99] :: bytes" rule: ancestor.induct)
      case ancestor_refl
      with len show False by auto
    next
      case (ancestor_step h blk)
      with parents [OF ancestor_step(1)] show False by blast
    qed
  qed
  then have "\<not> bench_Extends ?m (be8 0 @ be8 1) [99]"
    using bench_store.extends_sound by (auto simp: bench_reader_def)
  then have unsafe: "\<not> SafeNode (safety ?d) ?b2 (Justify ?b2) (blockchain (sample_env ?m))"
    by (simp add: SafeNode_def bench_reader_def)
  have "\<exists>d'. HandlePropose (sample_env ?m) ?b2 ?d = Inr d'"
    using unsafe c0 c1
    by (simp add: HandlePropose_def vote_part_def three_chain_part_def Let_def certified_def [of _ None])
  then obtain d' where d': "HandlePropose (sample_env ?m) ?b2 ?d = Inr d'" by blast
  have "outbox d' = [] \<and> LockedQC (safety d') = Some (sample_qc [] (be8 0))"
    using rejected_proposal_moves_lock [OF d' _ _ unsafe c1 c0] by (simp add: hashBlock_def idsha_def)
  with d' show ?thesis by blast
qed

subsection \<open>Handling votes\<close>


lemma sample_votes_quorum:
  "\<exists>d'. HandleVote (sample_env newMemBlockchain) ((sample_vote ''C'' [5])\<lparr>vote_Signature := replicate 64 0\<rparr>)
      (sample_node\<lparr>votesBuf := [1 \<mapsto> map (\<lambda>i. (sample_vote i [5])\<lparr>vote_Signature := replicate 64 0\<rparr>) [''A'', ''B'']]\<rparr>) = Inr d' \<and>
    outbox d' \<noteq> [] \<and> curView d' = 1 \<and> vc d' = \<lparr>vc_curView = 0\<rparr>"
proof -
  let ?v = "\<lambda>i. (sample_vote i [5])\<lparr>vote_Signature := replicate 64 0\<rparr>"
  let ?vs = "map ?v [''A'', ''B'', ''C'']"
  have hq: "HasQuorum ?vs four" by (simp add: HasQuorum_iff card_insert_if)
  then obtain qc where "CreateQC ?vs four = Inr qc" using CreateQC_total [of four ?vs] by auto
  with hq show ?thesis
    by (simp add: HandleVote_def ReplicaByID_def Verify_def Let_def go_simps buffered_def AggregateVotes_def
        propose_def record_round_def selectLeader_def Leader_def drain_eq split_def)
qed



subsection \<open>Views\<close>

text \<open>The replica and its view changer count views separately, and a timeout copies the
  view changer's count. A timeout that follows an advance by votes therefore leaves the view
  where it was: the time-out does not rotate the leader.\<close>

lemma timeout_after_votes_stalls:
  assumes "curView d = vc_curView (vc d)"
    and "HandleVote env v d = Inr d1" "outbox d1 \<noteq> outbox d"
    and "HandleTimeout env cx d1 = Inr d2"
  shows "curView d1 = curView d + 1 \<and> curView d2 = curView d1"
proof -
  from assms(2) have one: "curView d1 = curView d + 1 \<and> vc d1 = vc d"
  proof (cases rule: HandleVote_cases)
    case (3 mc r pk qc)
    from 3(7) show ?thesis by (rule propose_eq) simp
  qed (use assms(3) in simp_all)
  from assms(4) obtain w e1 e2 where b: "timeout_begin d1 = Inr (w, e1)" and c: "timeout_change env cx e1 = Inr e2"
    and d2: "d2 = timeout_end w e2"
    by (auto simp: HandleTimeout_def split: sum.splits)
  have "curView d2 = vc_curView (vc d1) + 1"
    using timeout_begin_frame [OF b] timeout_change_frame [OF c] by (simp add: d2 timeout_end_def CurView_def)
  with one assms(1) show ?thesis by simp
qed

lemma timeout_after_votes_stalls_witness:
  "\<exists>d1 d2. HandleVote (sample_env newMemBlockchain) ((sample_vote ''C'' [5])\<lparr>vote_Signature := replicate 64 0\<rparr>)
      (sample_node\<lparr>votesBuf := [1 \<mapsto> map (\<lambda>i. (sample_vote i [5])\<lparr>vote_Signature := replicate 64 0\<rparr>) [''A'', ''B'']]\<rparr>) = Inr d1 \<and>
    HandleTimeout (sample_env newMemBlockchain) False d1 = Inr d2 \<and> curView d1 = 1 \<and> curView d2 = 1"
proof -
  let ?d = "sample_node\<lparr>votesBuf := [1 \<mapsto> map (\<lambda>i. (sample_vote i [5])\<lparr>vote_Signature := replicate 64 0\<rparr>) [''A'', ''B'']]\<rparr>"
  let ?v = "(sample_vote ''C'' [5])\<lparr>vote_Signature := replicate 64 0\<rparr>" and ?e = "sample_env newMemBlockchain"
  obtain d1 where d1: "HandleVote ?e ?v ?d = Inr d1" "outbox d1 \<noteq> []" using sample_votes_quorum by blast
  have st: "store (deliverer d1) = sample_store" using handler_deliverer(1) [OF d1(1)] by simp
  have "\<exists>d2. HandleTimeout ?e False d1 = Inr d2"
    by (auto simp: HandleTimeout_def timeout_begin_def timeout_change_def OnTimeout_def st Let_def
        leader_deref_def selectLeader_def Leader_def Select_def split: option.splits list.splits)
  then obtain d2 where d2: "HandleTimeout ?e False d1 = Inr d2" by blast
  from timeout_after_votes_stalls [OF _ d1(1) _ d2] d1 d2 show ?thesis by simp
qed

text \<open>The certificate a new leader adopts from the view-change messages is one of those
  carried, with the highest view number among them; it is nil exactly when no message carries
  one.\<close>

lemma highestViewQC_is_highest:
  "(highestViewQC msgs = None \<longleftrightarrow> carried msgs = {}) \<and>
   (highestViewQC msgs = Some qc \<longrightarrow> qc \<in> carried msgs \<and>
      (q \<in> carried msgs \<longrightarrow> qc_ViewNumber q \<le> qc_ViewNumber qc))"
  using highestViewQC_eq [of msgs] by blast

text \<open>View-change messages carry no sender and are counted, not compared. As many copies of
  one message as a quorum make the replica propose: one sender can stand in for the quorum.\<close>

lemma repeated_new_view_proposes:
  assumes "HandleNewView env m d = Inr d'" "Latest (store (deliverer d)) = Inr mc"
    and "newViewBuf d (nv_ViewNumber m) = Some (replicate n m)" "QuorumSize mc \<le> int n + 1"
  shows "\<exists>blk. outbox d' = outbox d @ [Broadcast mc (BlockMsg blk)] \<and> newViewBuf d' (nv_ViewNumber m) = None"
proof -
  let ?ms = "replicate n m @ [m]"
  let ?d2 = "d\<lparr>newViewBuf := (newViewBuf d)(nv_ViewNumber m := None)\<rparr>"
  obtain sf where "propose env (GenericQC sf) (?d2\<lparr>safety := sf\<rparr>) = Inr d'"
  proof (cases "highestViewQC ?ms")
    case None
    with assms have "propose env (GenericQC (safety d)) (?d2\<lparr>safety := safety d\<rparr>) = Inr d'"
      by (simp add: HandleNewView_def OnNewViewMessages_def buffered_def Let_def)
    then show ?thesis by (rule that)
  next
    case (Some qc)
    with assms have "propose env (GenericQC (raise_generic qc (safety d))) (?d2\<lparr>safety := raise_generic qc (safety d)\<rparr>) = Inr d'"
      by (simp add: HandleNewView_def OnNewViewMessages_def buffered_def Let_def)
    then show ?thesis by (rule that)
  qed
  then show ?thesis by (rule propose_eq) (use assms(2) in auto)
qed

lemma repeated_new_view_proposes_witness:
  "\<exists>d' blk. HandleNewView (sample_env newMemBlockchain) \<lparr>nv_ViewNumber = 1, nv_ConfNumber = 0, nv_GenericQc = None\<rparr>
      (sample_node\<lparr>newViewBuf := [1 \<mapsto> [\<lparr>nv_ViewNumber = 1, nv_ConfNumber = 0, nv_GenericQc = None\<rparr>,
         \<lparr>nv_ViewNumber = 1, nv_ConfNumber = 0, nv_GenericQc = None\<rparr>]]\<rparr>) = Inr d' \<and>
    outbox d' = [Broadcast four (BlockMsg blk)]"
proof -
  let ?m = "\<lparr>nv_ViewNumber = 1, nv_ConfNumber = 0, nv_GenericQc = None\<rparr>"
  let ?d = "sample_node\<lparr>newViewBuf := [1 \<mapsto> [?m, ?m]]\<rparr>"
  have "\<exists>d'. HandleNewView (sample_env newMemBlockchain) ?m ?d = Inr d'"
    by (simp add: HandleNewView_def OnNewViewMessages_def buffered_def Let_def highestViewQC_def
        propose_def record_round_def selectLeader_def Leader_def drain_eq)
  then obtain d' where d': "HandleNewView (sample_env newMemBlockchain) ?m ?d = Inr d'" by blast
  from repeated_new_view_proposes [OF d', of four "Suc (Suc 0)"] d' show ?thesis by auto
qed

subsection \<open>Proposals\<close>

text \<open>A proposal takes the oldest requests of the queue, at most 100, in order, leaves the
  others queued, extends the certified block and is broadcast to the latest configuration.\<close>

lemma propose_takes_oldest_requests:
  assumes "propose env j d = Inr d'"
  shows "\<exists>mc blk. Latest (store (deliverer d)) = Inr mc \<and>
    outbox d' = outbox d @ [Broadcast mc (BlockMsg blk)] \<and>
    ch_buf (requestQ d) = Batch blk @ ch_buf (requestQ d') \<and>
    length (Batch blk) = min 100 (length (ch_buf (requestQ d))) \<and>
    Justify blk = j \<and> ParentHash blk = GetBlockHash j \<and> ConfNumber blk = Number mc"
  using assms by (rule propose_eq) auto

lemma propose_takes_oldest_requests_witness:
  "\<exists>d' blk. propose (sample_env newMemBlockchain) None
      (sample_node\<lparr>requestQ := (make_chan 8)\<lparr>ch_buf := [request 0 ''x'' [], request 0 ''y'' []]\<rparr>\<rparr>) = Inr d' \<and>
    outbox d' = [Broadcast four (BlockMsg blk)] \<and> Batch blk = [request 0 ''x'' [], request 0 ''y'' []]"
proof -
  let ?d = "sample_node\<lparr>requestQ := (make_chan 8)\<lparr>ch_buf := [request 0 ''x'' [], request 0 ''y'' []]\<rparr>\<rparr>"
  have "\<exists>d'. propose (sample_env newMemBlockchain) None ?d = Inr d'"
    by (simp add: propose_def record_round_def selectLeader_def Leader_def drain_eq Let_def)
  then obtain d' where d': "propose (sample_env newMemBlockchain) None ?d = Inr d'" by blast
  have "Batch blk = [request 0 ''x'' [], request 0 ''y'' []]"
    if "[request 0 ''x'' [], request 0 ''y'' []] = Batch blk @ q" "length (Batch blk) = 2" for blk q
    using that by (cases "Batch blk"; cases "tl (Batch blk)") auto
  moreover obtain blk where "outbox d' = [Broadcast four (BlockMsg blk)]"
    "[request 0 ''x'' [], request 0 ''y'' []] = Batch blk @ ch_buf (requestQ d')" "length (Batch blk) = 2"
    using propose_takes_oldest_requests [OF d'] by auto
  ultimately show ?thesis using d' by blast
qed

subsection \<open>Runs\<close>

text \<open>C3: from a fresh replica, every state that any interleaving of proposals, votes,
  view-change messages, submissions and the three parts of timeouts can reach keeps the
  configurations numbered and well-formed, the vote buffers verified and free of duplicate
  signers, and the request queue within its capacity.\<close>

theorem reachable_replica_ok:
  assumes "Number g = 0" "wf_committee g"
    and "runs env (start (NewDHotStuff i (NewConfigStore g heap) a n rep)) s"
  shows "replica_ok env (node s)"
  by (rule runs_ok [OF assms(3)]) (simp add: start_def replica_ok_New assms(1,2))

theorem reachable_replica_ok_witness:
  "\<exists>s. step (sample_env newMemBlockchain) (start sample_node) s \<and> replica_ok (sample_env newMemBlockchain) (node s)"
proof -
  let ?e = "sample_env newMemBlockchain"
  obtain d where "HandlePropose ?e (sample_block [7] 0 None []) sample_node = Inr d"
    using sample_propose by blast
  then have st: "step ?e (start sample_node) ((start sample_node)\<lparr>node := d\<rparr>)"
    by (intro on_propose) (simp add: start_def)
  then have "runs ?e (start (NewDHotStuff ''A'' (NewConfigStore four (\<lambda>_. make_chan 1)) 0 8 None))
      ((start sample_node)\<lparr>node := d\<rparr>)"
    unfolding sample_node_def sample_store_def by (rule r_into_rtranclp)
  from reachable_replica_ok [OF _ _ this] st show ?thesis
    by (force simp: wf_committee_def fault_bound_def)
qed

text \<open>C12: along any run the configuration log and the sequence of executed requests only grow
  at the end, and no delivered block is forgotten.\<close>

theorem runs_append_only:
  assumes "runs env s t"
  shows "prefix (configs (store (deliverer (node s)))) (configs (store (deliverer (node t)))) \<and>
    prefix (executed (deliverer (node s))) (executed (deliverer (node t))) \<and>
    delivered (deliverer (node s)) \<subseteq> delivered (deliverer (node t))"
  using runs_grows [OF assms] by (simp add: grows_def)

theorem runs_append_only_witness:
  "\<exists>s. runs (sample_env newMemBlockchain) (start sample_node) s \<and>
     prefix [four] (configs (store (deliverer (node s))))"
proof -
  let ?e = "sample_env newMemBlockchain"
  obtain d where "HandlePropose ?e (sample_block [7] 0 None []) sample_node = Inr d"
    using sample_propose by blast
  then have "runs ?e (start sample_node) ((start sample_node)\<lparr>node := d\<rparr>)"
    by (intro r_into_rtranclp on_propose) (simp add: start_def)
  from runs_append_only [OF this] this show ?thesis by (force simp: start_def)
qed

end
