(* ===== verification/Sync_Properties.thy ===== *)
theory Sync_Properties
  imports Samples "HOL-Library.Multiset"
begin

section \<open>Properties of histories and synchronisation\<close>

text \<open>
  Execution histories, the two quorum collectors of \<^verbatim>\<open>internal/statetransfer\<close> and the
  discovery protocol of \<^verbatim>\<open>internal/discovery\<close>.
\<close>

text \<open>C30: parsing the wire form of a history accepts exactly the block lists that \<open>Append\<close> would
  accept one block after another from the empty history, gives the same history, and writing it
  back yields the same message.\<close>

theorem HistoryFromProto_append_all:
  "(HistoryFromProto resp = Inr h \<longleftrightarrow> append_all NewExecutionHistory (hr_History resp) = Inr h) \<and>
   (HistoryFromProto resp = Inr h \<longrightarrow> ToProto h = resp)"
proof -
  have "Blocks NewExecutionHistory = []" by (simp add: NewExecutionHistory_def)
  then show ?thesis
    by (auto simp: HistoryFromProto_Inr append_all_Inr [OF contiguous_New] ToProto_def)
qed

theorem HistoryFromProto_append_all_witness:
  "\<exists>h. HistoryFromProto \<lparr>hr_History = [sample_block [] 0 None [], sample_block [] 1 None []]\<rparr> = Inr h \<and>
     ToProto h = \<lparr>hr_History = [sample_block [] 0 None [], sample_block [] 1 None []]\<rparr>"
proof -
  let ?r = "\<lparr>hr_History = [sample_block [] 0 None [], sample_block [] 1 None []]\<rparr>"
  have "append_all NewExecutionHistory (hr_History ?r) = Inr \<lparr>Blocks = hr_History ?r\<rparr>"
    by (simp add: Append_def NewExecutionHistory_def)
  then show ?thesis using HistoryFromProto_append_all [of ?r "\<lparr>Blocks = hr_History ?r\<rparr>"] by blast
qed

text \<open>C26: when \<open>RequestHistory\<close> answers a history, at least \<open>FaultCap + 1\<close> replicas outside
  any set of at most \<open>FaultCap\<close> faulty ones served a well-formed history with the same hash, in
  any arrival order.\<close>

theorem RequestHistory_vouched:
  assumes "RequestHistory H gc rpc mc events = Some (Inr h)" "distinct events"
    and "finite B" "int (card B) \<le> FaultCap mc"
  shows "FaultCap mc + 1 \<le> int (card {a. a \<notin> B \<and> Arrived a \<in> set events \<and>
      (\<exists>resp g. rpc a = Some resp \<and> HistoryFromProto resp = Inr g \<and> Hash H g = Hash H h)})"
proof -
  let ?f = "fetch_history H gc rpc" and ?F = "FaultCap mc"
  have fetch: "fetch_history H gc rpc a = Inr (g, k) \<Longrightarrow>
      k = Hash H g \<and> (\<exists>resp. rpc a = Some resp \<and> HistoryFromProto resp = Inr g)" for a g k
    by (auto simp: fetch_history_def split: if_splits option.splits sum.splits)
  from tally_sound [OF assms(1) [unfolded RequestHistory_def]] obtain k used rest a
    where ev: "events = used @ rest" and n: "2 * ?F + 1 \<le> int (votes_for ?f k used)"
      and a: "?f a = Inr (h, k)" by auto
  have k: "k = Hash H h" using fetch [OF a] by blast
  let ?A = "{a. a \<notin> B \<and> Arrived a \<in> set used \<and> (\<exists>g. ?f a = Inr (g, k))}"
  let ?C = "{a. a \<notin> B \<and> Arrived a \<in> set events \<and>
      (\<exists>resp g. rpc a = Some resp \<and> HistoryFromProto resp = Inr g \<and> Hash H g = Hash H h)}"
  have "?F + 1 \<le> int (card ?A)"
    using assms(2) ev by (intro honest_matching [OF _ assms(3,4) n]) simp
  also have "card ?A \<le> card ?C"
  proof (rule card_mono)
    have "?C \<subseteq> (\<lambda>e. case e of Arrived x \<Rightarrow> x | Expired \<Rightarrow> []) ` set events" by force
    then show "finite ?C" by (rule finite_subset) simp
    show "?A \<subseteq> ?C" using fetch k ev by fastforce
  qed
  finally show ?thesis by simp
qed

text \<open>A run of responses with one hash is answered by the first history that had it.\<close>

lemma tally_one_hash:
  assumes "\<forall>a \<in> set as. \<exists>g. fetch a = Inr (g, k)" "hists k = Some h"
    and "counts k < needed" "needed \<le> counts k + int (length as)"
    and "received + int (length as) \<le> expected"
  shows "tally fetch needed expected received counts hists (map Arrived as) = Some (Inr h)"
  using assms
proof (induction as arbitrary: received counts)
  case (Cons a as)
  then obtain g where "fetch a = Inr (g, k)" by auto
  with Cons.prems Cons.IH [of "counts(k := counts k + 1)" "received + 1"] show ?case
    by (auto simp: tally_simps Let_def fun_upd_def)
qed simp

text \<open>C40: the history hash does not cover the requests. If the first response comes from a faulty
  replica that serves a history with the same parents and heights but other batches, and
  \<open>2 FaultCap\<close> correct replicas then serve the true one, the forged history is the answer.\<close>

theorem RequestHistory_accepts_forged_batches:
  assumes "contiguous (Blocks forged)" "contiguous (Blocks genuine)"
    and "map ParentHash (Blocks forged) = map ParentHash (Blocks genuine)"
    and "map Height (Blocks forged) = map Height (Blocks genuine)"
    and "gc a \<and> rpc a = Some (ToProto forged)"
    and "\<forall>x \<in> set as. gc x \<and> rpc x = Some (ToProto genuine)"
    and "int (length as) = 2 * FaultCap mc" "1 + int (length as) \<le> Size mc"
  shows "RequestHistory H gc rpc mc (map Arrived (a # as)) = Some (Inr forged)"
proof -
  let ?k = "Hash H forged"
  have k: "Hash H genuine = ?k" using Hash_ignores_batches [OF assms(3,4)] by simp
  have fa: "fetch_history H gc rpc a = Inr (forged, ?k)"
    using assms(5) proto_roundtrip [OF assms(1)] by (simp add: fetch_history_def)
  have fs: "\<forall>x \<in> set as. fetch_history H gc rpc x = Inr (genuine, ?k)"
    using assms(6) proto_roundtrip [OF assms(2)] k by (simp add: fetch_history_def)
  show ?thesis
  proof (cases "FaultCap mc = 0")
    case True
    with fa assms(8) show ?thesis by (simp add: RequestHistory_def tally_simps)
  next
    case False
    then have "0 < FaultCap mc" using assms(7) by linarith
    moreover have "tally (fetch_history H gc rpc) (2 * FaultCap mc + 1) (Size mc) 1 ((\<lambda>_. 0)(?k := 1))
        [?k \<mapsto> forged] (map Arrived as) = Some (Inr forged)"
      using fs assms(7,8) \<open>0 < FaultCap mc\<close> by (intro tally_one_hash) auto
    ultimately show ?thesis using fa assms(8) by (simp add: RequestHistory_def tally_simps)
  qed
qed

text \<open>C27: a joining replica gets the history. If all members but at most \<open>FaultCap\<close> serve the
  blocks of \<open>h\<close> through their routers and answer before the timeout of the \<open>Syncer\<close>,
  \<open>RequestHistory\<close> answers with a contiguous history that has the hash of \<open>h\<close>, whatever the
  others send, at whatever time or never.\<close>

theorem join_obtains_history:
  assumes "wf_committee mc" "Replicas mc \<noteq> []" "distinct (map Addr (Replicas mc))"
    and "mset order = mset (map Addr (Replicas mc))" "sorted (map delay order)"
    and "finite B" "int (card B) \<le> FaultCap mc" "contiguous (Blocks h)"
    and "\<forall>a \<in> set order - B. pool a \<and> delay a < sy_timeout (NewSyncer me pool t) \<and>
      (\<exists>resp. rpc me a = Some resp \<and>
        Router_RequestHistory (Inr (Blocks h) :: string + Block list) (Some me) = Inr resp)"
  shows "\<exists>g. Syncer_RequestHistory H (NewSyncer me pool t) rpc mc delay order = Some (Inr g) \<and>
    Hash H g = Hash H h \<and> contiguous (Blocks g)"
proof -
  let ?s = "NewSyncer me pool t" and ?F = "FaultCap mc"
  let ?xs = "takeWhile (\<lambda>a. delay a < sy_timeout ?s) order"
  let ?f = "fetch_history H pool (rpc me)"
  have sy: "sy_myID ?s = me" "sy_rpcPool ?s = pool" by (simp_all add: NewSyncer_def Let_def)
  have len: "length order = length (Replicas mc)" and dist: "distinct order"
    using mset_eq_length [OF assms(4)] mset_eq_imp_distinct_iff [OF assms(4)] assms(3) by simp_all
  have n: "3 * ?F + 1 \<le> int (length order)" "0 \<le> ?F"
    using assms(1,2) len by (cases "Replicas mc"; simp add: wf_committee_def fault_bound_def)+
  have correct: "set order - B \<subseteq> set ?xs - B"
    using assms(9) in_time_heard [OF assms(5)] by auto
  have "int (length order) - ?F \<le> int (card (set order - B))"
    using diff_card_le_card_Diff [OF assms(6), of "set order"] assms(7) distinct_card [OF dist] by linarith
  also have "card (set order - B) \<le> card (set ?xs - B)" using correct by (intro card_mono) simp_all
  finally have enough: "2 * ?F + 1 \<le> int (card (set ?xs - B))" using n by simp
  have few: "int (length ?xs) \<le> Size mc"
    using length_takeWhile_le [of _ order] by (simp add: Size_def flip: len)
  have "\<forall>a \<in> set ?xs - B. \<exists>g. ?f a = Inr (g, Hash H h)"
    using assms(9) set_takeWhileD proto_roundtrip [OF assms(8)]
    by (fastforce simp: fetch_history_def Router_RequestHistory_def ToProto_def)
  from tally_majority [where rest = "[Expired]", OF distinct_takeWhile [OF dist] assms(6,7) n(2) few enough this] obtain g a
    where g: "Syncer_RequestHistory H ?s rpc mc delay order = Some (Inr g)"
      and a: "?f a = Inr (g, Hash H h)"
    by (auto simp: Syncer_RequestHistory_def RequestHistory_def heard_within_def sy)
  have "Hash H g = Hash H h \<and> contiguous (Blocks g)"
    using a by (auto simp: fetch_history_def HistoryFromProto_Inr split: if_splits option.splits sum.splits)
  with g show ?thesis by blast
qed

definition sample_rpc :: "string \<Rightarrow> HistoryResponse option" where
  "sample_rpc a = Some \<lparr>hr_History = [sample_block [] 0 None (if a = ''d'' then [request 0 ''evil'' []] else [])]\<rparr>"

theorem RequestHistory_accepts_forged_batches_witness:
  "RequestHistory idsha (\<lambda>_. True) sample_rpc four (map Arrived [''d'', ''a'', ''b'']) =
     Some (Inr \<lparr>Blocks = [sample_block [] 0 None [request 0 ''evil'' []]]\<rparr>)"
  by (rule RequestHistory_accepts_forged_batches [where genuine = "\<lparr>Blocks = [sample_block [] 0 None []]\<rparr>"])
     (simp_all add: contiguous_def sample_rpc_def ToProto_def)

lemma RequestHistory_sample:
  "RequestHistory idsha (\<lambda>_. True) sample_rpc four (map Arrived [''c'', ''a'', ''b'']) =
     Some (Inr \<lparr>Blocks = [sample_block [] 0 None []]\<rparr>)"
proof -
  have "fetch_history idsha (\<lambda>_. True) sample_rpc x = Inr (\<lparr>Blocks = [sample_block [] 0 None []]\<rparr>,
      Hash idsha \<lparr>Blocks = [sample_block [] 0 None []]\<rparr>)" if "x \<noteq> ''d''" for x
    using that by (simp add: fetch_history_def sample_rpc_def HistoryFromProto_def)
  then show ?thesis by (simp add: RequestHistory_def tally_simps Let_def)
qed

theorem join_obtains_history_witness:
  "\<exists>g. Syncer_RequestHistory idsha (NewSyncer ''e'' (\<lambda>_. True) 0)
       (\<lambda>_. sample_rpc(''d'' := Some \<lparr>hr_History = []\<rparr>))
       (four\<lparr>Replicas := map (\<lambda>i. (member i)\<lparr>Addr := i\<rparr>) [''a'', ''b'', ''c'', ''d'']\<rparr>)
       (\<lambda>a. if a = ''d'' then 0 else 10 ^ 9) [''d'', ''b'', ''a'', ''c''] = Some (Inr g) \<and>
     Hash idsha g = Hash idsha \<lparr>Blocks = [sample_block [] 0 None []]\<rparr> \<and> contiguous (Blocks g)"
  by (rule join_obtains_history [where B = "{''d''}"])
     (auto simp: wf_committee_def fault_bound_def contiguous_def Router_RequestHistory_def sample_rpc_def
       NewSyncer_def DefaultSyncTimeout_def)

theorem RequestHistory_vouched_witness:
  "\<exists>h. RequestHistory idsha (\<lambda>_. True) sample_rpc four (map Arrived [''c'', ''a'', ''b'']) = Some (Inr h) \<and>
     2 \<le> int (card {a. a \<notin> {''a''} \<and> Arrived a \<in> set (map Arrived [''c'', ''a'', ''b'']) \<and>
      (\<exists>resp g. sample_rpc a = Some resp \<and> HistoryFromProto resp = Inr g \<and> Hash idsha g = Hash idsha h)})"
proof -
  note r = RequestHistory_sample
  have "FaultCap four + 1 \<le> int (card {a. a \<notin> {''a''} \<and> Arrived a \<in> set (map Arrived [''c'', ''a'', ''b'']) \<and>
      (\<exists>resp g. sample_rpc a = Some resp \<and> HistoryFromProto resp = Inr g \<and>
        Hash idsha g = Hash idsha \<lparr>Blocks = [sample_block [] 0 None []]\<rparr>)})"
    by (rule RequestHistory_vouched [OF r]) simp_all
  with r show ?thesis by (intro exI [of _ "\<lparr>Blocks = [sample_block [] 0 None []]\<rparr>"]) simp
qed

text \<open>C29: when \<open>SyncIfBehind\<close> reports success to a replica that is behind, a prefix of the
  arrivals held at least \<open>Size - FaultCap\<close> responses, the best block was reported in it and is
  the highest one reported there, passes the safety check, and a quorum of history responses
  agreed. The committee consulted is the replica's own latest one, whatever configuration it was
  told about.\<close>

theorem SyncIfBehind_success_sound:
  assumes "configs_ok cs" "length (configs cs) < 2 ^ 64" "Latest cs = Inr current"
    and "Number current < k"
    and "SyncIfBehind H safeNode gc rpcU gcH rpcH cs k updates histories = Some (Inr None)"
  shows "\<exists>best hist used rest. updates = used @ rest \<and>
    Size current - FaultCap current \<le> int (good_count (fetch_update gc rpcU) (map Arrived used)) \<and>
    best \<in> reported (fetch_update gc rpcU) (map Arrived used) \<and>
    (\<forall>b \<in> reported (fetch_update gc rpcU) (map Arrived used). Height b \<le> Height best) \<and>
    safeNode best (Justify best) \<and> RequestHistory H gcH rpcH current histories = Some (Inr hist)"
proof -
  from SyncIfBehind_success [OF assms] obtain best hist where
    b: "requestUpdates gc rpcU current updates = Inr best"
    and s: "safeNode best (Justify best)" "RequestHistory H gcH rpcH current histories = Some (Inr hist)"
    by blast
  from requestUpdates_loop_sound [OF b [unfolded requestUpdates_def]] s show ?thesis by blast
qed

definition sample_best :: "string \<Rightarrow> Block option option" where
  "sample_best a = (if a = ''c'' then None else Some (Some (sample_block [] (of_nat (length a)) None [])))"

theorem SyncIfBehind_success_sound_witness:
  "\<exists>best. best \<in> reported (fetch_update (\<lambda>_. True) sample_best) (map Arrived [''c'', ''a'', ''bb'', ''d'']) \<and>
     SyncIfBehind idsha (\<lambda>b qc. True) (\<lambda>_. True) sample_best (\<lambda>_. True) sample_rpc sample_store 5
       [''c'', ''a'', ''bb'', ''d''] (map Arrived [''c'', ''a'', ''b'']) = Some (Inr None)"
proof -
  have ok: "SyncIfBehind idsha (\<lambda>b qc. True) (\<lambda>_. True) sample_best (\<lambda>_. True) sample_rpc sample_store 5
      [''c'', ''a'', ''bb'', ''d''] (map Arrived [''c'', ''a'', ''b'']) = Some (Inr None)"
    using RequestHistory_sample
    by (simp add: SyncIfBehind_def AtNumber_def requestUpdates_def fetch_update_def sample_best_def better_def Let_def)
  have "\<exists>best hist used rest. [''c'', ''a'', ''bb'', ''d''] = used @ rest \<and>
      Size four - FaultCap four \<le> int (good_count (fetch_update (\<lambda>_. True) sample_best) (map Arrived used)) \<and>
      best \<in> reported (fetch_update (\<lambda>_. True) sample_best) (map Arrived used) \<and>
      (\<forall>b \<in> reported (fetch_update (\<lambda>_. True) sample_best) (map Arrived used). Height b \<le> Height best) \<and>
      True \<and> RequestHistory idsha (\<lambda>_. True) sample_rpc four (map Arrived [''c'', ''a'', ''b'']) = Some (Inr hist)"
    by (rule SyncIfBehind_success_sound [OF _ _ _ _ ok]) simp_all
  then obtain best used rest where "[''c'', ''a'', ''bb'', ''d''] = used @ rest"
    "best \<in> reported (fetch_update (\<lambda>_. True) sample_best) (map Arrived used)" by blast
  then have "best \<in> reported (fetch_update (\<lambda>_. True) sample_best) (map Arrived [''c'', ''a'', ''bb'', ''d''])"
    by (auto simp: reported_def)
  with ok show ?thesis by blast
qed

text \<open>C28: the highest block decides alone. When one replica reports, before enough responses are in,
  a block higher than all others, \<open>SyncIfBehind\<close> fails if that block does not pass the safety
  check, and otherwise goes on to the history. In the witness one faulty replica of four reports an
  invented block: the synchronisation fails although the blocks of the others are safe and a quorum
  serves the history.\<close>

theorem highest_update_decides_sync:
  assumes "configs_ok cs" "length (configs cs) < 2 ^ 64" "Latest cs = Inr current" "Number current < k"
    and "gc a" "rpcU a = Some (Some b)"
    and "int (good_count (fetch_update gc rpcU) (map Arrived us)) < Size current - FaultCap current"
    and "\<forall>c \<in> reported (fetch_update gc rpcU) (map Arrived (us @ ws)). Height c < Height b"
    and "Size current - FaultCap current \<le> int (good_count (fetch_update gc rpcU) (map Arrived (us @ a # ws)))"
  shows "SyncIfBehind H safeNode gc rpcU gcH rpcH cs k (us @ a # ws) histories =
    (if safeNode b (Justify b) then
       map_option (\<lambda>r. Inr (case r of Inl e \<Rightarrow> Some (HistoryFailed e) | Inr hist \<Rightarrow> None))
         (RequestHistory H gcH rpcH current histories)
     else Some (Inr (Some (FailedSafeNode (Height b)))))"
proof -
  have "fetch_update gc rpcU a = Inr (Some b)" using assms(5,6) by (simp add: fetch_update_def)
  then have "requestUpdates gc rpcU current (us @ a # ws) = Inr b"
    unfolding requestUpdates_def using assms(7-9) by (intro requestUpdates_loop_highest) auto
  then show ?thesis
    using assms(3,4) SyncIfBehind_target [OF assms(1-4)]
    by (auto simp: SyncIfBehind_def Let_def split: option.splits sum.splits)
qed

definition sample_claims :: "string \<Rightarrow> Block option option" where
  "sample_claims a = Some (Some (if a = ''d'' then sample_block [6] 9 None [] else sample_block [] 1 None []))"

theorem highest_update_decides_sync_witness:
  "\<exists>safe. safe (sample_block [] 1 None []) None \<and>
     SyncIfBehind idsha safe (\<lambda>_. True) sample_claims (\<lambda>_. True) sample_rpc sample_store 5
       ([''a'', ''b''] @ ''d'' # [''c'']) (map Arrived [''c'', ''a'', ''b'']) =
       Some (Inr (Some (FailedSafeNode 9))) \<and>
     (\<exists>h. RequestHistory idsha (\<lambda>_. True) sample_rpc four (map Arrived [''c'', ''a'', ''b'']) = Some (Inr h))"
proof -
  let ?safe = "\<lambda>b qc. SafeNode \<lparr>LockedQC = Some (sample_qc [] []), GenericQC = None\<rparr> b qc (bench_reader newMemBlockchain)"
  let ?f = "fetch_update (\<lambda>_. True) sample_claims"
  have f: "?f x = Inr (Some (if x = ''d'' then sample_block [6] 9 None [] else sample_block [] 1 None []))" for x
    by (simp add: fetch_update_def sample_claims_def)
  have no: "\<not> ?safe (sample_block [6] 9 None []) None"
    using bench_walk.simps(2) [of 1023]
    by (simp add: SafeNode_def bench_reader_def bench_Extends_def newMemBlockchain_def)
  have "SyncIfBehind idsha ?safe (\<lambda>_. True) sample_claims (\<lambda>_. True) sample_rpc sample_store 5
      ([''a'', ''b''] @ ''d'' # [''c'']) (map Arrived [''c'', ''a'', ''b'']) =
    (if ?safe (sample_block [6] 9 None []) (Justify (sample_block [6] 9 None [])) then
       map_option (\<lambda>r. Inr (case r of Inl e \<Rightarrow> Some (HistoryFailed e) | Inr hist \<Rightarrow> None))
         (RequestHistory idsha (\<lambda>_. True) sample_rpc four (map Arrived [''c'', ''a'', ''b'']))
     else Some (Inr (Some (FailedSafeNode (Height (sample_block [6] 9 None []))))))"
    by (rule highest_update_decides_sync) (simp_all add: f good_count_Cons reported_Cons sample_claims_def)
  then have "SyncIfBehind idsha ?safe (\<lambda>_. True) sample_claims (\<lambda>_. True) sample_rpc sample_store 5
      ([''a'', ''b''] @ ''d'' # [''c'']) (map Arrived [''c'', ''a'', ''b'']) = Some (Inr (Some (FailedSafeNode 9)))"
    using no by (simp only: sample_block_simps if_False)
  moreover have "?safe (sample_block [] 1 None []) None" by (simp add: SafeNode_def bench_reader_def bench_Extends_def)
  moreover have "\<exists>h. RequestHistory idsha (\<lambda>_. True) sample_rpc four (map Arrived [''c'', ''a'', ''b'']) = Some (Inr h)"
    using RequestHistory_sample by blast
  ultimately show ?thesis by (intro exI [of _ ?safe] conjI)
qed

end
