(* ===== verification/GoText.thy ===== *)
theory GoText
  imports Prelude
begin

section \<open>Text formats of the Go standard library\<close>

text \<open>
  What the program uses of \<^verbatim>\<open>fmt\<close>, \<^verbatim>\<open>encoding/base64\<close>, \<^verbatim>\<open>encoding/pem\<close>, \<^verbatim>\<open>strconv\<close> and
  \<^verbatim>\<open>path/filepath\<close>: decimal numerals, standard base64 with padding, the PEM block without
  headers, quoted strings and the joining of paths. Strings are byte strings, as in Go.
\<close>

subsection \<open>Decimal numerals\<close>

fun decimal :: "nat \<Rightarrow> string" where
  "decimal n = (if n < 10 then [char_of (48 + n)] else decimal (n div 10) @ [char_of (48 + n mod 10)])"

declare decimal.simps [simp del]

lemma decimal_not_Nil [simp]: "decimal n \<noteq> []"
  by (simp add: decimal.simps [of n])

definition from_decimal :: "string \<Rightarrow> nat" where
  "from_decimal s = foldl (\<lambda>a c. 10 * a + (of_char c - 48)) 0 s"

lemma from_decimal_decimal [simp]: "from_decimal (decimal n) = n"
proof (induction n rule: decimal.induct)
  case (1 n)
  have "of_char (char_of (48 + n mod 10) :: char) = 48 + n mod 10" for n :: nat
    by (simp add: of_char_of)
  with 1 show ?case
    by (cases "n < 10") (simp_all add: decimal.simps [of n] from_decimal_def)
qed

lemma decimal_inject [simp]: "decimal m = decimal n \<longleftrightarrow> m = n"
  by (metis from_decimal_decimal)

lemma decimal_digits: "c \<in> set (decimal n) \<Longrightarrow> 48 \<le> (of_char c :: nat) \<and> (of_char c :: nat) \<le> 57"
proof (induction n rule: decimal.induct)
  case (1 n)
  have "of_char (char_of (48 + k) :: char) = 48 + k" if "k < 10" for k :: nat
    using that by (simp add: of_char_of)
  with 1 show ?case by (auto simp: decimal.simps [of n] split: if_splits)
qed

text \<open>\<open>%d\<close> of a signed integer.\<close>

definition itoa :: "int \<Rightarrow> string" where
  "itoa i = (if i < 0 then CHR ''-'' # decimal (nat (- i)) else decimal (nat i))"

lemma itoa_nonneg: "0 \<le> i \<Longrightarrow> itoa i = decimal (nat i)"
  by (simp add: itoa_def)

subsection \<open>Base64\<close>

definition b64_alphabet :: string where
  "b64_alphabet = ''ABCDEFGHIJKLMNOPQRSTUVWXYZabcdefghijklmnopqrstuvwxyz0123456789+/''"

definition b64_char :: "nat \<Rightarrow> char" where
  "b64_char n = b64_alphabet ! n"

text \<open>Groups of three bytes become four characters; the last group is padded.\<close>

fun base64 :: "bytes \<Rightarrow> string" where
  "base64 (a # b # c # bs) =
     b64_char (unat a div 4) # b64_char (unat a mod 4 * 16 + unat b div 16)
     # b64_char (unat b mod 16 * 4 + unat c div 64) # b64_char (unat c mod 64) # base64 bs"
| "base64 [a, b] =
     [b64_char (unat a div 4), b64_char (unat a mod 4 * 16 + unat b div 16),
      b64_char (unat b mod 16 * 4), CHR ''='']"
| "base64 [a] = [b64_char (unat a div 4), b64_char (unat a mod 4 * 16), CHR ''='', CHR ''='']"
| "base64 [] = []"

text \<open>A reader of the format, as its specification.\<close>

definition b64_value :: "char \<Rightarrow> nat option" where
  "b64_value c = map_of (zip b64_alphabet [0..<64]) c"

fun base64_read :: "string \<Rightarrow> bytes option" where
  "base64_read [] = Some []"
| "base64_read (p # q # r # s # cs) =
     (case (b64_value p, b64_value q) of
        (Some x, Some y) \<Rightarrow>
          (case (b64_value r, b64_value s) of
             (Some z, Some w) \<Rightarrow>
               map_option (\<lambda>bs. of_nat (x * 4 + y div 16) # of_nat (y mod 16 * 16 + z div 4)
                 # of_nat (z mod 4 * 64 + w) # bs) (base64_read cs)
           | (Some z, None) \<Rightarrow>
               if s = CHR ''='' \<and> cs = []
               then Some [of_nat (x * 4 + y div 16), of_nat (y mod 16 * 16 + z div 4)] else None
           | (None, _) \<Rightarrow>
               if r = CHR ''='' \<and> s = CHR ''='' \<and> cs = [] then Some [of_nat (x * 4 + y div 16)] else None)
      | _ \<Rightarrow> None)"
| "base64_read _ = None"

lemma b64_value_char: "n < 64 \<Longrightarrow> b64_value (b64_char n) = Some n"
proof -
  have "list_all (\<lambda>n. b64_value (b64_char n) = Some n) [0..<64]"
    by code_simp
  then show "n < 64 \<Longrightarrow> b64_value (b64_char n) = Some n" by (simp add: list_all_iff)
qed

lemma b64_value_pad [simp]: "b64_value CHR ''='' = None"
  by code_simp

lemma byte_bound [simp]: "unat (b :: u8) < 256"
  using unsigned_less [of b] by simp

lemma byte_parts: "unat (b :: u8) div 4 < 64" "unat b div 16 < 16" "unat b div 64 < 4"
  using byte_bound [of b] by (simp_all add: less_mult_imp_div_less)

lemma byte_of_nat: "of_nat (unat (b :: u8)) = b"
  by simp

lemma b64_join1: "k < 16 \<Longrightarrow> unat (a :: u8) div 4 * 4 + (unat a mod 4 * 16 + k) div 16 = unat a"
  by simp

lemma b64_join2:
  assumes "l < 4"
  shows "(unat (a :: u8) mod 4 * 16 + unat (b :: u8) div 16) mod 16 * 16 + (unat b mod 16 * 4 + l) div 4 = unat b"
proof -
  have "(unat a mod 4 * 16 + unat b div 16) mod 16 = unat b div 16"
    using byte_parts(2) [of b] by (simp add: mod_mult_self3)
  moreover have "(unat b mod 16 * 4 + l) div 4 = unat b mod 16" using assms by simp
  ultimately show ?thesis by simp
qed

lemma b64_join3:
  "(unat (b :: u8) mod 16 * 4 + unat (c :: u8) div 64) mod 4 * 64 + unat c mod 64 = unat c"
proof -
  have "(unat b mod 16 * 4 + unat c div 64) mod 4 = unat c div 64"
    using byte_parts(3) [of c] by (simp add: mod_mult_self3)
  then show ?thesis by simp
qed

lemma b64_range:
  "unat (a :: u8) mod 4 * 16 + unat (b :: u8) div 16 < 64" "unat b mod 16 * 4 + unat (c :: u8) div 64 < 64"
  "unat a mod 4 * 16 < 64" "unat b mod 16 * 4 < 64"
proof -
  have "unat a mod 4 < 4" "unat b mod 16 < 16" by simp_all
  then show "unat a mod 4 * 16 + unat b div 16 < 64" "unat b mod 16 * 4 + unat c div 64 < 64"
    "unat a mod 4 * 16 < 64" "unat b mod 16 * 4 < 64"
    using byte_parts [of b] byte_parts [of c] by linarith+
qed

lemma base64_roundtrip: "base64_read (base64 bs) = Some bs"
proof (induction bs rule: base64.induct)
  case (1 a b c bs)
  have "unat c mod 64 < 64" by simp
  note vals = b64_value_char [OF byte_parts(1)] b64_value_char [OF b64_range(1)]
    b64_value_char [OF b64_range(2)] b64_value_char [OF this]
  show ?case
    by (simp only: base64.simps base64_read.simps vals prod.case option.case 1 option.map
        b64_join1 [OF byte_parts(2)] b64_join2 [OF byte_parts(3)] b64_join3 byte_of_nat)
next
  case (2 a b)
  note vals = b64_value_char [OF byte_parts(1)] b64_value_char [OF b64_range(1)]
    b64_value_char [OF b64_range(4)]
  show ?case
    using b64_join2 [of 0 a b]
    by (simp only: base64.simps base64_read.simps vals prod.case option.case b64_value_pad
        b64_join1 [OF byte_parts(2)] byte_of_nat add_0_right) simp
next
  case (3 a)
  note vals = b64_value_char [OF byte_parts(1)] b64_value_char [OF b64_range(3)]
  show ?case
    using b64_join1 [of 0 a]
    by (simp only: base64.simps base64_read.simps vals prod.case option.case b64_value_pad
        byte_of_nat add_0_right) simp
qed simp

subsection \<open>PEM\<close>

text \<open>A block without headers: the base64 text in lines of 64 characters.\<close>

function chunks :: "nat \<Rightarrow> 'a list \<Rightarrow> 'a list list" where
  "chunks k xs = (if k = 0 \<or> xs = [] then [] else take k xs # chunks k (drop k xs))"
  by pat_completeness auto
termination
  by (relation "measure (\<lambda>(k, xs). length xs)") auto

declare chunks.simps [simp del]

lemma concat_chunks: "0 < k \<Longrightarrow> concat (chunks k xs) = xs"
  by (induction k xs rule: chunks.induct) (auto simp: chunks.simps [of _ "_ :: 'a list"])

definition newline :: char where "newline = CHR 0x0A"

definition pem_text :: "string \<Rightarrow> bytes \<Rightarrow> string" where
  "pem_text kind der =
     ''-----BEGIN '' @ kind @ ''-----'' @ [newline]
     @ concat (map (\<lambda>l. l @ [newline]) (chunks 64 (base64 der)))
     @ ''-----END '' @ kind @ ''-----'' @ [newline]"

text \<open>A reader of such a block, as its specification.\<close>

definition pem_read :: "string \<Rightarrow> string \<Rightarrow> bytes option" where
  "pem_read kind s =
     (let k = length kind; body = drop (17 + k) s
      in base64_read (filter (\<lambda>c. c \<noteq> newline) (take (length body - (15 + k)) body)))"

lemma filter_lines:
  "list_all (\<lambda>l. newline \<notin> set l) ls \<Longrightarrow>
   filter (\<lambda>c. c \<noteq> newline) (concat (map (\<lambda>l. l @ [newline]) ls)) = concat ls"
  by (induction ls) (auto simp: filter_id_conv)

lemma pem_read_text:
  assumes "newline \<notin> set (base64 der)"
  shows "pem_read kind (pem_text kind der) = Some der"
proof -
  let ?ls = "chunks 64 (base64 der)"
  let ?body = "concat (map (\<lambda>l. l @ [newline]) ?ls)"
  let ?closing = "''-----END '' @ kind @ ''-----'' @ [newline]"
  let ?opening = "''-----BEGIN '' @ kind @ ''-----'' @ [newline]"
  have "length ?opening = 17 + length kind" by simp
  moreover have "pem_text kind der = ?opening @ ?body @ ?closing"
    by (simp only: pem_text_def append_assoc)
  ultimately have "drop (17 + length kind) (pem_text kind der) = ?body @ ?closing"
    by (metis append_eq_conv_conj)
  moreover have "take (length (?body @ ?closing) - (15 + length kind)) (?body @ ?closing) = ?body" by simp
  moreover have cc: "concat ?ls = base64 der" by (simp add: concat_chunks)
  have "list_all (\<lambda>l. newline \<notin> set l) ?ls"
    using assms by (subst (asm) cc [symmetric]) (auto simp: list_all_iff)
  ultimately show ?thesis
    by (simp only: pem_read_def Let_def filter_lines cc base64_roundtrip)
qed

subsection \<open>Quoted strings\<close>

text \<open>
  \<open>%q\<close>. ASCII bytes are written out; a run of other bytes is quoted by \<open>uni\<close>, which stands for
  the decoder and the tables of Unicode.
\<close>

definition hex_char :: "nat \<Rightarrow> char" where
  "hex_char n = ''0123456789abcdef'' ! n"

definition quote_ascii :: "char \<Rightarrow> string" where
  "quote_ascii c =
     (let n = of_char c :: nat; bs = CHR 0x5C in
      if n = 0x22 \<or> n = 0x5C then [bs, c]
      else if 0x20 \<le> n \<and> n < 0x7F then [c]
      else if n = 0x07 then [bs, CHR ''a''] else if n = 0x08 then [bs, CHR ''b'']
      else if n = 0x0C then [bs, CHR ''f''] else if n = 0x0A then [bs, CHR ''n'']
      else if n = 0x0D then [bs, CHR ''r''] else if n = 0x09 then [bs, CHR ''t'']
      else if n = 0x0B then [bs, CHR ''v'']
      else [bs, CHR ''x'', hex_char (n div 16), hex_char (n mod 16)])"

definition ascii :: "char \<Rightarrow> bool" where
  "ascii c \<longleftrightarrow> (of_char c :: nat) < 0x80"

function quote_body :: "(string \<Rightarrow> string) \<Rightarrow> string \<Rightarrow> string" where
  "quote_body uni [] = []"
| "quote_body uni (c # cs) =
     (if ascii c then quote_ascii c @ quote_body uni cs
      else uni (takeWhile (\<lambda>d. \<not> ascii d) (c # cs)) @ quote_body uni (dropWhile (\<lambda>d. \<not> ascii d) (c # cs)))"
  by pat_completeness auto
termination
  by (relation "measure (\<lambda>(uni, s). length s)") (auto simp: le_imp_less_Suc length_dropWhile_le)

definition go_quote :: "(string \<Rightarrow> string) \<Rightarrow> string \<Rightarrow> string" where
  "go_quote uni s = [CHR 0x22] @ quote_body uni s @ [CHR 0x22]"

text \<open>Text without quotes, backslashes and control characters is only put in quotes.\<close>

definition plain_char :: "char \<Rightarrow> bool" where
  "plain_char c \<longleftrightarrow> 0x20 \<le> (of_char c :: nat) \<and> (of_char c :: nat) < 0x7F \<and>
     (of_char c :: nat) \<noteq> 0x22 \<and> (of_char c :: nat) \<noteq> 0x5C"

lemma quote_plain: "list_all plain_char s \<Longrightarrow> quote_body uni s = s"
proof (induction s)
  case (Cons c cs)
  then show ?case by (auto simp: plain_char_def ascii_def quote_ascii_def Let_def)
qed simp

lemma go_quote_plain: "list_all plain_char s \<Longrightarrow> go_quote uni s = [CHR 0x22] @ s @ [CHR 0x22]"
  by (simp add: go_quote_def quote_plain)

lemma alphabet_plain: "list_all plain_char b64_alphabet"
  by code_simp

lemma b64_char_plain: "n < 64 \<Longrightarrow> plain_char (b64_char n)"
proof -
  assume "n < 64"
  then have "n < length b64_alphabet" by (simp add: b64_alphabet_def)
  then show ?thesis using alphabet_plain by (simp add: b64_char_def list_all_length)
qed

lemma base64_plain: "list_all plain_char (base64 bs)"
proof -
  have [simp]: "plain_char CHR ''=''" by code_simp
  show ?thesis
    by (induction bs rule: base64.induct)
       (simp_all add: b64_char_plain byte_parts b64_range)
qed

lemma pem_roundtrip: "pem_read kind (pem_text kind der) = Some der"
proof (rule pem_read_text)
  have "\<not> plain_char newline" by code_simp
  with base64_plain [of der] show "newline \<notin> set (base64 der)" by (auto simp: list_all_iff)
qed

subsection \<open>Paths\<close>

text \<open>\<open>filepath.Join\<close> of a directory and a name, with the lexical cleaning of the result.\<close>

definition slash :: char where "slash = CHR ''/''"

fun split_slash :: "string \<Rightarrow> string list" where
  "split_slash [] = [[]]"
| "split_slash (c # cs) =
     (if c = slash then [] # split_slash cs
      else case split_slash cs of [] \<Rightarrow> [[c]] | w # ws \<Rightarrow> (c # w) # ws)"

fun join_slash :: "string list \<Rightarrow> string" where
  "join_slash [] = []"
| "join_slash [w] = w"
| "join_slash (w # ws) = w @ [slash] @ join_slash ws"

definition clean_push :: "bool \<Rightarrow> string list \<Rightarrow> string \<Rightarrow> string list" where
  "clean_push rooted st w =
     (if w = [] \<or> w = ''.'' then st
      else if w = ''..'' then
        (if st \<noteq> [] \<and> last st \<noteq> ''..'' then butlast st else if rooted then st else st @ [w])
      else st @ [w])"

definition clean_path :: "string \<Rightarrow> string" where
  "clean_path p =
     (if p = [] then ''.''
      else let rooted = hd p = slash; st = foldl (clean_push rooted) [] (split_slash p) in
           if rooted then [slash] @ join_slash st
           else if st = [] then ''.'' else join_slash st)"

definition join_path :: "string \<Rightarrow> string \<Rightarrow> string" where
  "join_path dir name =
     (if dir \<noteq> [] then clean_path (dir @ [slash] @ name)
      else if name \<noteq> [] then clean_path name else [])"

lemma split_slash_not_Nil [simp]: "split_slash p \<noteq> []"
  by (induction p) (auto split: list.splits)

lemma split_slash_single: "slash \<notin> set w \<Longrightarrow> split_slash w = [w]"
  by (induction w) auto

lemma split_slash_last: "slash \<notin> set w \<Longrightarrow> split_slash (p @ [slash] @ w) = split_slash p @ [w]"
  by (induction p) (auto simp: split_slash_single split: list.splits)

lemma join_slash_last: "join_slash (ws @ [w]) = (if ws = [] then w else join_slash ws @ [slash] @ w)"
  by (induction ws rule: join_slash.induct) auto

text \<open>A plain file name stays the last component, whatever the directory is cleaned to.\<close>

definition file_name :: "string \<Rightarrow> bool" where
  "file_name w \<longleftrightarrow> slash \<notin> set w \<and> w \<noteq> [] \<and> w \<noteq> ''.'' \<and> w \<noteq> ''..''"

lemma clean_push_file: "file_name w \<Longrightarrow> clean_push r st w = st @ [w]"
  by (simp add: clean_push_def file_name_def)

lemma join_path_file:
  assumes "file_name w"
  shows "\<exists>d. join_path dir w = d @ w \<and> (d = [] \<or> last d = slash)"
proof -
  have s: "slash \<notin> set w" using assms by (simp add: file_name_def)
  have push: "foldl (clean_push r) [] (ws @ [w]) = foldl (clean_push r) [] ws @ [w]" for r ws
    using clean_push_file [OF assms] by simp
  have join: "\<exists>d. join_slash (st @ [w]) = d @ w \<and> (d = [] \<or> last d = slash)" for st
  proof (cases "st = []")
    case False
    then have "join_slash (st @ [w]) = (join_slash st @ [slash]) @ w" by (simp add: join_slash_last)
    then show ?thesis by (metis snoc_eq_iff_butlast)
  qed simp
  show ?thesis
  proof (cases "dir = []")
    case True
    have h: "hd w \<noteq> slash" using assms by (cases w) (auto simp: file_name_def)
    have "clean_push False [] w = [w]" using clean_push_file [OF assms, of False "[]"] by simp
    with h show ?thesis
      using assms True by (simp add: join_path_def clean_path_def split_slash_single [OF s] file_name_def Let_def)
  next
    case False
    let ?p = "dir @ [slash] @ w"
    have ne: "?p \<noteq> []" by simp
    define st where "st r = foldl (clean_push r) [] (split_slash dir)" for r
    have st: "foldl (clean_push r) [] (split_slash ?p) = st r @ [w]" for r
      by (simp only: split_slash_last [OF s] push st_def)
    have "clean_path ?p = (if hd ?p = slash then [slash] @ join_slash (st True @ [w])
        else join_slash (st False @ [w]))"
      using ne by (simp only: clean_path_def Let_def st if_False) simp
    moreover obtain d e where "join_slash (st True @ [w]) = d @ w" "d = [] \<or> last d = slash"
      "join_slash (st False @ [w]) = e @ w" "e = [] \<or> last e = slash" using join by meson
    moreover have "join_path dir w = clean_path ?p" using False by (simp only: join_path_def not_False_eq_True if_True)
    ultimately show ?thesis
      by (cases "hd ?p = slash") (auto intro: exI [of _ "[slash] @ d"] exI [of _ e])
  qed
qed

lemma join_path_inject:
  assumes "file_name v" "file_name w" "join_path dir v = join_path dir w"
  shows "v = w"
proof -
  have suffix: "x = y" if "d @ x = e @ y" "slash \<notin> set x" "slash \<notin> set y"
    "d = [] \<or> last d = slash" "e = [] \<or> last e = slash" for d e x y
  proof -
    have tail: "takeWhile (\<lambda>c. c \<noteq> slash) (rev (d @ x)) = rev x"
      if "slash \<notin> set x" "d = [] \<or> last d = slash" for d x
    proof (cases d rule: rev_cases)
      case Nil
      then show ?thesis using that(1) by (auto simp: takeWhile_eq_all_conv)
    next
      case (snoc ys c)
      then have "rev (d @ x) = rev x @ slash # rev ys" using that(2) by simp
      moreover have "takeWhile (\<lambda>c. c \<noteq> slash) (rev x @ slash # rev ys) = rev x"
        using that(1) by (subst takeWhile_append2) auto
      ultimately show ?thesis by simp
    qed
    show ?thesis using tail [OF that(2,4)] tail [OF that(3,5)] that(1) by (metis rev_rev_ident)
  qed
  from join_path_file [OF assms(1), of dir] join_path_file [OF assms(2), of dir] assms
  show ?thesis by (metis file_name_def suffix)
qed

end
