(* ===== verification/Cluster.thy ===== *)
theory Cluster
  imports Bench QC GoText
begin

section \<open>The benchmark cluster\<close>

text \<open>
  The round driver of \<^verbatim>\<open>internal/benchutil/cluster.go\<close>: an in-process cluster that proposes a
  block, signs it with a quorum of keys, builds the certificate, updates the safety states and
  pushes the block through the window and the delivery counter. Timing is left out; key
  generation (\<open>keygen\<close>, the key pair of replica \<open>i\<close> or a failure), SHA-256 and ECDSA signing are
  arguments. The configuration store is shared with the delivery counter and lives there. A
  round that fails leaves behind what it had done, so a round answers the state with its result.
\<close>

subsection \<open>State and construction\<close>

datatype cluster_error =
    TooFewNodes
  | KeygenFailed nat
  | RoundSignFailed nat crypto_error
  | RoundQCFailed crypto_error
  | IndexRange int
  | ClusterPanic panic

record ('pk, 'sk) BenchCluster =
  cl_N :: int
  cl_MC :: "'pk Committee"
  cl_keys :: "'sk list"
  cl_safety :: "safeNodeState list"
  cl_pipeline :: pipelineWindow
  cl_chain :: memBlockchain
  cl_dlv :: "'pk deliverCounter"
  cl_curView :: u64
  cl_curHeight :: u64
  cl_genericQC :: "QuorumCert option"
  cl_lastHash :: bytes

definition genesis :: Block where
  "genesis = \<lparr>ParentHash = replicate 32 0, Batch = [], Justify = None, Height = 0, ConfNumber = 0\<rparr>"

definition genesis_qc :: "bytes \<Rightarrow> QuorumCert" where
  "genesis_qc h = \<lparr>qc_Type = '''', qc_ViewNumber = 0, qc_ConfNumber = 0, qc_BlockHash = h,
     qc_Signatures = [], qc_SignerIds = []\<rparr>"

text \<open>The loop that generates \<open>count\<close> keys from replica \<open>i\<close> on.\<close>

primrec gen_replicas :: "(nat \<Rightarrow> ('sk \<times> 'pk) option) \<Rightarrow> nat \<Rightarrow> nat
    \<Rightarrow> cluster_error + ('sk list \<times> 'pk Replica list)" where
  "gen_replicas keygen i 0 = Inr ([], [])"
| "gen_replicas keygen i (Suc count) =
     (case keygen i of
        None \<Rightarrow> Inl (KeygenFailed (i + 1))
      | Some (sk, pk) \<Rightarrow>
          (case gen_replicas keygen (Suc i) count of
             Inl e \<Rightarrow> Inl e
           | Inr (sks, reps) \<Rightarrow>
               Inr (sk # sks,
                    \<lparr>ID = ''P'' @ decimal (i + 1), Addr = ''127.0.0.1:'' @ decimal (8000 + i + 1),
                     PubKey = Some pk\<rparr> # reps)))"

definition NewBenchCluster :: "(bytes \<Rightarrow> bytes) \<Rightarrow> (nat \<Rightarrow> ('sk \<times> 'pk) option)
    \<Rightarrow> (nat \<Rightarrow> 'pk Committee channel) \<Rightarrow> int \<Rightarrow> cluster_error + ('pk, 'sk) BenchCluster" where
  "NewBenchCluster sha keygen heap n =
     (if n < 4 then Inl TooFewNodes
      else case gen_replicas keygen 0 (nat n) of
        Inl e \<Rightarrow> Inl e
      | Inr (keys, reps) \<Rightarrow>
          (let mc = NewCommittee 0 reps;
               chain = put sha newMemBlockchain genesis;
               genesisHash = bench_hashBlock sha genesis;
               genesisQC = genesis_qc genesisHash
           in Inr \<lparr>cl_N = n, cl_MC = mc, cl_keys = keys,
                   cl_safety = replicate (nat n) \<lparr>lockedQC = None, genericQC = Some genesisQC\<rparr>,
                   cl_pipeline = empty_window, cl_chain = chain,
                   cl_dlv = \<lparr>dc_delivered = 0, dc_configs = NewConfigStore mc heap\<rparr>,
                   cl_curView = 1, cl_curHeight = 1, cl_genericQC = Some genesisQC,
                   cl_lastHash = genesisHash\<rparr>))"

subsection \<open>A round\<close>

text \<open>The loop over the keys; \<open>reps\<close> is indexed after signing.\<close>

primrec sign_votes :: "('sk \<Rightarrow> crypto_error + bytes) \<Rightarrow> u64 \<Rightarrow> u64 \<Rightarrow> bytes \<Rightarrow> 'pk Replica list
    \<Rightarrow> nat \<Rightarrow> 'sk list \<Rightarrow> cluster_error + VoteMsg list" where
  "sign_votes sign view conf h reps i [] = Inr []"
| "sign_votes sign view conf h reps i (k # ks) =
     (case sign k of
        Inl e \<Rightarrow> Inl (RoundSignFailed (i + 1) e)
      | Inr sig \<Rightarrow>
          (if length reps \<le> i then Inl (ClusterPanic IndexOutOfRange)
           else case sign_votes sign view conf h reps (Suc i) ks of
                  Inl e \<Rightarrow> Inl e
                | Inr vs \<Rightarrow>
                    Inr (\<lparr>vote_ViewNumber = view, vote_ConfNumber = conf, vote_BlockHash = h,
                          vote_Signature = sig, vote_SignerId = ID (reps ! i)\<rparr> # vs)))"

definition update_safety :: "(bytes \<Rightarrow> bytes) \<Rightarrow> memBlockchain \<Rightarrow> Block \<Rightarrow> QuorumCert
    \<Rightarrow> safeNodeState \<Rightarrow> safeNodeState" where
  "update_safety sha chain block qc s =
     (if bench_safeNode s block (Justify block) chain then
        (let s1 = s\<lparr>genericQC := Some qc\<rparr> in
         case Get chain (ParentHash block) of
           None \<Rightarrow> s1
         | Some parent \<Rightarrow>
             (if ParentHash block = bench_hashBlock sha parent
              then s1\<lparr>lockedQC := Justify block\<rparr> else s1))
      else s)"

definition round_block :: "('pk, 'sk) BenchCluster \<Rightarrow> 'pk Committee \<Rightarrow> MembershipRequest list \<Rightarrow> Block" where
  "round_block c mc batch =
     \<lparr>ParentHash = cl_lastHash c, Batch = batch, Justify = cl_genericQC c,
      Height = cl_curHeight c, ConfNumber = Number mc\<rparr>"

definition RunRound :: "(bytes \<Rightarrow> bytes) \<Rightarrow> (bytes \<Rightarrow> 'pk ParsedKey option)
    \<Rightarrow> ('sk \<Rightarrow> bytes \<Rightarrow> (nat \<times> nat) option) \<Rightarrow> MembershipRequest list \<Rightarrow> ('pk, 'sk) BenchCluster
    \<Rightarrow> ('pk, 'sk) BenchCluster \<times> (cluster_error + int)" where
  "RunRound sha parsePKIX ecdsaSign batch c =
     (case Latest (dc_configs (cl_dlv c)) of
        Inl p \<Rightarrow> (c, Inl (ClusterPanic p))
      | Inr mc \<Rightarrow>
          (let qSize = QuorumSize mc;
               block = round_block c mc batch;
               c1 = c\<lparr>cl_chain := put sha (cl_chain c) block\<rparr>;
               blockHash = bench_hashBlock sha block
           in case sign_votes (\<lambda>k. Sign sha ecdsaSign k (cl_curView c) (Number mc) blockHash)
                     (cl_curView c) (Number mc) blockHash (Replicas mc) 0 (take (nat qSize) (cl_keys c)) of
                Inl e \<Rightarrow> (c1, Inl e)
              | Inr votes \<Rightarrow>
                  (case CreateQC (foldl AggregateVotes [] votes) mc of
                     Inl e \<Rightarrow> (c1, Inl (RoundQCFailed e))
                   | Inr qc0 \<Rightarrow>
                       (let qc = qc0\<lparr>qc_ViewNumber := cl_curView c\<rparr>;
                            safety' = map (update_safety sha (cl_chain c1) block qc) (cl_safety c)
                        in case bench_advance sha (cl_pipeline c) block of
                             (p, toCommit) \<Rightarrow>
                               (case (case toCommit of
                                        None \<Rightarrow> (cl_dlv c, 0)
                                      | Some b \<Rightarrow> counter_deliver parsePKIX (cl_dlv c) b) of
                                  (dlv, txDelivered) \<Rightarrow>
                                    (c1\<lparr>cl_safety := safety', cl_pipeline := p, cl_dlv := dlv,
                                        cl_genericQC := Some qc, cl_lastHash := blockHash,
                                        cl_curView := cl_curView c + 1,
                                        cl_curHeight := cl_curHeight c + 1\<rparr>,
                                     Inr txDelivered))))))"

primrec RunRounds :: "(bytes \<Rightarrow> bytes) \<Rightarrow> (bytes \<Rightarrow> 'pk ParsedKey option)
    \<Rightarrow> ('sk \<Rightarrow> bytes \<Rightarrow> (nat \<times> nat) option) \<Rightarrow> MembershipRequest list \<Rightarrow> int \<Rightarrow> nat
    \<Rightarrow> ('pk, 'sk) BenchCluster \<Rightarrow> ('pk, 'sk) BenchCluster \<times> (cluster_error + int)" where
  "RunRounds sha parsePKIX ecdsaSign batch txTotal 0 c = (c, Inr txTotal)"
| "RunRounds sha parsePKIX ecdsaSign batch txTotal (Suc rounds) c =
     (case RunRound sha parsePKIX ecdsaSign batch c of
        (c', Inl e) \<Rightarrow> (c', Inl e)
      | (c', Inr tx) \<Rightarrow> RunRounds sha parsePKIX ecdsaSign batch (txTotal + tx) rounds c')"

subsection \<open>The other operations\<close>

definition SignBlock :: "(bytes \<Rightarrow> bytes) \<Rightarrow> ('sk \<Rightarrow> bytes \<Rightarrow> (nat \<times> nat) option)
    \<Rightarrow> ('pk, 'sk) BenchCluster \<Rightarrow> int \<Rightarrow> u64 \<Rightarrow> u64 \<Rightarrow> bytes \<Rightarrow> cluster_error + bytes" where
  "SignBlock sha ecdsaSign c idx view conf h =
     (if idx < 0 \<or> int (length (cl_keys c)) \<le> idx then Inl (IndexRange idx)
      else case Sign sha ecdsaSign (cl_keys c ! nat idx) view conf h of
             Inl e \<Rightarrow> Inl (RoundSignFailed (nat idx) e)
           | Inr sig \<Rightarrow> Inr sig)"

definition CreateQCFromVotes :: "('pk, 'sk) BenchCluster \<Rightarrow> VoteMsg list \<Rightarrow> cluster_error + QuorumCert" where
  "CreateQCFromVotes c votes =
     (case Latest (dc_configs (cl_dlv c)) of
        Inl p \<Rightarrow> Inl (ClusterPanic p)
      | Inr mc \<Rightarrow> (case CreateQC votes mc of Inl e \<Rightarrow> Inl (RoundQCFailed e) | Inr qc \<Rightarrow> Inr qc))"

definition ClusterReset :: "(bytes \<Rightarrow> bytes) \<Rightarrow> ('pk, 'sk) BenchCluster \<Rightarrow> ('pk, 'sk) BenchCluster" where
  "ClusterReset sha c =
     (let genesisHash = bench_hashBlock sha genesis;
          genesisQC = genesis_qc genesisHash
      in c\<lparr>cl_pipeline := empty_window, cl_curView := 1, cl_curHeight := 1,
           cl_chain := put sha newMemBlockchain genesis, cl_genericQC := Some genesisQC,
           cl_lastHash := genesisHash,
           cl_safety := map (\<lambda>_. \<lparr>lockedQC = None, genericQC = Some genesisQC\<rparr>) (cl_safety c),
           cl_dlv := counter_reset (cl_dlv c)\<rparr>)"

definition TotalDelivered :: "('pk, 'sk) BenchCluster \<Rightarrow> int" where
  "TotalDelivered c = counter_total (cl_dlv c)"

text \<open>\<open>MakeBatch\<close>: the transaction count is computed in 64-bit integers; a negative one panics.\<close>

definition tx_payload :: "nat \<Rightarrow> bytes" where
  "tx_payload i = [of_nat i, of_nat (i div 256)] @ map of_nat [2..<250]"

definition MakeBatch :: "64 word \<Rightarrow> panic + MembershipRequest list" where
  "MakeBatch payloadMB =
     (let txCount = sint (payloadMB * 1024 * 1024) sdiv 250 in
      if txCount < 0 then Inl SliceBounds
      else Inr (map (\<lambda>i. \<lparr>rq_Type = RequestType_REGULAR, rq_ClientId = ''c'' @ decimal (i mod 100),
                          rq_Payload = tx_payload i\<rparr>) [0..<nat txCount]))"

subsection \<open>Signing and certifying a round\<close>

lemma sign_votes_Inr:
  assumes "\<forall>k \<in> set ks. \<exists>sig. sign k = Inr sig" "i + length ks \<le> length reps"
  shows "\<exists>vs. sign_votes sign view conf h reps i ks = Inr vs \<and>
    map vote_SignerId vs = map ID (take (length ks) (drop i reps)) \<and>
    (\<forall>v \<in> set vs. vote_BlockHash v = h \<and> vote_ViewNumber v = view)"
  using assms
proof (induction ks arbitrary: i)
  case (Cons k ks)
  then obtain sig where sig: "sign k = Inr sig" by auto
  from Cons.IH [of "Suc i"] Cons.prems obtain vs where
    vs: "sign_votes sign view conf h reps (Suc i) ks = Inr vs"
      "map vote_SignerId vs = map ID (take (length ks) (drop (Suc i) reps))"
      "\<forall>v \<in> set vs. vote_BlockHash v = h \<and> vote_ViewNumber v = view" by auto
  have "drop i reps = reps ! i # drop (Suc i) reps"
    using Cons.prems(2) by (simp add: Cons_nth_drop_Suc)
  with sig vs Cons.prems(2) show ?case by simp
qed simp

lemma foldl_Aggregate_distinct:
  "distinct (map vote_SignerId (acc @ vs)) \<Longrightarrow> foldl AggregateVotes acc vs = acc @ vs"
proof (induction vs arbitrary: acc)
  case (Cons v vs)
  then have "AggregateVotes acc v = acc @ [v]" by (auto simp: AggregateVotes_def signers_def)
  with Cons show ?case by simp
qed simp

text \<open>The conditions under which a round cannot fail.\<close>

definition round_ready :: "(bytes \<Rightarrow> bytes) \<Rightarrow> ('sk \<Rightarrow> bytes \<Rightarrow> (nat \<times> nat) option)
    \<Rightarrow> 'pk Committee \<Rightarrow> 'sk list \<Rightarrow> bool" where
  "round_ready sha ecdsaSign mc keys \<longleftrightarrow> committee_valid mc \<and> length keys = length (Replicas mc) \<and>
     (\<forall>k \<in> set keys. \<forall>dig. \<exists>r s. ecdsaSign k dig = Some (r, s) \<and> r < 2 ^ 256 \<and> s < 2 ^ 256)"

lemma Sign_defined:
  assumes "ecdsaSign k (hashTuple sha v c h) = Some (r, s)" "r < 2 ^ 256" "s < 2 ^ 256"
  shows "\<exists>sig. Sign sha ecdsaSign k v c h = Inr sig"
proof -
  have "(256 :: nat) ^ 32 = 2 ^ 256" by simp
  with assms show ?thesis by (simp add: Sign_def Let_def encodeRS_eq)
qed

lemma round_certificate:
  assumes "round_ready sha ecdsaSign mc keys"
  shows "\<exists>vs qc. sign_votes (\<lambda>k. Sign sha ecdsaSign k view conf h) view conf h (Replicas mc) 0
      (take (nat (QuorumSize mc)) keys) = Inr vs \<and>
    CreateQC (foldl AggregateVotes [] vs) mc = Inr qc \<and> qc_BlockHash qc = h"
proof -
  let ?ks = "take (nat (QuorumSize mc)) keys"
  have v: "committee_valid mc" and len: "length keys = length (Replicas mc)"
    and all: "\<forall>k \<in> set keys. \<forall>dig. \<exists>r s. ecdsaSign k dig = Some (r, s) \<and> r < 2 ^ 256 \<and> s < 2 ^ 256"
    using assms by (simp_all add: round_ready_def)
  have q: "QuorumSize mc = int (quorum_size (length (Replicas mc)))"
    by (rule committee_valid_QuorumSize [OF v])
  have "0 < length (Replicas mc)" using v by (simp add: committee_valid_def)
  then have qle: "quorum_size (length (Replicas mc)) \<le> length (Replicas mc)"
    using quorum_size_available by fastforce
  have ok: "\<forall>k \<in> set ?ks. \<exists>sig. Sign sha ecdsaSign k view conf h = Inr sig"
    using all by (meson Sign_defined in_set_takeD)
  obtain vs where vs: "sign_votes (\<lambda>k. Sign sha ecdsaSign k view conf h) view conf h (Replicas mc) 0 ?ks = Inr vs"
    "map vote_SignerId vs = map ID (take (length ?ks) (drop 0 (Replicas mc)))"
    "\<forall>v \<in> set vs. vote_BlockHash v = h \<and> vote_ViewNumber v = view"
    using sign_votes_Inr [OF ok, of 0 "Replicas mc" view conf h] len by auto
  have m: "map vote_SignerId vs = take (quorum_size (length (Replicas mc))) (ids mc)"
    using vs(2) q qle len by (simp add: ids_def take_map)
  then have d: "distinct (map vote_SignerId vs)"
    using v by (simp add: committee_valid_def distinct_ids_def)
  have "card (signers vs) = length vs"
    using distinct_card [OF d] by (simp add: signers_def)
  moreover have lv: "length vs = quorum_size (length (Replicas mc))"
    using arg_cong [OF m, of length] qle by (simp add: ids_def)
  ultimately have "HasQuorum vs mc" using q by (simp add: HasQuorum_iff)
  then obtain qc where qc: "CreateQC vs mc = Inr qc"
    using CreateQC_total [of mc vs] q by auto
  have "vs \<noteq> []" using lv quorum_size_pos [of "length (Replicas mc)"] by force
  then have "qc_BlockHash qc = h"
    using qc vs(3) q by (simp add: CreateQC_Inr)
  with vs(1) qc foldl_Aggregate_distinct [of "[]" vs] d show ?thesis by auto
qed

lemma counter_deliver_regular:
  assumes "\<forall>r \<in> set (Batch b). rq_Type r = RequestType_REGULAR"
  shows "counter_deliver p d b =
    (d\<lparr>dc_delivered := dc_delivered d + int (length (Batch b))\<rparr>, int (length (Batch b)))"
proof -
  have "filter (\<lambda>req. rq_Type req \<noteq> RequestType_REGULAR) (Batch b) = []"
    using assms by (simp add: filter_empty_conv)
  then show ?thesis by (simp add: counter_deliver_def Let_def split: sum.splits)
qed

subsection \<open>The commits of a benchmark run\<close>

text \<open>
  The state after the blocks \<open>bs\<close> were proposed: they form a chain, the window has been fed with
  them, and the next block will extend the last one.
\<close>

definition cluster_ok :: "(bytes \<Rightarrow> bytes) \<Rightarrow> ('sk \<Rightarrow> bytes \<Rightarrow> (nat \<times> nat) option)
    \<Rightarrow> MembershipRequest list \<Rightarrow> Block list \<Rightarrow> ('pk, 'sk) BenchCluster \<Rightarrow> bool" where
  "cluster_ok sha ecdsaSign batch bs c \<longleftrightarrow>
     (\<exists>mc. Latest (dc_configs (cl_dlv c)) = Inr mc \<and> round_ready sha ecdsaSign mc (cl_keys c)) \<and>
     cl_pipeline c = fst (feed (bench_advance sha) empty_window bs) \<and>
     chained sha (rev bs) \<and> (\<forall>b \<in> set bs. Batch b = batch) \<and>
     (bs \<noteq> [] \<longrightarrow> cl_lastHash c = hashBlock sha (last bs)) \<and>
     dc_delivered (cl_dlv c) = int (length bs - 4) * int (length batch)"

lemma chained_ConsI: "chained sha bs \<Longrightarrow> (bs \<noteq> [] \<Longrightarrow> extends sha b (hd bs)) \<Longrightarrow> chained sha (b # bs)"
  by (cases bs) auto

lemma chained_appendD: "chained sha (xs @ ys) \<Longrightarrow> chained sha xs \<and> chained sha ys"
proof (induction xs)
  case (Cons x xs)
  then show ?case by (cases xs; cases ys) auto
qed simp

lemma chained_middle: "chained sha (rev bs) \<Longrightarrow> chained sha (rev (take n (drop k bs)))"
proof -
  assume c: "chained sha (rev bs)"
  have "bs = take k bs @ take n (drop k bs) @ drop n (drop k bs)"
    by (simp only: append_take_drop_id)
  then have "rev bs = rev (drop n (drop k bs)) @ rev (take n (drop k bs)) @ rev (take k bs)"
    by (metis append.assoc rev_append)
  with c show ?thesis by (metis chained_appendD)
qed

lemma RunRound_ok:
  assumes ok: "cluster_ok sha ecdsaSign batch bs c"
    and reg: "\<forall>r \<in> set batch. rq_Type r = RequestType_REGULAR"
  shows "\<exists>c' blk. RunRound sha p ecdsaSign batch c =
      (c', Inr (if 4 \<le> length bs then int (length batch) else 0)) \<and>
    cluster_ok sha ecdsaSign batch (bs @ [blk]) c'"
proof -
  obtain mc where mc: "Latest (dc_configs (cl_dlv c)) = Inr mc" and ready: "round_ready sha ecdsaSign mc (cl_keys c)"
    using ok by (auto simp: cluster_ok_def)
  let ?b = "round_block c mc batch" and ?n = "int (length batch)"
  let ?h = "bench_hashBlock sha ?b" and ?w = "cl_pipeline c"
  from round_certificate [OF ready, of "cl_curView c" "Number mc" ?h] obtain vs qc where
    vs: "sign_votes (\<lambda>k. Sign sha ecdsaSign k (cl_curView c) (Number mc) ?h) (cl_curView c) (Number mc) ?h
      (Replicas mc) 0 (take (nat (QuorumSize mc)) (cl_keys c)) = Inr vs"
    and qc: "CreateQC (foldl AggregateVotes [] vs) mc = Inr qc" by blast
  have w: "?w = fst (feed (bench_advance sha) empty_window bs)" and ch: "chained sha (rev bs)"
    and bat: "\<forall>b \<in> set bs. Batch b = batch" and last: "bs \<noteq> [] \<longrightarrow> cl_lastHash c = hashBlock sha (last bs)"
    and del: "dc_delivered (cl_dlv c) = int (length bs - 4) * ?n"
    using ok by (simp_all add: cluster_ok_def)
  have feed: "feed (bench_advance sha) empty_window (bs @ [?b]) =
      (fst (bench_advance sha ?w ?b), snd (feed (bench_advance sha) empty_window bs) @ [snd (bench_advance sha ?w ?b)])"
    by (simp add: feed_append w split_def Let_def)
  have ch': "chained sha (rev (bs @ [?b]))"
    using ch last by (auto simp: extends_def round_block_def hd_rev intro: chained_ConsI)
  have "snd (bench_advance sha ?w ?b) = bench_pipe.committed_at sha (bs @ [?b]) (length bs)"
    using bench_pipe.feed_outputs [of "length bs" "bs @ [?b]" sha]
    by (simp add: feed nth_append bench_pipe.feed_length)
  then have out: "snd (bench_advance sha ?w ?b) = (if 4 \<le> length bs then Some (bs ! (length bs - 4)) else None)"
    using chained_middle [OF ch', of 4 "length bs - 4"]
    by (auto simp: bench_pipe.committed_at_def nth_append)
  define r where "r = (case snd (bench_advance sha ?w ?b) of None \<Rightarrow> (cl_dlv c, 0)
      | Some b \<Rightarrow> counter_deliver p (cl_dlv c) b)"
  have r: "r = ((cl_dlv c)\<lparr>dc_delivered := int (length (bs @ [?b]) - 4) * ?n\<rparr>, if 4 \<le> length bs then ?n else 0)"
  proof (cases "4 \<le> length bs")
    case True
    then have "Batch (bs ! (length bs - 4)) = batch" using bat by simp
    with True reg show ?thesis
      by (simp add: r_def out counter_deliver_regular del Suc_diff_le algebra_simps)
  next
    case False
    then show ?thesis by (simp add: r_def out del)
  qed
  have step: "RunRound sha p ecdsaSign batch c =
     (c\<lparr>cl_chain := put sha (cl_chain c) ?b,
        cl_safety := map (update_safety sha (put sha (cl_chain c) ?b) ?b (qc\<lparr>qc_ViewNumber := cl_curView c\<rparr>)) (cl_safety c),
        cl_pipeline := fst (bench_advance sha ?w ?b), cl_dlv := fst r,
        cl_genericQC := Some (qc\<lparr>qc_ViewNumber := cl_curView c\<rparr>), cl_lastHash := ?h,
        cl_curView := cl_curView c + 1, cl_curHeight := cl_curHeight c + 1\<rparr>, Inr (snd r))"
    by (simp add: RunRound_def mc vs qc Let_def split_def r_def)
  have "cluster_ok sha ecdsaSign batch (bs @ [?b]) (fst (RunRound sha p ecdsaSign batch c))"
    using mc ready bat ch' unfolding cluster_ok_def step feed
    by (auto simp: r round_block_def bench_hashBlock_eq)
  with step r show ?thesis by (metis fst_conv snd_conv)
qed

lemma RunRounds_ok:
  assumes "cluster_ok sha ecdsaSign batch bs c"
    and "\<forall>r \<in> set batch. rq_Type r = RequestType_REGULAR"
  shows "\<exists>c' bs'. RunRounds sha p ecdsaSign batch tx k c =
      (c', Inr (tx + int ((length bs + k - 4) - (length bs - 4)) * int (length batch))) \<and>
    length bs' = length bs + k \<and> cluster_ok sha ecdsaSign batch bs' c'"
  using assms(1)
proof (induction k arbitrary: bs c tx)
  case (Suc k)
  let ?n = "int (length batch)"
  from RunRound_ok [OF Suc.prems assms(2)] obtain c1 blk where
    one: "RunRound sha p ecdsaSign batch c = (c1, Inr (if 4 \<le> length bs then ?n else 0))"
    and ok: "cluster_ok sha ecdsaSign batch (bs @ [blk]) c1" by blast
  from Suc.IH [OF ok] obtain c' bs' where
    "RunRounds sha p ecdsaSign batch (tx + (if 4 \<le> length bs then ?n else 0)) k c1 =
      (c', Inr (tx + (if 4 \<le> length bs then ?n else 0) +
         int ((length (bs @ [blk]) + k - 4) - (length (bs @ [blk]) - 4)) * ?n))"
    "length bs' = length (bs @ [blk]) + k" "cluster_ok sha ecdsaSign batch bs' c'" by blast
  moreover have "int ((length bs + Suc k - 4) - (length bs - 4)) * ?n =
      (if 4 \<le> length bs then ?n else 0) + int ((length (bs @ [blk]) + k - 4) - (length (bs @ [blk]) - 4)) * ?n"
    by (cases "4 \<le> length bs") (auto simp: Suc_diff_le distrib_left mult.commute)
  ultimately show ?case using one by (intro exI [of _ c'] exI [of _ bs']) (simp add: algebra_simps)
qed auto

subsection \<open>A fresh cluster is ready\<close>

lemma gen_replicas_Inr:
  "gen_replicas keygen i k = Inr (keys, reps) \<Longrightarrow>
     length keys = k \<and> map ID reps = map (\<lambda>j. ''P'' @ decimal (j + 1)) [i..<i + k] \<and>
     (\<forall>sk \<in> set keys. \<exists>j pk. keygen j = Some (sk, pk))"
proof (induction k arbitrary: i keys reps)
  case (Suc k)
  from Suc.prems obtain sk pk keys' reps' where g: "keygen i = Some (sk, pk)"
    "gen_replicas keygen (Suc i) k = Inr (keys', reps')" "keys = sk # keys'"
    "reps = \<lparr>ID = ''P'' @ decimal (i + 1), Addr = ''127.0.0.1:'' @ decimal (8000 + i + 1),
       PubKey = Some pk\<rparr> # reps'"
    by (auto split: option.splits sum.splits)
  have "[i..<i + Suc k] = i # [Suc i..<Suc i + k]" by (simp add: upt_rec)
  with Suc.IH [OF g(2)] g show ?case by auto
qed simp

lemma gen_replicas_valid:
  assumes "gen_replicas keygen 0 k = Inr (keys, reps)"
  shows "length reps = k" "length keys = length reps"
    "0 < k \<Longrightarrow> committee_valid (NewCommittee 0 reps)"
proof -
  note i = gen_replicas_Inr [OF assms]
  show "length reps = k" using i by (metis length_map length_upt add_0 diff_zero)
  then show "length keys = length reps" using i by simp
  have "distinct (map ID reps)" using i by (simp add: distinct_map inj_on_def)
  then show "0 < k \<Longrightarrow> committee_valid (NewCommittee 0 reps)"
    using \<open>length reps = k\<close> by (auto simp: committee_valid_def distinct_ids_def ids_def)
qed

lemma NewBenchCluster_ok:
  assumes "NewBenchCluster sha keygen heap n = Inr c"
    and "\<And>i sk pk dig. keygen i = Some (sk, pk) \<Longrightarrow>
           \<exists>r s. ecdsaSign sk dig = Some (r, s) \<and> r < 2 ^ 256 \<and> s < 2 ^ 256"
  shows "cluster_ok sha ecdsaSign batch [] c"
proof -
  from assms(1) obtain keys reps where n: "4 \<le> n" and g: "gen_replicas keygen 0 (nat n) = Inr (keys, reps)"
    and c: "cl_keys c = keys" "cl_pipeline c = empty_window" "dc_delivered (cl_dlv c) = 0"
      "dc_configs (cl_dlv c) = NewConfigStore (NewCommittee 0 reps) heap"
    by (auto simp: NewBenchCluster_def Let_def split: if_splits sum.splits)
  have "committee_valid (NewCommittee 0 reps)" "length keys = length reps"
    using gen_replicas_valid [OF g] n by simp_all
  then have "round_ready sha ecdsaSign (NewCommittee 0 reps) keys"
    using gen_replicas_Inr [OF g] assms(2) unfolding round_ready_def by (metis NewCommittee_simps(2))
  then show ?thesis
    by (simp add: cluster_ok_def c Latest_def NewConfigStore_def)
qed

end
