(* ===== verification/RepCluster.thy ===== *)
theory RepCluster
  imports Cluster Reputation
begin

section \<open>The reputation benchmark cluster\<close>

text \<open>
  The round driver of \<^verbatim>\<open>internal/repbench/cluster.go\<close>: rounds led by round-robin or by
  reputation, in which a leader from a given Byzantine set times out. Timing is left out. As in
  \<open>Cluster\<close>, a round answers the state together with its result or error.
\<close>

datatype LeaderMode = ModeRoundRobin | ModeReputation

record ('pk, 'sk) RepBenchCluster =
  rc_N :: int
  rc_Mode :: LeaderMode
  rc_MC :: "'pk Committee"
  rc_keys :: "'sk list"
  rc_safety :: "safeNodeState list"
  rc_pipeline :: pipelineWindow
  rc_chain :: rep_memBlockchain
  rc_curView :: u64
  rc_curHeight :: u64
  rc_genericQC :: "QuorumCert option"
  rc_lastHash :: bytes
  rc_byzantineIDs :: "string set"
  rc_repStore :: "Store option"
  rc_delivered :: int
  rc_viewChanges :: int
  rc_successRound :: int

record RepRoundResult =
  rr_Leader :: string
  rr_WasTimeout :: bool
  rr_TxDelivered :: int

definition NewRepBenchCluster :: "(bytes \<Rightarrow> bytes) \<Rightarrow> (nat \<Rightarrow> ('sk \<times> 'pk) option)
    \<Rightarrow> int \<Rightarrow> LeaderMode \<Rightarrow> int list \<Rightarrow> cluster_error + ('pk, 'sk) RepBenchCluster" where
  "NewRepBenchCluster sha keygen n mode byzantineIndices =
     (if n < 4 then Inl TooFewNodes
      else case gen_replicas keygen 0 (nat n) of
        Inl e \<Rightarrow> Inl e
      | Inr (keys, reps) \<Rightarrow>
          (let byzantineIDs = (\<lambda>idx. ''P'' @ decimal (nat idx + 1))
                 ` set (filter (\<lambda>idx. 0 \<le> idx \<and> idx < n) byzantineIndices);
               genesisHash = rep_hashBlock sha genesis;
               genesisQC = genesis_qc genesisHash
           in Inr \<lparr>rc_N = n, rc_Mode = mode, rc_MC = NewCommittee 0 reps, rc_keys = keys,
                   rc_safety = replicate (nat n) \<lparr>lockedQC = None, genericQC = Some genesisQC\<rparr>,
                   rc_pipeline = empty_window, rc_chain = rep_put sha rep_newMemBlockchain genesis,
                   rc_curView = 1, rc_curHeight = 1, rc_genericQC = Some genesisQC,
                   rc_lastHash = genesisHash, rc_byzantineIDs = byzantineIDs,
                   rc_repStore = (if mode = ModeReputation then Some NewStore else None),
                   rc_delivered = 0, rc_viewChanges = 0, rc_successRound = 0\<rparr>))"

text \<open>The selector is present exactly when the store is.\<close>

definition rep_selectLeader :: "('pk, 'sk) RepBenchCluster \<Rightarrow> panic + 'pk Replica option" where
  "rep_selectLeader c =
     (case (rc_Mode c, rc_repStore c) of
        (ModeReputation, Some s) \<Rightarrow> Inr (Select s (rc_MC c) (rc_curView c))
      | _ \<Rightarrow> (case Leader (rc_MC c) (rc_curView c) of Inl p \<Rightarrow> Inl p | Inr r \<Rightarrow> Inr (Some r)))"

definition rep_update_safety :: "(bytes \<Rightarrow> bytes) \<Rightarrow> memBlockchain \<Rightarrow> Block \<Rightarrow> QuorumCert
    \<Rightarrow> safeNodeState \<Rightarrow> safeNodeState" where
  "rep_update_safety sha chain block qc s =
     (if rep_safeNode s block (Justify block) chain then
        (let s1 = s\<lparr>genericQC := Some qc\<rparr> in
         case rep_Get chain (ParentHash block) of
           None \<Rightarrow> s1
         | Some parent \<Rightarrow>
             (if ParentHash block = rep_hashBlock sha parent
              then s1\<lparr>lockedQC := Justify block\<rparr> else s1))
      else s)"

text \<open>The signatures of a simulated view change: only whether they succeed matters.\<close>

primrec sign_each :: "('sk \<Rightarrow> crypto_error + bytes) \<Rightarrow> nat \<Rightarrow> 'sk list \<Rightarrow> cluster_error option" where
  "sign_each sign i [] = None"
| "sign_each sign i (k # ks) =
     (case sign k of Inl e \<Rightarrow> Some (RoundSignFailed (i + 1) e) | Inr _ \<Rightarrow> sign_each sign (Suc i) ks)"

definition rep_block :: "('pk, 'sk) RepBenchCluster \<Rightarrow> MembershipRequest list \<Rightarrow> Block" where
  "rep_block c batch =
     \<lparr>ParentHash = rc_lastHash c, Batch = batch, Justify = rc_genericQC c,
      Height = rc_curHeight c, ConfNumber = 0\<rparr>"

definition timeout_round :: "(bytes \<Rightarrow> bytes) \<Rightarrow> ('sk \<Rightarrow> bytes \<Rightarrow> (nat \<times> nat) option) \<Rightarrow> string
    \<Rightarrow> ('pk, 'sk) RepBenchCluster \<Rightarrow> ('pk, 'sk) RepBenchCluster \<times> (cluster_error + RepRoundResult)" where
  "timeout_round sha ecdsaSign leader c =
     (case sign_each (\<lambda>k. Sign sha ecdsaSign k (rc_curView c) 0 (replicate 32 0)) 0
             (take (nat (QuorumSize (rc_MC c))) (rc_keys c)) of
        Some e \<Rightarrow> (c, Inl e)
      | None \<Rightarrow>
          (c\<lparr>rc_repStore := map_option (\<lambda>s. RecordTimeout s leader) (rc_repStore c),
             rc_viewChanges := rc_viewChanges c + 1, rc_curView := rc_curView c + 1\<rparr>,
           Inr \<lparr>rr_Leader = leader, rr_WasTimeout = True, rr_TxDelivered = 0\<rparr>))"

definition honest_round :: "(bytes \<Rightarrow> bytes) \<Rightarrow> ('sk \<Rightarrow> bytes \<Rightarrow> (nat \<times> nat) option)
    \<Rightarrow> MembershipRequest list \<Rightarrow> string
    \<Rightarrow> ('pk, 'sk) RepBenchCluster \<Rightarrow> ('pk, 'sk) RepBenchCluster \<times> (cluster_error + RepRoundResult)" where
  "honest_round sha ecdsaSign batch leader c =
     (let block = rep_block c batch;
          c1 = c\<lparr>rc_chain := rep_put sha (rc_chain c) block\<rparr>;
          blockHash = rep_hashBlock sha block
      in case sign_votes (\<lambda>k. Sign sha ecdsaSign k (rc_curView c) 0 blockHash) (rc_curView c) 0
                blockHash (Replicas (rc_MC c)) 0 (take (nat (QuorumSize (rc_MC c))) (rc_keys c)) of
           Inl e \<Rightarrow> (c1, Inl e)
         | Inr votes \<Rightarrow>
             (case CreateQC (foldl AggregateVotes [] votes) (rc_MC c) of
                Inl e \<Rightarrow> (c1, Inl (RoundQCFailed e))
              | Inr qc0 \<Rightarrow>
                  (let qc = qc0\<lparr>qc_ViewNumber := rc_curView c\<rparr>;
                       safety' = map (rep_update_safety sha (rc_chain c1) block qc) (rc_safety c)
                   in case rep_advance sha (rc_pipeline c) block of
                        (p, toCommit) \<Rightarrow>
                          (let tx = (case toCommit of None \<Rightarrow> 0 | Some b \<Rightarrow> int (length (Batch b)))
                           in (c1\<lparr>rc_safety := safety', rc_pipeline := p,
                                  rc_delivered := rc_delivered c + tx,
                                  rc_repStore := map_option (\<lambda>s. RecordCommit s leader (rc_curHeight c)) (rc_repStore c),
                                  rc_genericQC := Some qc, rc_lastHash := blockHash,
                                  rc_curView := rc_curView c + 1, rc_curHeight := rc_curHeight c + 1,
                                  rc_successRound := rc_successRound c + 1\<rparr>,
                               Inr \<lparr>rr_Leader = leader, rr_WasTimeout = False, rr_TxDelivered = tx\<rparr>)))))"

definition RepRunRound :: "(bytes \<Rightarrow> bytes) \<Rightarrow> ('sk \<Rightarrow> bytes \<Rightarrow> (nat \<times> nat) option)
    \<Rightarrow> MembershipRequest list \<Rightarrow> ('pk, 'sk) RepBenchCluster
    \<Rightarrow> ('pk, 'sk) RepBenchCluster \<times> (cluster_error + RepRoundResult)" where
  "RepRunRound sha ecdsaSign batch c =
     (case leader_deref (rep_selectLeader c) of
        Inl p \<Rightarrow> (c, Inl (ClusterPanic p))
      | Inr leader \<Rightarrow>
          (let c1 = c\<lparr>rc_repStore := map_option (\<lambda>s. RecordLeaderRound s (ID leader)) (rc_repStore c)\<rparr>
           in if ID leader \<in> rc_byzantineIDs c1 then timeout_round sha ecdsaSign (ID leader) c1
              else honest_round sha ecdsaSign batch (ID leader) c1))"

text \<open>The loop of \<open>RunBenchmark\<close>, with its two counters of consecutive failures.\<close>

primrec benchmark_loop :: "(bytes \<Rightarrow> bytes) \<Rightarrow> ('sk \<Rightarrow> bytes \<Rightarrow> (nat \<times> nat) option)
    \<Rightarrow> MembershipRequest list \<Rightarrow> int \<Rightarrow> int \<Rightarrow> nat \<Rightarrow> ('pk, 'sk) RepBenchCluster
    \<Rightarrow> ('pk, 'sk) RepBenchCluster \<times> (cluster_error + int)" where
  "benchmark_loop sha ecdsaSign batch maxConsec curConsec 0 c = (c, Inr maxConsec)"
| "benchmark_loop sha ecdsaSign batch maxConsec curConsec (Suc rounds) c =
     (case RepRunRound sha ecdsaSign batch c of
        (c', Inl e) \<Rightarrow> (c', Inl e)
      | (c', Inr res) \<Rightarrow>
          (if rr_WasTimeout res then
             benchmark_loop sha ecdsaSign batch
               (if maxConsec < curConsec + 1 then curConsec + 1 else maxConsec) (curConsec + 1) rounds c'
           else benchmark_loop sha ecdsaSign batch maxConsec 0 rounds c'))"

record BenchResult =
  br_Mode :: string
  br_N :: int
  br_NumByzantine :: int
  br_TotalRounds :: int
  br_SuccessRounds :: int
  br_ViewChanges :: int
  br_TxDelivered :: int
  br_MaxConsecFails :: int

definition RunBenchmark :: "(bytes \<Rightarrow> bytes) \<Rightarrow> ('sk \<Rightarrow> bytes \<Rightarrow> (nat \<times> nat) option)
    \<Rightarrow> int \<Rightarrow> MembershipRequest list \<Rightarrow> ('pk, 'sk) RepBenchCluster
    \<Rightarrow> ('pk, 'sk) RepBenchCluster \<times> (cluster_error + BenchResult)" where
  "RunBenchmark sha ecdsaSign numRounds batch c =
     (case benchmark_loop sha ecdsaSign batch 0 0 (nat numRounds) c of
        (c', Inl e) \<Rightarrow> (c', Inl e)
      | (c', Inr maxConsec) \<Rightarrow>
          (c', Inr \<lparr>br_Mode = (if rc_Mode c' = ModeReputation then ''reputation'' else ''round-robin''),
                    br_N = rc_N c', br_NumByzantine = int (card (rc_byzantineIDs c')),
                    br_TotalRounds = numRounds, br_SuccessRounds = rc_successRound c',
                    br_ViewChanges = rc_viewChanges c', br_TxDelivered = rc_delivered c',
                    br_MaxConsecFails = maxConsec\<rparr>))"

definition RepReset :: "(bytes \<Rightarrow> bytes) \<Rightarrow> ('pk, 'sk) RepBenchCluster \<Rightarrow> ('pk, 'sk) RepBenchCluster" where
  "RepReset sha c =
     (let genesisHash = rep_hashBlock sha genesis; genesisQC = genesis_qc genesisHash
      in c\<lparr>rc_pipeline := rep_reset (rc_pipeline c), rc_curView := 1, rc_curHeight := 1,
           rc_delivered := 0, rc_viewChanges := 0, rc_successRound := 0,
           rc_chain := rep_put sha rep_newMemBlockchain genesis, rc_genericQC := Some genesisQC,
           rc_lastHash := genesisHash,
           rc_safety := map (\<lambda>_. \<lparr>lockedQC = None, genericQC = Some genesisQC\<rparr>) (rc_safety c),
           rc_repStore := (if rc_Mode c = ModeReputation then Some NewStore else rc_repStore c)\<rparr>)"

subsection \<open>Rounds cannot fail\<close>

definition rep_ok :: "(bytes \<Rightarrow> bytes) \<Rightarrow> ('sk \<Rightarrow> bytes \<Rightarrow> (nat \<times> nat) option)
    \<Rightarrow> MembershipRequest list \<Rightarrow> Block list \<Rightarrow> ('pk, 'sk) RepBenchCluster \<Rightarrow> bool" where
  "rep_ok sha ecdsaSign batch bs c \<longleftrightarrow>
     round_ready sha ecdsaSign (rc_MC c) (rc_keys c) \<and> length (Replicas (rc_MC c)) < 2 ^ 64 \<and>
     rc_pipeline c = fst (feed (rep_advance sha) empty_window bs) \<and>
     chained sha (rev bs) \<and> (\<forall>b \<in> set bs. Batch b = batch) \<and>
     (bs \<noteq> [] \<longrightarrow> rc_lastHash c = hashBlock sha (last bs)) \<and>
     rc_delivered c = int (length bs - 4) * int (length batch) \<and>
     rc_successRound c = int (length bs)"

text \<open>What no round changes.\<close>

definition same_setup :: "('pk, 'sk) RepBenchCluster \<Rightarrow> ('pk, 'sk) RepBenchCluster \<Rightarrow> bool" where
  "same_setup c c' \<longleftrightarrow> rc_MC c' = rc_MC c \<and> rc_keys c' = rc_keys c \<and> rc_Mode c' = rc_Mode c \<and>
     rc_byzantineIDs c' = rc_byzantineIDs c \<and> rc_N c' = rc_N c"

lemma same_setup_refl [simp]: "same_setup c c"
  by (simp add: same_setup_def)

lemma same_setup_trans: "same_setup a b \<Longrightarrow> same_setup b c \<Longrightarrow> same_setup a c"
  by (simp add: same_setup_def)

lemma rep_leader_defined:
  assumes "rep_ok sha ecdsaSign batch bs c"
  shows "\<exists>leader. leader_deref (rep_selectLeader c) = Inr leader"
proof -
  have ne: "Replicas (rc_MC c) \<noteq> []" "length (Replicas (rc_MC c)) < 2 ^ 64"
    using assms by (simp_all add: rep_ok_def round_ready_def committee_valid_def)
  obtain r where "Leader (rc_MC c) (rc_curView c) = Inr r" using Leader_Inr [OF ne] by blast
  moreover have "\<forall>s. \<exists>q. Select s (rc_MC c) (rc_curView c) = Some q"
    using Select_None [of _ "rc_MC c" "rc_curView c"] ne(1) by (metis not_None_eq)
  ultimately show ?thesis
    by (cases "rc_Mode c"; cases "rc_repStore c")
       (auto simp: rep_selectLeader_def leader_deref_def dest!: spec split: option.splits)
qed

lemma sign_each_None: "\<forall>k \<in> set ks. \<exists>sig. sign k = Inr sig \<Longrightarrow> sign_each sign i ks = None"
  by (induction ks arbitrary: i) auto

lemma ready_signs:
  assumes "round_ready sha ecdsaSign mc keys" "k \<in> set keys"
  shows "\<exists>sig. Sign sha ecdsaSign k v c h = Inr sig"
  using assms unfolding round_ready_def by (meson Sign_defined)

lemma timeout_round_ok:
  assumes "rep_ok sha ecdsaSign batch bs c"
  shows "\<exists>c' r. timeout_round sha ecdsaSign leader c = (c', Inr r) \<and> rr_WasTimeout r \<and>
    rep_ok sha ecdsaSign batch bs c' \<and> same_setup c c' \<and> rc_curView c' = rc_curView c + 1 \<and>
    rc_viewChanges c' = rc_viewChanges c + 1"
proof -
  have ready: "round_ready sha ecdsaSign (rc_MC c) (rc_keys c)" using assms by (simp add: rep_ok_def)
  have "sign_each (\<lambda>k. Sign sha ecdsaSign k (rc_curView c) 0 (replicate 32 0)) 0
      (take (nat (QuorumSize (rc_MC c))) (rc_keys c)) = None"
    by (intro sign_each_None ballI ready_signs [OF ready]) (rule in_set_takeD)
  then show ?thesis using assms by (simp add: timeout_round_def rep_ok_def same_setup_def)
qed

lemma honest_round_ok:
  assumes ok: "rep_ok sha ecdsaSign batch bs c"
  shows "\<exists>c' r blk. honest_round sha ecdsaSign batch leader c = (c', Inr r) \<and> \<not> rr_WasTimeout r \<and>
    rep_ok sha ecdsaSign batch (bs @ [blk]) c' \<and> same_setup c c' \<and> rc_curView c' = rc_curView c + 1 \<and>
    rc_viewChanges c' = rc_viewChanges c"
proof -
  let ?b = "rep_block c batch" and ?n = "int (length batch)" and ?w = "rc_pipeline c"
  let ?h = "rep_hashBlock sha ?b"
  have ready: "round_ready sha ecdsaSign (rc_MC c) (rc_keys c)" and sz: "length (Replicas (rc_MC c)) < 2 ^ 64"
    and w: "?w = fst (feed (rep_advance sha) empty_window bs)" and ch: "chained sha (rev bs)"
    and bat: "\<forall>b \<in> set bs. Batch b = batch" and last: "bs \<noteq> [] \<longrightarrow> rc_lastHash c = hashBlock sha (last bs)"
    and del: "rc_delivered c = int (length bs - 4) * ?n" and succ: "rc_successRound c = int (length bs)"
    using ok by (simp_all add: rep_ok_def)
  from round_certificate [OF ready, of "rc_curView c" 0 ?h] obtain vs qc where
    vs: "sign_votes (\<lambda>k. Sign sha ecdsaSign k (rc_curView c) 0 ?h) (rc_curView c) 0 ?h
      (Replicas (rc_MC c)) 0 (take (nat (QuorumSize (rc_MC c))) (rc_keys c)) = Inr vs"
    and qc: "CreateQC (foldl AggregateVotes [] vs) (rc_MC c) = Inr qc" by blast
  have feed: "feed (rep_advance sha) empty_window (bs @ [?b]) =
      (fst (rep_advance sha ?w ?b), snd (feed (rep_advance sha) empty_window bs) @ [snd (rep_advance sha ?w ?b)])"
    by (simp add: feed_append w split_def Let_def)
  have ch': "chained sha (rev (bs @ [?b]))"
    using ch last by (auto simp: extends_def rep_block_def hd_rev intro: chained_ConsI)
  have "snd (rep_advance sha ?w ?b) = rep_pipe.committed_at sha (bs @ [?b]) (length bs)"
    using rep_pipe.feed_outputs [of "length bs" "bs @ [?b]" sha]
    by (simp add: feed nth_append rep_pipe.feed_length)
  then have out: "snd (rep_advance sha ?w ?b) = (if 4 \<le> length bs then Some (bs ! (length bs - 4)) else None)"
    using chained_middle [OF ch', of 4 "length bs - 4"]
    by (auto simp: rep_pipe.committed_at_def nth_append)
  define tx where "tx = (case snd (rep_advance sha ?w ?b) of None \<Rightarrow> 0 | Some b \<Rightarrow> int (length (Batch b)))"
  have tx: "rc_delivered c + tx = int (length (bs @ [?b]) - 4) * ?n"
    using bat by (cases "4 \<le> length bs") (simp_all add: tx_def out del Suc_diff_le algebra_simps)
  define c' where "c' = c\<lparr>rc_chain := put sha (rc_chain c) ?b,
      rc_safety := map (rep_update_safety sha (put sha (rc_chain c) ?b) ?b (qc\<lparr>qc_ViewNumber := rc_curView c\<rparr>)) (rc_safety c),
      rc_pipeline := fst (rep_advance sha ?w ?b), rc_delivered := rc_delivered c + tx,
      rc_repStore := map_option (\<lambda>s. RecordCommit s leader (rc_curHeight c)) (rc_repStore c),
      rc_genericQC := Some (qc\<lparr>qc_ViewNumber := rc_curView c\<rparr>), rc_lastHash := ?h,
      rc_curView := rc_curView c + 1, rc_curHeight := rc_curHeight c + 1,
      rc_successRound := rc_successRound c + 1\<rparr>"
  have step: "honest_round sha ecdsaSign batch leader c =
     (c', Inr \<lparr>rr_Leader = leader, rr_WasTimeout = False, rr_TxDelivered = tx\<rparr>)"
    by (simp add: honest_round_def vs qc Let_def split_def tx_def c'_def)
  have "rep_ok sha ecdsaSign batch (bs @ [?b]) c'"
    using ready sz bat ch' tx succ unfolding rep_ok_def feed
    by (auto simp: c'_def rep_block_def rep_hashBlock_eq)
  then show ?thesis using step
    by (intro exI [of _ c'] exI [of _ "\<lparr>rr_Leader = leader, rr_WasTimeout = False, rr_TxDelivered = tx\<rparr>"] exI [of _ ?b])
       (simp add: c'_def same_setup_def)
qed

lemma RepRunRound_ok:
  assumes "rep_ok sha ecdsaSign batch bs c"
  obtains (timeout) c' r leader where "RepRunRound sha ecdsaSign batch c = (c', Inr r)" "rr_WasTimeout r"
      "rep_ok sha ecdsaSign batch bs c'" "same_setup c c'" "rc_curView c' = rc_curView c + 1"
      "rc_viewChanges c' = rc_viewChanges c + 1"
      "leader_deref (rep_selectLeader c) = Inr leader" "ID leader \<in> rc_byzantineIDs c"
  | (honest) c' r blk where "RepRunRound sha ecdsaSign batch c = (c', Inr r)" "\<not> rr_WasTimeout r"
      "rep_ok sha ecdsaSign batch (bs @ [blk]) c'" "same_setup c c'" "rc_curView c' = rc_curView c + 1"
      "rc_viewChanges c' = rc_viewChanges c"
proof -
  obtain leader where l: "leader_deref (rep_selectLeader c) = Inr leader"
    using rep_leader_defined [OF assms] by blast
  let ?c = "c\<lparr>rc_repStore := map_option (\<lambda>s. RecordLeaderRound s (ID leader)) (rc_repStore c)\<rparr>"
  have ok: "rep_ok sha ecdsaSign batch bs ?c" using assms by (simp add: rep_ok_def)
  have same: "same_setup ?c c' \<Longrightarrow> same_setup c c'" for c' by (simp add: same_setup_def)
  show thesis
  proof (cases "ID leader \<in> rc_byzantineIDs c")
    case True
    then have "RepRunRound sha ecdsaSign batch c = timeout_round sha ecdsaSign (ID leader) ?c"
      by (simp add: RepRunRound_def l Let_def)
    with timeout_round_ok [OF ok, of "ID leader"] obtain c' r where
      "RepRunRound sha ecdsaSign batch c = (c', Inr r)" "rr_WasTimeout r" "rep_ok sha ecdsaSign batch bs c'"
      "same_setup ?c c'" "rc_curView c' = rc_curView ?c + 1" "rc_viewChanges c' = rc_viewChanges ?c + 1"
      by metis
    then show thesis using l True by (intro timeout [of c' r leader]) (simp_all add: same)
  next
    case False
    then have "RepRunRound sha ecdsaSign batch c = honest_round sha ecdsaSign batch (ID leader) ?c"
      by (simp add: RepRunRound_def l Let_def)
    with honest_round_ok [OF ok, of "ID leader"] obtain c' r blk where
      "RepRunRound sha ecdsaSign batch c = (c', Inr r)" "\<not> rr_WasTimeout r"
      "rep_ok sha ecdsaSign batch (bs @ [blk]) c'"
      "same_setup ?c c'" "rc_curView c' = rc_curView ?c + 1" "rc_viewChanges c' = rc_viewChanges ?c"
      by metis
    then show thesis by (intro honest [of c' r blk]) (simp_all add: same)
  qed
qed

subsection \<open>Totals of a benchmark\<close>

lemma benchmark_loop_ok:
  assumes "rep_ok sha ecdsaSign batch bs c"
  shows "\<exists>c' m bs'. benchmark_loop sha ecdsaSign batch mx cur k c = (c', Inr m) \<and>
    rep_ok sha ecdsaSign batch bs' c' \<and> same_setup c c' \<and>
    rc_successRound c' + rc_viewChanges c' = rc_successRound c + rc_viewChanges c + int k"
  using assms
proof (induction k arbitrary: bs c mx cur)
  case 0
  then show ?case by (auto intro: exI [of _ bs])
next
  case (Suc k)
  from Suc.prems show ?case
  proof (cases rule: RepRunRound_ok)
    case (timeout c1 r leader)
    have "rc_successRound c1 = rc_successRound c"
      using timeout(3) Suc.prems by (simp add: rep_ok_def)
    with Suc.IH [OF timeout(3), of "if mx < cur + 1 then cur + 1 else mx" "cur + 1"] timeout show ?thesis
      by (auto intro: same_setup_trans)
  next
    case (honest c1 r blk)
    have "rc_successRound c1 = rc_successRound c + 1"
      using honest(3) Suc.prems by (simp add: rep_ok_def)
    with Suc.IH [OF honest(3), of mx 0] honest show ?thesis
      by (auto intro: same_setup_trans)
  qed
qed

subsection \<open>Consecutive failures under rotation\<close>

text \<open>The last \<open>j\<close> views were led by Byzantine replicas.\<close>

definition failing_streak :: "('pk, 'sk) RepBenchCluster \<Rightarrow> nat \<Rightarrow> bool" where
  "failing_streak c j \<longleftrightarrow> j \<le> unat (rc_curView c) \<and>
     (\<forall>i. unat (rc_curView c) - j \<le> i \<and> i < unat (rc_curView c) \<longrightarrow>
        (\<exists>r. Leader (rc_MC c) (of_nat i) = Inr r \<and> ID r \<in> rc_byzantineIDs c))"

lemma failing_streak_bound:
  assumes "failing_streak c j" "committee_valid (rc_MC c)" "length (Replicas (rc_MC c)) < 2 ^ 64"
    and "finite (rc_byzantineIDs c)" "int (card (rc_byzantineIDs c)) \<le> FaultCap (rc_MC c)"
  shows "int j \<le> FaultCap (rc_MC c)"
proof (rule ccontr)
  let ?mc = "rc_MC c" and ?v = "unat (rc_curView c)"
  let ?f = "fault_bound (length (Replicas ?mc))"
  assume "\<not> ?thesis"
  moreover have F: "FaultCap ?mc = int ?f" using assms(2) by (simp add: committee_valid_def wf_committee_def)
  ultimately have j: "?f < j" by simp
  have jv: "j \<le> ?v" using assms(1) by (simp add: failing_streak_def)
  define w :: u64 where "w = of_nat (?v - j)"
  have vlt: "?v < 2 ^ 64" using unsigned_less [of "rc_curView c"] by simp
  then have "?v - j < 2 ^ 64" by linarith
  then have w: "unat w = ?v - j" by (simp add: w_def unat_of_nat)
  have "unat w + ?f < 2 ^ 64" using vlt w j jv by linarith
  then obtain k r where k: "k \<le> ?f" "Leader ?mc (w + of_nat k) = Inr r" "ID r \<notin> rc_byzantineIDs c"
    using rotation_reaches_honest [of ?mc "rc_byzantineIDs c" w] assms(2-5) F
    by (auto simp: committee_valid_def)
  have "w + of_nat k = of_nat (?v - j + k)" by (simp add: w_def)
  moreover have "?v - j \<le> ?v - j + k \<and> ?v - j + k < ?v" using k(1) j jv by linarith
  then obtain q where "Leader ?mc (of_nat (?v - j + k)) = Inr q" "ID q \<in> rc_byzantineIDs c"
    using assms(1) unfolding failing_streak_def by blast
  ultimately show False using k(2,3) by simp
qed

lemma failing_streak_timeout:
  assumes "failing_streak c j" "rc_Mode c = ModeRoundRobin" "same_setup c c'"
    and "rc_curView c' = rc_curView c + 1" "unat (rc_curView c) + 1 < 2 ^ 64"
    and "leader_deref (rep_selectLeader c) = Inr leader" "ID leader \<in> rc_byzantineIDs c"
  shows "failing_streak c' (Suc j)"
proof -
  have v: "unat (rc_curView c') = unat (rc_curView c) + 1"
    using assms(4,5) by (simp add: unat_word_ariths)
  have "Leader (rc_MC c) (rc_curView c) = Inr leader"
    using assms(2,6) by (auto simp: rep_selectLeader_def leader_deref_def split: sum.splits)
  then show ?thesis
    using assms(1,3,7) v unfolding failing_streak_def same_setup_def
    by (auto simp: less_Suc_eq)
qed

lemma benchmark_streak:
  assumes "rep_ok sha ecdsaSign batch bs c" "rc_Mode c = ModeRoundRobin"
    and "finite (rc_byzantineIDs c)" "int (card (rc_byzantineIDs c)) \<le> FaultCap (rc_MC c)"
    and "unat (rc_curView c) + k < 2 ^ 64" "failing_streak c j" "mx \<le> FaultCap (rc_MC c)"
    and "benchmark_loop sha ecdsaSign batch mx (int j) k c = (c', Inr m)"
  shows "m \<le> FaultCap (rc_MC c)"
  using assms
proof (induction k arbitrary: bs c mx j)
  case (Suc k)
  have v: "unat (rc_curView c + 1) = unat (rc_curView c) + 1"
    using Suc.prems(5) by (simp add: unat_word_ariths)
  from Suc.prems(1) show ?case
  proof (cases rule: RepRunRound_ok)
    case (timeout c1 r leader)
    note s = timeout(4) [unfolded same_setup_def]
    have fs: "failing_streak c1 (Suc j)"
      using Suc.prems(5) by (intro failing_streak_timeout [OF Suc.prems(6,2) timeout(4,5) _ timeout(7,8)]) simp
    have "committee_valid (rc_MC c1)" "length (Replicas (rc_MC c1)) < 2 ^ 64"
      using timeout(3) by (simp_all add: rep_ok_def round_ready_def)
    then have "int (Suc j) \<le> FaultCap (rc_MC c)"
      using failing_streak_bound [OF fs] Suc.prems(3,4) s by simp
    moreover have "int j + 1 = int (Suc j)" by simp
    then have "benchmark_loop sha ecdsaSign batch (if mx < int (Suc j) then int (Suc j) else mx) (int (Suc j)) k c1 = (c', Inr m)"
      using Suc.prems(8) timeout(1,2) by (simp only: benchmark_loop.simps prod.case sum.case if_True)
    ultimately show ?thesis
      using Suc.IH [OF timeout(3) _ _ _ _ fs, of "if mx < int (Suc j) then int (Suc j) else mx"]
        Suc.prems(2-5,7) s v timeout(5) by simp
  next
    case (honest c1 r blk)
    note s = honest(4) [unfolded same_setup_def]
    have fs: "failing_streak c1 0" by (auto simp: failing_streak_def)
    have "benchmark_loop sha ecdsaSign batch mx (int 0) k c1 = (c', Inr m)"
      using Suc.prems(8) honest(1,2) by simp
    with Suc.IH [OF honest(3) _ _ _ _ fs] Suc.prems(2-5,7) s v honest(5) show ?thesis by simp
  qed
qed simp

lemma NewRepBenchCluster_ok:
  assumes "NewRepBenchCluster sha keygen n mode byz = Inr c" "n < 2 ^ 64"
    and "\<And>i sk pk dig. keygen i = Some (sk, pk) \<Longrightarrow>
           \<exists>r s. ecdsaSign sk dig = Some (r, s) \<and> r < 2 ^ 256 \<and> s < 2 ^ 256"
  shows "rep_ok sha ecdsaSign batch [] c \<and> rc_Mode c = mode \<and> rc_curView c = 1 \<and>
    rc_successRound c = 0 \<and> rc_viewChanges c = 0 \<and> finite (rc_byzantineIDs c)"
proof -
  from assms(1) obtain keys reps where n: "4 \<le> n" and g: "gen_replicas keygen 0 (nat n) = Inr (keys, reps)"
    and c: "rc_keys c = keys" "rc_pipeline c = empty_window" "rc_delivered c = 0" "rc_successRound c = 0"
      "rc_MC c = NewCommittee 0 reps" "rc_Mode c = mode" "rc_curView c = 1" "rc_viewChanges c = 0"
      "finite (rc_byzantineIDs c)"
    by (auto simp: NewRepBenchCluster_def Let_def split: if_splits sum.splits)
  have "committee_valid (NewCommittee 0 reps)" "length keys = length reps" "length reps = nat n"
    using gen_replicas_valid [OF g] n by simp_all
  then have "round_ready sha ecdsaSign (NewCommittee 0 reps) keys"
    using gen_replicas_Inr [OF g] assms(3) unfolding round_ready_def by (metis NewCommittee_simps(2))
  with c \<open>length reps = nat n\<close> assms(2) show ?thesis by (simp add: rep_ok_def)
qed

end
