(* ===== verification/Metrics.thy ===== *)
theory Metrics
  imports GoText Float64
begin

section \<open>Metrics\<close>

text \<open>
  \<^verbatim>\<open>internal/metrics/metrics.go\<close>. The collectors are descriptors with the options of the code, in
  the order in which the package registers them. The Prometheus client and the HTTP server are
  arguments: \<open>newCollector\<close> registers a descriptor in the default registry or panics,
  \<open>observeVec\<close> adds an observation under a label value, \<open>listenAndServe\<close> serves the
  routes of an address until it fails. The help texts are kept, log lines are left out.
\<close>

subsection \<open>Collectors\<close>

datatype collector_kind =
    Gauge
  | Counter
  | Histogram "f64 list"
  | HistogramVec "f64 list" "string list"

record collector =
  c_kind :: collector_kind
  c_Namespace :: string
  c_Name :: string
  c_Help :: string

definition namespace :: string where "namespace = ''dhotstuff''"

definition new_collector :: "collector_kind \<Rightarrow> string \<Rightarrow> string \<Rightarrow> collector" where
  "new_collector k name help = \<lparr>c_kind = k, c_Namespace = namespace, c_Name = name, c_Help = help\<rparr>"

text \<open>A literal is converted to the nearest \<open>float64\<close>.\<close>

definition latency_buckets :: "f64 list" where
  "latency_buckets =
     map rnd [5/100, 1/10, 15/100, 2/10, 25/100, 3/10, 4/10, 5/10, 75/100, 1, 15/10, 2, 3, 5]"

definition sync_buckets :: "f64 list" where
  "sync_buckets = map rnd [1/10, 25/100, 5/10, 1, 2, 5, 10, 30]"

definition TPS :: collector where
  "TPS = new_collector Gauge ''tps'' ''Transactions delivered per second (rolling 1s window).''"

definition LatencySeconds :: collector where
  "LatencySeconds = new_collector (HistogramVec latency_buckets [''request_type'']) ''latency_seconds''
     ''Request latency from client submit to fc+1 consistent replies.''"

definition ViewChangesTotal :: collector where
  "ViewChangesTotal = new_collector Counter ''view_changes_total'' ''Total view changes since startup.''"

definition ActiveCommitteeSize :: collector where
  "ActiveCommitteeSize = new_collector Gauge ''active_committee_size''
     ''Number of replicas in current committee.''"

definition ConfigNumber :: collector where
  "ConfigNumber = new_collector Gauge ''config_number'' ''Current configuration number (c).''"

definition JoinSyncDurationSeconds :: collector where
  "JoinSyncDurationSeconds = new_collector (Histogram sync_buckets) ''join_sync_duration_seconds''
     ''Time for joining replica to sync historical state.''"

definition BlockHeight :: collector where
  "BlockHeight = new_collector Counter ''block_height'' ''Highest committed block height.''"

definition collectors :: "collector list" where
  "collectors = [TPS, LatencySeconds, ViewChangesTotal, ActiveCommitteeSize, ConfigNumber,
     JoinSyncDurationSeconds, BlockHeight]"

text \<open>The initialisation of the package: each collector is registered, in order.\<close>

primrec register_all :: "(collector \<Rightarrow> 'reg \<Rightarrow> panic + 'reg) \<Rightarrow> collector list \<Rightarrow> 'reg \<Rightarrow> panic + 'reg" where
  "register_all newCollector [] reg = Inr reg"
| "register_all newCollector (c # cs) reg =
     (case newCollector c reg of Inl p \<Rightarrow> Inl p | Inr reg' \<Rightarrow> register_all newCollector cs reg')"

definition metrics_init :: "(collector \<Rightarrow> 'reg \<Rightarrow> panic + 'reg) \<Rightarrow> 'reg \<Rightarrow> panic + 'reg" where
  "metrics_init newCollector reg = register_all newCollector collectors reg"

text \<open>What the client's documentation asks of a collector: a fresh name and increasing buckets.\<close>

definition metric_name :: "collector \<Rightarrow> string" where
  "metric_name c = c_Namespace c @ ''_'' @ c_Name c"

fun increasing :: "f64 list \<Rightarrow> bool" where
  "increasing (x # y # zs) \<longleftrightarrow> x < y \<and> increasing (y # zs)"
| "increasing _ \<longleftrightarrow> True"

definition registrable :: "collector \<Rightarrow> bool" where
  "registrable c \<longleftrightarrow>
     list_all (\<lambda>ch. ch \<in> set ''abcdefghijklmnopqrstuvwxyz_'') (metric_name c) \<and>
     (case c_kind c of
        Histogram bs \<Rightarrow> increasing bs
      | HistogramVec bs ls \<Rightarrow> increasing bs \<and> distinct ls \<and> ''le'' \<notin> set ls
      | _ \<Rightarrow> True)"

subsection \<open>Observations\<close>

text \<open>
  A point in time is a clock reading in nanoseconds; the difference saturates at the bounds of
  \<open>time.Duration\<close>. \<open>Seconds\<close> is Go's: whole seconds and the rest are converted apart.
\<close>

definition TimeSince :: "int \<Rightarrow> int \<Rightarrow> int" where
  "TimeSince now start = max (- (2 ^ 63)) (min (2 ^ 63 - 1) (now - start))"

definition Seconds :: "int \<Rightarrow> f64" where
  "Seconds d = fadd (rnd (of_int (d sdiv 1000000000))) (fdiv (rnd (of_int (d smod 1000000000))) (rnd 1000000000))"

definition ObserveRequestLatency :: "(collector \<Rightarrow> string list \<Rightarrow> f64 \<Rightarrow> 'reg \<Rightarrow> 'reg) \<Rightarrow> int
    \<Rightarrow> string \<Rightarrow> int \<Rightarrow> 'reg \<Rightarrow> 'reg" where
  "ObserveRequestLatency observeVec now reqType start reg =
     observeVec LatencySeconds [reqType] (Seconds (TimeSince now start)) reg"

subsection \<open>The server\<close>

datatype 'e serve_result = ServeFatal 'e | Returned

definition StartMetricsServer :: "(string \<Rightarrow> string list \<Rightarrow> 'e option) \<Rightarrow> 64 word \<Rightarrow> 'e serve_result" where
  "StartMetricsServer listenAndServe port =
     (let addr = '':'' @ itoa (sint port) in
      case listenAndServe addr [''/metrics''] of Some err \<Rightarrow> ServeFatal err | None \<Rightarrow> Returned)"

subsection \<open>Registration\<close>

lemma buckets_increasing: "increasing latency_buckets" "increasing sync_buckets"
  by code_simp+

lemma collectors_registrable: "list_all registrable collectors"
  by code_simp

lemma collectors_distinct: "distinct (map metric_name collectors)"
  by code_simp

lemma register_all_fresh:
  assumes "list_all registrable cs" "distinct (map metric_name cs)" "metric_name ` set cs \<inter> names reg = {}"
    and "\<And>c r. registrable c \<Longrightarrow> metric_name c \<notin> names r \<Longrightarrow>
      \<exists>r'. newCollector c r = Inr r' \<and> names r' = insert (metric_name c) (names r)"
  shows "\<exists>r'. register_all newCollector cs reg = Inr r' \<and> names r' = metric_name ` set cs \<union> names reg"
  using assms(1-3)
proof (induction cs arbitrary: reg)
  case (Cons c cs)
  then obtain r' where r': "newCollector c reg = Inr r'" "names r' = insert (metric_name c) (names reg)"
    using assms(4) [of c reg] by auto
  have "metric_name ` set cs \<inter> names r' = {}" using Cons.prems r'(2) by auto
  then obtain r'' where "register_all newCollector cs r' = Inr r''" "names r'' = metric_name ` set cs \<union> names r'"
    using Cons.IH [of r'] Cons.prems(1,2) by auto
  with r' show ?case by auto
qed simp

subsection \<open>Durations\<close>

text \<open>Integers of at most 53 bits are represented exactly.\<close>

lemma rnd_int:
  assumes "0 \<le> m" "m < 2 ^ 53"
  shows "rnd (of_int m) = of_int m"
proof (cases "m = 0")
  case False
  with assms have pos: "(0 :: rat) < of_int m" by simp
  define q where "q = quantum (of_int m :: rat)"
  have "(2 :: rat) powi expo (of_int m) \<le> of_int m" using expo_bounds(1) [OF pos] .
  also have "(of_int m :: rat) < of_int (2 ^ 53)" using assms(2) by (simp only: of_int_less_iff)
  also have "\<dots> = 2 powi 53" by simp
  finally have "expo (of_int m :: rat) < 53" by (simp only: powi_2_less_iff)
  then have "q \<le> 0" by (simp add: q_def quantum_def)
  then have p: "(2 :: rat) powi (- q) = of_int (2 ^ nat (- q))" by (simp add: power_int_def)
  have "(of_int m :: rat) * 2 powi (- q) = of_int (m * 2 ^ nat (- q))" by (simp add: p)
  then have "rne ((of_int m :: rat) * 2 powi (- q)) = m * 2 ^ nat (- q)" by (simp only: rne_of_int)
  then have "rnd (of_int m) = of_int (m * 2 ^ nat (- q)) * (2 :: rat) powi q"
    using rnd_pos_eq [OF pos] by (simp add: q_def)
  also have "\<dots> = of_int m * (2 powi (- q) * 2 powi q)" by (simp add: p)
  also have "\<dots> = of_int m" by (simp flip: power_int_add)
  finally show ?thesis .
qed simp

lemma Seconds_parts:
  assumes "0 \<le> d" "d < 2 ^ 63"
  shows "Seconds d = fadd (of_int (d div 1000000000)) (fdiv (of_int (d mod 1000000000)) 1000000000)"
proof -
  have s: "d sdiv 1000000000 = d div 1000000000" using assms(1) by simp
  have r: "d smod 1000000000 = d mod 1000000000"
    using assms(1) by (cases "d = 0") (simp_all add: signed_modulo_int_def)
  have "d div 1000000000 \<le> 2 ^ 63 div 1000000000" using assms(2) by (intro zdiv_mono1) simp_all
  then have "d div 1000000000 < 2 ^ 53" by simp
  moreover have "0 \<le> d div 1000000000" using assms(1) by (simp add: pos_imp_zdiv_nonneg_iff)
  ultimately have a: "rnd (of_int (d div 1000000000)) = of_int (d div 1000000000)" by (simp add: rnd_int)
  have "d mod 1000000000 < 1000000000" by simp
  then have b: "rnd (of_int (d mod 1000000000)) = of_int (d mod 1000000000)" by (simp add: rnd_int)
  have c: "rnd 1000000000 = 1000000000" using rnd_int [of 1000000000] by simp
  show ?thesis by (simp only: Seconds_def s r a b c)
qed

lemma Seconds_mono:
  assumes "0 \<le> d" "d \<le> e" "e < 2 ^ 63"
  shows "Seconds d \<le> Seconds e"
proof -
  let ?S = "\<lambda>x :: int. of_int (x div 1000000000) :: rat"
  let ?F = "\<lambda>x :: int. fdiv (of_int (x mod 1000000000)) 1000000000"
  have F: "0 \<le> ?F x" "?F x \<le> 1" for x
  proof -
    have m: "(0 :: rat) \<le> of_int (x mod 1000000000)" "of_int (x mod 1000000000) < (1000000000 :: rat)"
      by (simp_all add: of_int_less_numeral_iff)
    then show "0 \<le> ?F x" by (simp add: fdiv_def rnd_nonneg)
    have "rnd (of_int (x mod 1000000000) / 1000000000) \<le> rnd 1" using m by (intro rnd_mono) simp_all
    then show "?F x \<le> 1" by (simp add: fdiv_def)
  qed
  have S: "0 \<le> ?S d" using assms(1) by (simp add: pos_imp_zdiv_nonneg_iff)
  have div: "d div 1000000000 \<le> e div 1000000000" using assms(2) by (rule zdiv_mono1) simp
  have "?S d + ?F d \<le> ?S e + ?F e"
  proof (cases "d div 1000000000 = e div 1000000000")
    case True
    then have "d mod 1000000000 \<le> e mod 1000000000"
      using assms(2) by (metis add_le_cancel_left mult_div_mod_eq)
    then have "?F d \<le> ?F e" by (simp add: fdiv_def rnd_mono divide_right_mono)
    with True show ?thesis by simp
  next
    case False
    with div have "d div 1000000000 + 1 \<le> e div 1000000000" by simp
    then have "?S d + 1 \<le> ?S e" by (metis of_int_1 of_int_add of_int_le_iff)
    with F(2) [of d] F(1) [of e] show ?thesis by linarith
  qed
  then have "fadd (?S d) (?F d) \<le> fadd (?S e) (?F e)"
    using S F(1) [of d] by (simp add: fadd_def rnd_mono)
  with assms show ?thesis by (simp add: Seconds_parts)
qed

end
