(* ===== verification/Timing.thy ===== *)
theory Timing
  imports RepCluster Metrics
begin

section \<open>Timings and rates of the benchmarks\<close>

text \<open>
  What the two benchmark clusters report of the time their rounds take. The clock is a function:
  \<open>now k\<close> is its \<open>k\<close>-th reading in nanoseconds, and a run reads it in the order of the calls of
  \<open>time.Now\<close> and \<open>time.Since\<close> in the code: ten times in a round of \<open>benchutil\<close>, four times in a
  round of \<open>repbench\<close>, whether or not it times out. A monotonic clock makes \<open>now\<close> increase.
  Durations are sums and differences of 64-bit integers, as Go's are.
\<close>

definition fits :: "(nat \<Rightarrow> int) \<Rightarrow> nat \<Rightarrow> nat \<Rightarrow> bool" where
  "fits now j k \<longleftrightarrow> mono now \<and> now k - now j < 2 ^ 63"

lemma fits_TimeSince:
  assumes "fits now a b" "a \<le> j" "j \<le> k" "k \<le> b"
  shows "TimeSince (now k) (now j) = now k - now j" "0 \<le> now k - now j" "now k - now j \<le> now b - now a"
proof -
  have "now a \<le> now j" "now j \<le> now k" "now k \<le> now b" using assms by (simp_all add: fits_def monoD)
  then show "TimeSince (now k) (now j) = now k - now j" "0 \<le> now k - now j" "now k - now j \<le> now b - now a"
    using assms(1) by (simp_all add: fits_def TimeSince_def)
qed

subsection \<open>Rounds of benchutil\<close>

record RoundResult =
  LeaderPropose :: int
  SignPhase :: int
  AggregatePhase :: int
  DeliverPhase :: int
  TotalRound :: int
  TxDelivered :: int

text \<open>
  The readings of a round that succeeds, the first of them the \<open>k\<close>-th: the start of the round,
  start and end of each of the four phases, and the end of the round.
\<close>

definition round_result :: "(nat \<Rightarrow> int) \<Rightarrow> nat \<Rightarrow> int \<Rightarrow> RoundResult" where
  "round_result now k txDelivered =
     \<lparr>LeaderPropose = TimeSince (now (k + 2)) (now (k + 1)),
      SignPhase = TimeSince (now (k + 4)) (now (k + 3)),
      AggregatePhase = TimeSince (now (k + 6)) (now (k + 5)),
      DeliverPhase = TimeSince (now (k + 8)) (now (k + 7)),
      TotalRound = TimeSince (now (k + 9)) (now k),
      TxDelivered = txDelivered\<rparr>"

definition TimedRunRound :: "(nat \<Rightarrow> int) \<Rightarrow> nat \<Rightarrow> (bytes \<Rightarrow> bytes) \<Rightarrow> (bytes \<Rightarrow> 'pk ParsedKey option)
    \<Rightarrow> ('sk \<Rightarrow> bytes \<Rightarrow> (nat \<times> nat) option) \<Rightarrow> MembershipRequest list \<Rightarrow> ('pk, 'sk) BenchCluster
    \<Rightarrow> ('pk, 'sk) BenchCluster \<times> (cluster_error + RoundResult)" where
  "TimedRunRound now k sha parsePKIX ecdsaSign batch c =
     (case RunRound sha parsePKIX ecdsaSign batch c of
        (c', Inl e) \<Rightarrow> (c', Inl e)
      | (c', Inr tx) \<Rightarrow> (c', Inr (round_result now k tx)))"

text \<open>\<open>EmptyBatch\<close>, the batch of a round without transactions.\<close>

definition EmptyBatch :: "MembershipRequest list" where "EmptyBatch = []"

text \<open>The throughput of \<open>RunRounds\<close>, which reads the clock before and after all rounds.\<close>

definition rounds_tps :: "int \<Rightarrow> int \<Rightarrow> f64" where
  "rounds_tps elapsed txTotal =
     (if 0 < elapsed then fdiv (rnd (of_int txTotal)) (Seconds elapsed) else 0)"

definition TimedRunRounds :: "(nat \<Rightarrow> int) \<Rightarrow> (bytes \<Rightarrow> bytes) \<Rightarrow> (bytes \<Rightarrow> 'pk ParsedKey option)
    \<Rightarrow> ('sk \<Rightarrow> bytes \<Rightarrow> (nat \<times> nat) option) \<Rightarrow> int \<Rightarrow> MembershipRequest list \<Rightarrow> ('pk, 'sk) BenchCluster
    \<Rightarrow> ('pk, 'sk) BenchCluster \<times> (cluster_error + f64 \<times> int)" where
  "TimedRunRounds now sha parsePKIX ecdsaSign numRounds batch c =
     (case RunRounds sha parsePKIX ecdsaSign batch 0 (nat numRounds) c of
        (c', Inl e) \<Rightarrow> (c', Inl e)
      | (c', Inr txTotal) \<Rightarrow>
          (let elapsed = TimeSince (now (10 * nat numRounds + 1)) (now 0)
           in (c', Inr (rounds_tps elapsed txTotal, txTotal))))"

text \<open>The phases of a round do not overlap.\<close>

lemma phases_within_round:
  assumes "fits now k (k + 9)"
  shows "LeaderPropose (round_result now k tx) + SignPhase (round_result now k tx) +
      AggregatePhase (round_result now k tx) + DeliverPhase (round_result now k tx) \<le> TotalRound (round_result now k tx)"
    "0 \<le> LeaderPropose (round_result now k tx)" "0 \<le> SignPhase (round_result now k tx)"
    "0 \<le> AggregatePhase (round_result now k tx)" "0 \<le> DeliverPhase (round_result now k tx)"
proof -
  have m: "i \<le> j \<Longrightarrow> now i \<le> now j" for i j using assms by (simp add: fits_def monoD)
  note d = fits_TimeSince(1) [OF assms]
  show "LeaderPropose (round_result now k tx) + SignPhase (round_result now k tx) +
      AggregatePhase (round_result now k tx) + DeliverPhase (round_result now k tx) \<le> TotalRound (round_result now k tx)"
    using m [of k "k + 1"] m [of "k + 2" "k + 3"] m [of "k + 4" "k + 5"] m [of "k + 6" "k + 7"] m [of "k + 8" "k + 9"]
    by (simp add: round_result_def d)
  show "0 \<le> LeaderPropose (round_result now k tx)" "0 \<le> SignPhase (round_result now k tx)"
    "0 \<le> AggregatePhase (round_result now k tx)" "0 \<le> DeliverPhase (round_result now k tx)"
    using m by (simp_all add: round_result_def d)
qed

text \<open>A positive duration has a positive number of seconds, so the throughput is a number.\<close>

lemma Seconds_pos:
  assumes "0 < d" "d < 2 ^ 63"
  shows "0 < Seconds d"
proof -
  let ?e = "1 / 1073741824 :: rat"
  have pow: "rnd ?e = ?e" using rnd_powi [of "- 30"] by (simp add: power_int_minus)
  have "rnd ?e \<le> rnd (1 / 1000000000)" by (intro rnd_mono) simp_all
  then have le: "?e \<le> fdiv 1 1000000000" by (simp only: fdiv_def pow)
  then have "rnd ?e \<le> rnd (0 + fdiv 1 1000000000)" by (intro rnd_mono) simp_all
  moreover have "Seconds 1 = rnd (0 + fdiv 1 1000000000)" using Seconds_parts [of 1] by (simp add: fadd_def)
  ultimately have "?e \<le> Seconds 1" by (simp only: pow)
  also have "Seconds 1 \<le> Seconds d" using assms by (intro Seconds_mono) simp_all
  finally show ?thesis by simp
qed

lemma rounds_tps_division:
  assumes "fits now 0 n" "0 \<le> tx"
  shows "rounds_tps (TimeSince (now n) (now 0)) tx =
      (if now n = now 0 then 0 else fdiv (rnd (of_int tx)) (Seconds (now n - now 0)))"
    "0 \<le> rounds_tps (TimeSince (now n) (now 0)) tx"
proof -
  have d: "TimeSince (now n) (now 0) = now n - now 0" "0 \<le> now n - now 0" "now n - now 0 < 2 ^ 63"
    using fits_TimeSince [OF assms(1), of 0 n] assms(1) by (simp_all add: fits_def)
  then show "rounds_tps (TimeSince (now n) (now 0)) tx =
      (if now n = now 0 then 0 else fdiv (rnd (of_int tx)) (Seconds (now n - now 0)))"
    by (auto simp: rounds_tps_def)
  show "0 \<le> rounds_tps (TimeSince (now n) (now 0)) tx"
    using assms(2) d Seconds_pos [of "now n - now 0"] rnd_nonneg [of "of_int tx"]
    by (auto simp: rounds_tps_def fdiv_def intro!: rnd_nonneg divide_nonneg_pos)
qed

subsection \<open>Rounds of repbench\<close>

text \<open>
  A 64-bit float may be infinite or no number when the divisor is zero; the divisors here are
  numbers of rounds, so a zero has no sign.
\<close>

datatype go_float = Fin f64 | PosInf | NegInf | NaN

definition float_div :: "f64 \<Rightarrow> f64 \<Rightarrow> go_float" where
  "float_div x y =
     (if y \<noteq> 0 then Fin (fdiv x y) else if x = 0 then NaN else if 0 < x then PosInf else NegInf)"

definition Milliseconds :: "int \<Rightarrow> int" where
  "Milliseconds d = d sdiv 1000000"

text \<open>The times of a round: its four readings are its start, the start and end of signing and its end.\<close>

definition RoundTime :: "(nat \<Rightarrow> int) \<Rightarrow> nat \<Rightarrow> int" where
  "RoundTime now k = TimeSince (now (k + 3)) (now k)"

definition SignTime :: "(nat \<Rightarrow> int) \<Rightarrow> nat \<Rightarrow> int" where
  "SignTime now k = TimeSince (now (k + 2)) (now (k + 1))"

text \<open>The totals of the benchmark loop, 64-bit sums.\<close>

primrec total_time :: "(nat \<Rightarrow> int) \<Rightarrow> nat \<Rightarrow> int" where
  "total_time ts 0 = 0"
| "total_time ts (Suc n) = signed_take_bit 63 (total_time ts n + ts n)"

record BenchRates =
  br_TPS :: f64
  br_AvgRoundMs :: go_float
  br_AvgSignMs :: go_float
  br_ElapsedMs :: f64

definition bench_rates :: "(nat \<Rightarrow> int) \<Rightarrow> int \<Rightarrow> int \<Rightarrow> BenchRates" where
  "bench_rates now numRounds tx =
     (let n = nat numRounds;
          totalRoundTime = total_time (\<lambda>j. RoundTime now (4 * j + 1)) n;
          totalSignTime = total_time (\<lambda>j. SignTime now (4 * j + 1)) n;
          elapsed = TimeSince (now (4 * n + 1)) (now 0)
      in \<lparr>br_TPS = (if 0 < Seconds elapsed
                    then fdiv (fdiv (rnd (of_int tx)) (Seconds elapsed)) 1000 else 0),
          br_AvgRoundMs = float_div (rnd (of_int (Milliseconds totalRoundTime))) (rnd (of_int numRounds)),
          br_AvgSignMs = float_div (rnd (of_int (Milliseconds totalSignTime))) (rnd (of_int numRounds)),
          br_ElapsedMs = rnd (of_int (Milliseconds elapsed))\<rparr>)"

definition TimedRunBenchmark :: "(nat \<Rightarrow> int) \<Rightarrow> (bytes \<Rightarrow> bytes) \<Rightarrow> ('sk \<Rightarrow> bytes \<Rightarrow> (nat \<times> nat) option)
    \<Rightarrow> int \<Rightarrow> MembershipRequest list \<Rightarrow> ('pk, 'sk) RepBenchCluster
    \<Rightarrow> ('pk, 'sk) RepBenchCluster \<times> (cluster_error + BenchResult \<times> BenchRates)" where
  "TimedRunBenchmark now sha ecdsaSign numRounds batch c =
     (case RunBenchmark sha ecdsaSign numRounds batch c of
        (c', Inl e) \<Rightarrow> (c', Inl e)
      | (c', Inr r) \<Rightarrow> (c', Inr (r, bench_rates now numRounds (br_TxDelivered r))))"

text \<open>
  The times of the rounds add up without overflow to at most the time of the run, and the times
  of signing to at most those of the rounds.
\<close>

lemma signed_small: "0 \<le> x \<Longrightarrow> x < 2 ^ 63 \<Longrightarrow> signed_take_bit 63 x = (x :: int)"
  by (rule signed_take_bit_int_eq_self) simp_all

lemma total_times:
  assumes "fits now 0 (4 * n + 1)"
  shows "0 \<le> total_time (\<lambda>j. SignTime now (4 * j + 1)) n \<and>
    total_time (\<lambda>j. SignTime now (4 * j + 1)) n \<le> total_time (\<lambda>j. RoundTime now (4 * j + 1)) n \<and>
    total_time (\<lambda>j. RoundTime now (4 * j + 1)) n \<le> now (4 * n + 1) - now 0"
  using assms
proof (induction n)
  case 0
  then show ?case by (simp add: fits_def monoD)
next
  case (Suc n)
  have m: "i \<le> j \<Longrightarrow> now i \<le> now j" for i j using Suc.prems by (simp add: fits_def monoD)
  have "now (4 * n + 1) \<le> now (4 * Suc n + 1)" by (rule m) simp
  then have fit: "fits now 0 (4 * n + 1)" using Suc.prems by (simp add: fits_def)
  let ?k = "4 * n + 1"
  have t: "RoundTime now ?k = now (?k + 3) - now ?k" "SignTime now ?k = now (?k + 2) - now (?k + 1)"
    unfolding RoundTime_def SignTime_def by (rule fits_TimeSince(1) [OF Suc.prems]; simp)+
  have last: "now (4 * Suc n + 1) = now (?k + 4)" "now (?k + 4) - now 0 < 2 ^ 63"
    using Suc.prems by (simp_all add: fits_def algebra_simps)
  note IH = Suc.IH [OF fit]
  have le: "now ?k \<le> now (?k + 1)" "now (?k + 1) \<le> now (?k + 2)" "now (?k + 2) \<le> now (?k + 3)"
    "now (?k + 3) \<le> now (?k + 4)" by (rule m; simp)+
  have s: "total_time (\<lambda>j. SignTime now (4 * j + 1)) (Suc n) = total_time (\<lambda>j. SignTime now (4 * j + 1)) n + SignTime now ?k"
    "total_time (\<lambda>j. RoundTime now (4 * j + 1)) (Suc n) = total_time (\<lambda>j. RoundTime now (4 * j + 1)) n + RoundTime now ?k"
    unfolding total_time.simps by (rule signed_small; use IH t le last in linarith)+
  show ?case unfolding s last(1) using IH t le by linarith
qed

lemma Milliseconds_mono: "0 \<le> d \<Longrightarrow> d \<le> e \<Longrightarrow> Milliseconds d \<le> Milliseconds e"
  by (simp add: Milliseconds_def zdiv_mono1)

text \<open>The averages of a run of at least one round.\<close>

lemma bench_rates_bounds:
  assumes "0 < numRounds" "fits now 0 (4 * nat numRounds + 1)" "r = bench_rates now numRounds tx"
  shows "\<exists>a s. br_AvgRoundMs r = Fin a \<and> br_AvgSignMs r = Fin s \<and> 0 \<le> s \<and> s \<le> a \<and>
    a \<le> fdiv (br_ElapsedMs r) (rnd (of_int numRounds))"
proof -
  define n R S where "n = nat numRounds" "R = total_time (\<lambda>j. RoundTime now (4 * j + 1)) n"
    "S = total_time (\<lambda>j. SignTime now (4 * j + 1)) n"
  have t: "0 \<le> S" "S \<le> R" "R \<le> now (4 * n + 1) - now 0"
    using total_times [of now n] assms(2) by (simp_all add: n_R_S_def)
  have e: "TimeSince (now (4 * n + 1)) (now 0) = now (4 * n + 1) - now 0"
    using fits_TimeSince(1) [OF assms(2), of 0 "4 * nat numRounds + 1"] by (simp add: n_R_S_def)
  have N: "1 \<le> rnd (of_int numRounds)" using assms(1) by (intro rnd_ge_1) simp
  let ?d = "\<lambda>x. fdiv (rnd (of_int (Milliseconds x))) (rnd (of_int numRounds))"
  have d: "?d x \<le> ?d y" if "0 \<le> x" "x \<le> y" for x y
  proof -
    have "0 \<le> Milliseconds x" using Milliseconds_mono [of 0 x] that by (simp add: Milliseconds_def)
    then have "0 \<le> rnd (of_int (Milliseconds x))" "rnd (of_int (Milliseconds x)) \<le> rnd (of_int (Milliseconds y))"
      using Milliseconds_mono [OF that] by (simp_all add: rnd_nonneg rnd_mono)
    then show ?thesis using N by (simp add: fdiv_def rnd_mono divide_right_mono)
  qed
  have "br_AvgRoundMs r = Fin (?d R)" "br_AvgSignMs r = Fin (?d S)"
    "fdiv (br_ElapsedMs r) (rnd (of_int numRounds)) = ?d (now (4 * n + 1) - now 0)"
    using N unfolding assms(3) bench_rates_def Let_def n_R_S_def [symmetric] e by (simp_all add: float_div_def)
  moreover have "?d 0 = 0" by (simp add: Milliseconds_def fdiv_def)
  ultimately show ?thesis using d [of 0 S] d [OF t(1,2)] d [OF _ t(3)] t by auto
qed

text \<open>A benchmark of no rounds succeeds, with averages that are not numbers.\<close>

lemma no_rounds_no_average:
  "\<exists>r. TimedRunBenchmark now sha ecdsaSign 0 batch c = (c, Inr (r, bench_rates now 0 (rc_delivered c))) \<and>
     br_AvgRoundMs (bench_rates now 0 (rc_delivered c)) = NaN \<and> br_AvgSignMs (bench_rates now 0 (rc_delivered c)) = NaN"
  by (simp add: TimedRunBenchmark_def RunBenchmark_def bench_rates_def Let_def float_div_def Milliseconds_def)

end
