(* ===== verification/NetSim.thy ===== *)
theory NetSim
  imports Wire "HOL-Library.List_Lexorder" "HOL-Library.Char_ord" "HOL-Library.Multiset"
begin

section \<open>The network simulator\<close>

text \<open>
  \<^verbatim>\<open>tests/simulation/network_sim.go\<close>: the partially synchronous network that the simulation
  tests run on. Times and durations are integers (nanoseconds). The adversary is a record of its
  three methods, the random source is the argument \<open>int63n\<close>: the value of the \<open>k\<close>-th draw below
  a bound. A draw with a bound that is not positive panics. The queue is a list in sending order.
\<close>

record fakeClock =
  clk_now :: int

definition Now :: "fakeClock \<Rightarrow> int" where "Now c = clk_now c"
definition AdvanceClock :: "fakeClock \<Rightarrow> int \<Rightarrow> fakeClock" where "AdvanceClock c d = c\<lparr>clk_now := clk_now c + d\<rparr>"
definition SetClock :: "fakeClock \<Rightarrow> int \<Rightarrow> fakeClock" where "SetClock c t = c\<lparr>clk_now := t\<rparr>"

record pendingMsg =
  pm_From :: string
  pm_To :: string
  pm_Msg :: bytes
  pm_DeliverAt :: int

record deliveredMsg =
  dm_From :: string
  dm_To :: string
  dm_Msg :: bytes

record AdversaryModel =
  IsByzantine :: "string \<Rightarrow> bool"
  InterceptMsg :: "string \<Rightarrow> string \<Rightarrow> bytes \<Rightarrow> bool \<times> int"
  MaxByzantine :: int

record NetSim =
  ns_replicas :: "string \<Rightarrow> bool option"
  ns_gst :: int
  ns_maxDelay :: int
  ns_adversary :: AdversaryModel
  ns_clock :: fakeClock
  ns_draws :: nat
  ns_msgQ :: "pendingMsg list"

text \<open>365 days in nanoseconds.\<close>

definition far_future :: int where
  "far_future = 365 * 24 * (3600 * 10 ^ 9)"

definition NewNetSim :: "string list \<Rightarrow> int \<Rightarrow> AdversaryModel \<Rightarrow> fakeClock \<Rightarrow> NetSim" where
  "NewNetSim replicaIDs maxDelay adversary clock =
     \<lparr>ns_replicas = (\<lambda>i. if i \<in> set replicaIDs then Some (IsByzantine adversary i) else None),
      ns_gst = Now clock + far_future, ns_maxDelay = maxDelay, ns_adversary = adversary,
      ns_clock = clock, ns_draws = 0, ns_msgQ = []\<rparr>"

definition SetGST :: "int \<Rightarrow> NetSim \<Rightarrow> NetSim" where
  "SetGST t n = n\<lparr>ns_gst := t\<rparr>"

definition GST :: "NetSim \<Rightarrow> int" where "GST n = ns_gst n"

definition SimSend :: "(nat \<Rightarrow> int \<Rightarrow> int) \<Rightarrow> string \<Rightarrow> string \<Rightarrow> bytes \<Rightarrow> NetSim \<Rightarrow> panic + NetSim" where
  "SimSend int63n src dst msg n =
     (let now = Now (ns_clock n); isByzFrom = IsByzantine (ns_adversary n) src in
      if now < ns_gst n then
        (case InterceptMsg (ns_adversary n) src dst msg of
           (dropped, delay) \<Rightarrow>
             if dropped \<and> \<not> isByzFrom then Inr n
             else Inr (n\<lparr>ns_msgQ := ns_msgQ n @
                    [\<lparr>pm_From = src, pm_To = dst, pm_Msg = msg, pm_DeliverAt = now + delay\<rparr>]\<rparr>))
      else if ns_maxDelay n + 1 \<le> 0 then Inl ExplicitPanic
      else let delay = int63n (ns_draws n) (ns_maxDelay n + 1)
           in Inr (n\<lparr>ns_draws := Suc (ns_draws n), ns_msgQ := ns_msgQ n @
                  [\<lparr>pm_From = src, pm_To = dst, pm_Msg = msg, pm_DeliverAt = now + delay\<rparr>]\<rparr>))"

definition arrive :: "pendingMsg \<Rightarrow> deliveredMsg" where
  "arrive m = \<lparr>dm_From = pm_From m, dm_To = pm_To m, dm_Msg = pm_Msg m\<rparr>"

text \<open>The loop of \<open>Tick\<close> builds both slices in queue order.\<close>

primrec tick_loop :: "int \<Rightarrow> deliveredMsg list \<Rightarrow> pendingMsg list \<Rightarrow> pendingMsg list
    \<Rightarrow> deliveredMsg list \<times> pendingMsg list" where
  "tick_loop now delivered remaining [] = (delivered, remaining)"
| "tick_loop now delivered remaining (m # ms) =
     (if \<not> now < pm_DeliverAt m then tick_loop now (delivered @ [arrive m]) remaining ms
      else tick_loop now delivered (remaining @ [m]) ms)"

definition Tick :: "int \<Rightarrow> NetSim \<Rightarrow> deliveredMsg list \<times> NetSim" where
  "Tick now n =
     (case tick_loop now [] [] (ns_msgQ n) of
        (delivered, remaining) \<Rightarrow> (delivered, n\<lparr>ns_msgQ := remaining\<rparr>))"

definition PendingCount :: "NetSim \<Rightarrow> nat" where
  "PendingCount n = length (ns_msgQ n)"

definition IsPostGST :: "NetSim \<Rightarrow> bool" where
  "IsPostGST n \<longleftrightarrow> \<not> Now (ns_clock n) < ns_gst n"

subsection \<open>Adversaries\<close>

definition NewWorstCaseAdversary :: "string list \<Rightarrow> int \<Rightarrow> int \<Rightarrow> AdversaryModel" where
  "NewWorstCaseAdversary replicaIDs fc maxDelay =
     \<lparr>IsByzantine = (\<lambda>i. i \<in> set (take (nat fc) (sort replicaIDs))),
      InterceptMsg = (\<lambda>_ _ _. (False, maxDelay)), MaxByzantine = fc\<rparr>"

definition NewNoopAdversary :: AdversaryModel where
  "NewNoopAdversary =
     \<lparr>IsByzantine = (\<lambda>_. False), InterceptMsg = (\<lambda>_ _ _. (False, 0)), MaxByzantine = 0\<rparr>"

subsection \<open>Ticks\<close>

lemma tick_loop_eq:
  "tick_loop now d r ms = (d @ map arrive (filter (\<lambda>m. pm_DeliverAt m \<le> now) ms),
     r @ filter (\<lambda>m. now < pm_DeliverAt m) ms)"
  by (induction ms arbitrary: d r) auto

lemma Tick_eq:
  "Tick now n = (map arrive (filter (\<lambda>m. pm_DeliverAt m \<le> now) (ns_msgQ n)),
     n\<lparr>ns_msgQ := filter (\<lambda>m. now < pm_DeliverAt m) (ns_msgQ n)\<rparr>)"
  by (simp add: Tick_def tick_loop_eq)

lemma Tick_count: "length (fst (Tick now n)) + PendingCount (snd (Tick now n)) = PendingCount n"
  using sum_length_filter_compl [of "\<lambda>m. pm_DeliverAt m \<le> now" "ns_msgQ n"]
  by (simp add: Tick_eq PendingCount_def not_le)

lemma worst_case_count:
  assumes "distinct replicaIDs" "0 \<le> fc"
  shows "int (card {i. IsByzantine (NewWorstCaseAdversary replicaIDs fc d) i}) = min fc (int (length replicaIDs))"
proof -
  have "card (set (take (nat fc) (sort replicaIDs))) = length (take (nat fc) (sort replicaIDs))"
    using assms(1) by (intro distinct_card) simp
  then show ?thesis using assms(2) by (auto simp: NewWorstCaseAdversary_def min_def)
qed

subsection \<open>Runs of the simulator\<close>

text \<open>Sends, ticks and clock movements in any order; the messages delivered so far are collected.\<close>

datatype sim_op = OpSend string string bytes | OpTick int | OpAdvance int

fun sim_run :: "(nat \<Rightarrow> int \<Rightarrow> int) \<Rightarrow> sim_op list \<Rightarrow> deliveredMsg list \<Rightarrow> NetSim
    \<Rightarrow> panic + (deliveredMsg list \<times> NetSim)" where
  "sim_run rng [] out n = Inr (out, n)"
| "sim_run rng (OpSend a b m # ops) out n =
     (case SimSend rng a b m n of Inl p \<Rightarrow> Inl p | Inr n' \<Rightarrow> sim_run rng ops out n')"
| "sim_run rng (OpTick t # ops) out n =
     (case Tick t n of (ds, n') \<Rightarrow> sim_run rng ops (out @ ds) n')"
| "sim_run rng (OpAdvance d # ops) out n =
     sim_run rng ops out (n\<lparr>ns_clock := AdvanceClock (ns_clock n) d\<rparr>)"

lemma SimSend_queue: "SimSend rng a b m n = Inr n' \<Longrightarrow> set (ns_msgQ n) \<subseteq> set (ns_msgQ n')"
  by (auto simp: SimSend_def Let_def split: if_splits prod.splits)

lemma pending_or_delivered:
  assumes "sim_run rng ops out n = Inr (out', n')" "m \<in> set (ns_msgQ n) \<or> arrive m \<in> set out"
  shows "m \<in> set (ns_msgQ n') \<or> arrive m \<in> set out'"
  using assms
proof (induction rng ops out n rule: sim_run.induct)
  case (2 rng a b x ops out n)
  then obtain n1 where n1: "SimSend rng a b x n = Inr n1" "sim_run rng ops out n1 = Inr (out', n')"
    by (auto split: sum.splits)
  with 2 SimSend_queue [OF n1(1)] show ?case by blast
next
  case (3 rng t ops out n)
  obtain ds n1 where tk: "Tick t n = (ds, n1)" by (cases "Tick t n")
  have "m \<in> set (ns_msgQ n1) \<or> arrive m \<in> set (out @ ds)"
    using 3(3) tk by (auto simp: Tick_eq)
  with 3 tk show ?case by auto
qed auto

lemma post_gst_delivery:
  assumes "IsPostGST n" "SimSend rng a b x n = Inr n1"
    and "\<And>k c. 0 < c \<Longrightarrow> 0 \<le> rng k c \<and> rng k c < c"
    and "sim_run rng ops out n1 = Inr (out1, n2)" "Now (ns_clock n) + ns_maxDelay n \<le> t"
  shows "\<lparr>dm_From = a, dm_To = b, dm_Msg = x\<rparr> \<in> set (out1 @ fst (Tick t n2))"
proof -
  let ?m = "\<lparr>pm_From = a, pm_To = b, pm_Msg = x,
     pm_DeliverAt = Now (ns_clock n) + rng (ns_draws n) (ns_maxDelay n + 1)\<rparr>"
  have pos: "0 < ns_maxDelay n + 1" and q: "?m \<in> set (ns_msgQ n1)"
    using assms(1,2) by (auto simp: SimSend_def IsPostGST_def Let_def split: if_splits)
  have "pm_DeliverAt ?m \<le> t" using assms(3) [OF pos, of "ns_draws n"] assms(5) by simp
  moreover have "?m \<in> set (ns_msgQ n2) \<or> arrive ?m \<in> set out1"
    using pending_or_delivered [OF assms(4)] q by blast
  moreover have "arrive ?m = \<lparr>dm_From = a, dm_To = b, dm_Msg = x\<rparr>" by (simp add: arrive_def)
  ultimately show ?thesis by (auto simp: Tick_eq image_iff)
qed

end
