(* ===== verification/Harness_Properties.thy ===== *)
theory Harness_Properties
  imports Samples Timing NetSim
begin

section \<open>Properties of the harnesses\<close>

text \<open>
  The benchmark clusters exercise block store, signing, certificates, window and delivery
  together, so their totals are end-to-end statements about those parts; the simulator's
  theorem is the delivery guarantee that the simulation tests assume.
\<close>


definition sample_keygen :: "nat \<Rightarrow> (nat \<times> string) option" where
  "sample_keygen i = Some (i, ''pk'')"

definition sample_ecdsa :: "nat \<Rightarrow> bytes \<Rightarrow> (nat \<times> nat) option" where
  "sample_ecdsa sk dig = Some (1, 1)"

lemma sample_gen: "\<exists>r. gen_replicas sample_keygen i k = Inr r"
  by (induction k arbitrary: i) (auto simp: sample_keygen_def split: sum.splits, metis Inr_not_Inl)

lemma sample_signs:
  "\<forall>i sk pk dig. sample_keygen i = Some (sk, pk) \<longrightarrow>
     (\<exists>r s. sample_ecdsa sk dig = Some (r, s) \<and> r < 2 ^ 256 \<and> s < 2 ^ 256)"
  by (simp add: sample_ecdsa_def)


text \<open>C34: a round-robin benchmark with at most \<open>FaultCap\<close> Byzantine replicas never fails; every
  round is a success or a view change, the deliveries trail the successes by four batches, and no
  more than \<open>FaultCap\<close> rounds in a row time out. If the clock does not go back and the run takes
  less than the \<open>2 ^ 63\<close> nanoseconds of a duration, the reported averages are numbers: a round takes
  on average at least as long as its signatures, and no longer than the run divided by its rounds.\<close>

theorem round_robin_benchmark_report:
  assumes "NewRepBenchCluster h keygen n ModeRoundRobin byz = Inr c" "n < 2 ^ 64"
    and "\<forall>i sk pk dig. keygen i = Some (sk, pk) \<longrightarrow>
           (\<exists>r s. ecdsaSign sk dig = Some (r, s) \<and> r < 2 ^ 256 \<and> s < 2 ^ 256)"
    and "int (card (rc_byzantineIDs c)) \<le> FaultCap (rc_MC c)"
    and "0 \<le> numRounds" "numRounds + 1 < 2 ^ 64"
    and "fits now 0 (4 * nat numRounds + 1)"
  shows "\<exists>c' res r. TimedRunBenchmark now h ecdsaSign numRounds batch c = (c', Inr (res, r)) \<and>
    RunBenchmark h ecdsaSign numRounds batch c = (c', Inr res) \<and>
    br_SuccessRounds res + br_ViewChanges res = numRounds \<and>
    br_TxDelivered res = max 0 (br_SuccessRounds res - 4) * int (length batch) \<and>
    br_MaxConsecFails res \<le> FaultCap (rc_MC c) \<and>
    (numRounds = 0 \<or> (\<exists>a s. br_AvgRoundMs r = Fin a \<and> br_AvgSignMs r = Fin s \<and> 0 \<le> s \<and> s \<le> a \<and>
       a \<le> fdiv (br_ElapsedMs r) (rnd (of_int numRounds))))"
proof -
  have new: "rep_ok h ecdsaSign batch [] c \<and> rc_Mode c = ModeRoundRobin \<and> rc_curView c = 1 \<and>
      rc_successRound c = 0 \<and> rc_viewChanges c = 0 \<and> finite (rc_byzantineIDs c)"
    using assms(3) by (intro NewRepBenchCluster_ok [OF assms(1,2)]) blast
  then have ok: "rep_ok h ecdsaSign batch [] c" by blast
  from benchmark_loop_ok [OF ok, of 0 0 "nat numRounds"] new assms(5) obtain c' m bs' where
    loop: "benchmark_loop h ecdsaSign batch 0 0 (nat numRounds) c = (c', Inr m)"
    and ok': "rep_ok h ecdsaSign batch bs' c'" and sum: "rc_successRound c' + rc_viewChanges c' = numRounds"
    by auto
  have "failing_streak c 0" by (auto simp: failing_streak_def)
  moreover have "0 \<le> FaultCap (rc_MC c)" using assms(4) by linarith
  moreover have "unat (rc_curView c) + nat numRounds < 2 ^ 64" using new assms(5,6) by simp
  ultimately have "m \<le> FaultCap (rc_MC c)"
    using benchmark_streak [OF ok _ _ assms(4), of "nat numRounds" 0 0 c' m] new loop by simp
  moreover have "rc_delivered c' = max 0 (rc_successRound c' - 4) * int (length batch)"
    using ok' by (simp add: rep_ok_def int_ops(6) max_def)
  moreover have "numRounds = 0 \<or> (\<exists>a s. br_AvgRoundMs (bench_rates now numRounds tx) = Fin a \<and>
      br_AvgSignMs (bench_rates now numRounds tx) = Fin s \<and> 0 \<le> s \<and> s \<le> a \<and>
      a \<le> fdiv (br_ElapsedMs (bench_rates now numRounds tx)) (rnd (of_int numRounds)))" for tx
    using bench_rates_bounds [OF _ assms(7) refl] assms(5) by (cases "numRounds = 0") simp_all
  ultimately show ?thesis using loop sum by (simp add: RunBenchmark_def TimedRunBenchmark_def)
qed

theorem round_robin_benchmark_report_witness:
  "\<exists>c c' res r a s. NewRepBenchCluster idsha sample_keygen 4 ModeRoundRobin [1] = Inr c \<and>
     TimedRunBenchmark (\<lambda>k. int k * 1000000) idsha sample_ecdsa 20 [request RequestType_REGULAR ''x'' []] c =
       (c', Inr (res, r)) \<and>
     br_SuccessRounds res + br_ViewChanges res = 20 \<and> br_MaxConsecFails res \<le> 1 \<and>
     br_AvgSignMs r = Fin s \<and> br_AvgRoundMs r = Fin a \<and> s \<le> a"
proof -
  obtain keys reps where g: "gen_replicas sample_keygen 0 4 = Inr (keys, reps)"
    using sample_gen [of 0 4] by auto
  have f: "fault_bound (length reps) = 1"
    using gen_replicas_valid(1) [OF g] by (simp add: fault_bound_def)
  have "\<exists>c. NewRepBenchCluster idsha sample_keygen 4 ModeRoundRobin [1] = Inr c \<and>
      FaultCap (rc_MC c) = 1 \<and> card (rc_byzantineIDs c) = 1"
    using g f by (simp add: NewRepBenchCluster_def Let_def)
  then obtain c where c: "NewRepBenchCluster idsha sample_keygen 4 ModeRoundRobin [1] = Inr c"
    "FaultCap (rc_MC c) = 1" "card (rc_byzantineIDs c) = 1" by blast
  have clock: "fits (\<lambda>k. int k * 1000000) 0 (4 * nat 20 + 1)" by (simp add: fits_def mono_def)
  note rep = round_robin_benchmark_report [where numRounds = 20 and ecdsaSign = sample_ecdsa
      and batch = "[request RequestType_REGULAR ''x'' []]", OF c(1) _ sample_signs _ _ _ clock]
  have "(4 :: int) < 2 ^ 64" "int (card (rc_byzantineIDs c)) \<le> FaultCap (rc_MC c)" "(0 :: int) \<le> 20"
    "(20 :: int) + 1 < 2 ^ 64" using c(2,3) by simp_all
  from rep [OF this] c(1,2) show ?thesis by auto
qed

text \<open>After the global stabilisation time, a message is delivered at the latest by the first
  tick that is at least the delay bound after its sending, whatever is sent and ticked in
  between.\<close>

lemma simulator_delivers_after_gst:
  assumes "IsPostGST n" "SimSend rng a b x n = Inr n1"
    and "\<And>k c. 0 < c \<Longrightarrow> 0 \<le> rng k c \<and> rng k c < c"
    and "sim_run rng ops out n1 = Inr (out1, n2)" "Now (ns_clock n) + ns_maxDelay n \<le> t"
  shows "\<lparr>dm_From = a, dm_To = b, dm_Msg = x\<rparr> \<in> set (out1 @ fst (Tick t n2))"
  by (rule post_gst_delivery [OF assms])

lemma simulator_delivers_after_gst_witness:
  "\<exists>n1. SimSend (\<lambda>k c. c - 1) ''A'' ''B'' [1] (SetGST 0 (NewNetSim [''A'', ''B''] 5 NewNoopAdversary \<lparr>clk_now = 3\<rparr>)) = Inr n1 \<and>
     \<lparr>dm_From = ''A'', dm_To = ''B'', dm_Msg = [1]\<rparr> \<in> set (fst (Tick 4 n1) @ fst (Tick 8 (snd (Tick 4 n1))))"
proof -
  let ?n = "SetGST 0 (NewNetSim [''A'', ''B''] 5 NewNoopAdversary \<lparr>clk_now = 3\<rparr>)"
  have n: "ns_clock ?n = \<lparr>clk_now = 3\<rparr>" "ns_maxDelay ?n = 5" "ns_gst ?n = 0"
    by (simp_all add: SetGST_def NewNetSim_def)
  have "\<exists>n1. SimSend (\<lambda>k c. c - 1) ''A'' ''B'' [1] ?n = Inr n1"
    by (simp add: SimSend_def n Now_def Let_def)
  then obtain n1 where n1: "SimSend (\<lambda>k c. c - 1) ''A'' ''B'' [1] ?n = Inr n1" by blast
  have "sim_run (\<lambda>k c. c - 1) [OpTick 4] [] n1 = Inr (fst (Tick 4 n1), snd (Tick 4 n1))"
    by (simp add: split_def)
  from simulator_delivers_after_gst [OF _ n1 _ this, of 8] n1 show ?thesis
    by (auto simp: IsPostGST_def n Now_def)
qed

end
