(* ===== verification/ChainRun.thy ===== *)
theory ChainRun
  imports Replica
begin

section \<open>Replicas that follow one chain\<close>

text \<open>
  What a replica delivers when the proposals it handles form one chain, each certified by its
  successor. Votes, view changes, requests and timeouts may come in between in any order. The
  abstract machine is a deliverer that is handed the blocks of the chain in order; the replica,
  with its three-chain check, its commit pipeline and the resets of that pipeline, stays exactly
  three blocks behind it.
\<close>

subsection \<open>Runs with their proposals\<close>

inductive proposals :: "('pk, 'app) Env \<Rightarrow> Block list \<Rightarrow> ('pk, 'app) process \<Rightarrow> ('pk, 'app) process \<Rightarrow> bool"
  for env where
  no_proposal: "proposals env [] s s"
| proposal: "proposals env bs s t \<Longrightarrow> HandlePropose env b (node t) = Inr d \<Longrightarrow>
    proposals env (bs @ [b]) s (t\<lparr>node := d\<rparr>)"
| vote: "proposals env bs s t \<Longrightarrow> HandleVote env v (node t) = Inr d \<Longrightarrow>
    proposals env bs s (t\<lparr>node := d\<rparr>)"
| new_view: "proposals env bs s t \<Longrightarrow> HandleNewView env m (node t) = Inr d \<Longrightarrow>
    proposals env bs s (t\<lparr>node := d\<rparr>)"
| submit: "proposals env bs s t \<Longrightarrow> SubmitRequest r (node t) = Some d \<Longrightarrow>
    proposals env bs s (t\<lparr>node := d\<rparr>)"
| begin_timeout: "proposals env bs s t \<Longrightarrow> timeout_begin (node t) = Inr (v, d) \<Longrightarrow>
    proposals env bs s (t\<lparr>node := d, begun := begun t @ [v]\<rparr>)"
| change_timeout: "proposals env bs s t \<Longrightarrow> begun t = xs @ v # ys \<Longrightarrow>
    timeout_change env cx (node t) = Inr d \<Longrightarrow>
    proposals env bs s (t\<lparr>node := d, begun := xs @ ys, changed := changed t @ [v]\<rparr>)"
| end_timeout: "proposals env bs s t \<Longrightarrow> changed t = xs @ v # ys \<Longrightarrow>
    proposals env bs s (t\<lparr>node := timeout_end v (node t), changed := xs @ ys\<rparr>)"

text \<open>The same transition system, with the proposals as labels.\<close>

lemma proposals_runs: "proposals env bs s t \<Longrightarrow> runs env s t"
  by (induction rule: proposals.induct)
     (auto intro: rtranclp.rtrancl_into_rtrancl step.intros)

lemma runs_proposals: "runs env s t \<Longrightarrow> \<exists>bs. proposals env bs s t"
proof (induction rule: rtranclp_induct)
  case base
  show ?case by (blast intro: no_proposal)
next
  case (step t u)
  from step.hyps(2) step.IH show ?case by (cases rule: stepE) (blast intro: proposals.intros)+
qed

subsection \<open>The abstract machine\<close>

abbreviation delivery :: "('pk, 'app) Env \<Rightarrow> Block list \<Rightarrow> ('pk, 'app) Deliverer
    \<Rightarrow> ('pk, 'app) Deliverer \<times> deliver_error option list" where
  "delivery env \<equiv> deliver_all (sha env) (parsePKIX env) (execute env)"

lemma deliver_all_append:
  "deliver_all h p x (as @ bs) d =
     (let (d1, e1) = deliver_all h p x as d; (d2, e2) = deliver_all h p x bs d1 in (d2, e1 @ e2))"
  by (induction as arbitrary: d) (simp_all add: split_def Let_def)

lemma fst_deliver_all_append:
  "fst (deliver_all h p x (as @ bs) d) = fst (deliver_all h p x bs (fst (deliver_all h p x as d)))"
  by (simp add: deliver_all_append split_def Let_def)

lemma snd_deliver_all_append:
  "snd (deliver_all h p x (as @ bs) d) =
     snd (deliver_all h p x as d) @ snd (deliver_all h p x bs (fst (deliver_all h p x as d)))"
  by (simp add: deliver_all_append split_def Let_def)

lemma deliver_all_grows: "grows d (fst (deliver_all h p x bs d))"
proof (induction bs arbitrary: d)
  case (Cons b bs)
  have "grows d (fst (Deliver h p x b d))" by (rule grows_Deliver)
  also have "grows \<dots> (fst (deliver_all h p x bs (fst (Deliver h p x b d))))" by (rule Cons)
  finally show ?case by (simp add: split_def)
qed simp

lemma take_split: "k \<le> n \<Longrightarrow> take n xs = take k xs @ take (n - k) (drop k xs)"
  by (metis le_add_diff_inverse take_add)

subsection \<open>Chains of proposals\<close>

text \<open>
  Each proposal names its predecessor as parent and carries a certificate under which the block
  store has that predecessor; the first one carries none that the store knows.
\<close>

definition proposal_chain :: "('pk, 'app) Env \<Rightarrow> Block list \<Rightarrow> bool" where
  "proposal_chain env bs \<longleftrightarrow>
     (bs \<noteq> [] \<longrightarrow> certified env (Justify (bs ! 0)) = None) \<and>
     (\<forall>i. Suc i < length bs \<longrightarrow> certified env (Justify (bs ! Suc i)) = Some (bs ! i) \<and>
        ParentHash (bs ! Suc i) = hashBlock (sha env) (bs ! i))"

lemma proposal_chain_butlast: "proposal_chain env (bs @ [b]) \<Longrightarrow> proposal_chain env bs"
  unfolding proposal_chain_def by (auto simp: nth_append split: if_splits)

text \<open>
  Conditions under which no step of the chain can be refused: the abstract machine delivers the
  committed part without error, its committees have members, every proposal names a
  configuration that is installed once all but the last three blocks before it are delivered, and
  signing works. Committed blocks may reconfigure the committee, and later ones may belong to the
  new configurations.
\<close>

definition usable :: "'pk ConfigStore \<Rightarrow> bool" where
  "usable s \<longleftrightarrow> length (configs s) < 2 ^ 64 \<and>
     (\<forall>c \<in> set (configs s). Replicas c \<noteq> [] \<and> length (Replicas c) < 2 ^ 64)"

definition chain_ready :: "('pk, 'app) Env \<Rightarrow> ('pk, 'app) Deliverer \<Rightarrow> Block list \<Rightarrow> bool" where
  "chain_ready env dl bs \<longleftrightarrow> proposal_chain env bs \<and> configs_ok (store dl) \<and>
     set (snd (delivery env (take (length bs - 3) bs) dl)) \<subseteq> {None} \<and>
     usable (store (fst (delivery env (take (length bs - 3) bs) dl))) \<and>
     (\<forall>i < length bs. unat (ConfNumber (bs ! i)) <
        length (configs (store (fst (delivery env (take (i - 3) bs) dl))))) \<and>
     (\<forall>c n h. signFn env c n h \<noteq> None)"

lemma usable_prefix: "usable s' \<Longrightarrow> prefix (configs s) (configs s') \<Longrightarrow> usable s"
  unfolding usable_def by (meson le_less_trans prefix_length_le set_mono_prefix subsetD)

lemma delivery_prefix:
  assumes "k \<le> n" "set (snd (delivery env (take n bs) dl)) \<subseteq> {None}"
    and "usable (store (fst (delivery env (take n bs) dl)))"
  shows "set (snd (delivery env (take k bs) dl)) \<subseteq> {None}"
    "usable (store (fst (delivery env (take k bs) dl)))"
proof -
  note t = take_split [OF assms(1), of bs]
  show "set (snd (delivery env (take k bs) dl)) \<subseteq> {None}"
    using assms(2) by (simp add: t snd_deliver_all_append)
  have "grows (fst (delivery env (take k bs) dl)) (fst (delivery env (take n bs) dl))"
    unfolding t fst_deliver_all_append by (rule deliver_all_grows)
  then show "usable (store (fst (delivery env (take k bs) dl)))"
    using assms(3) by (auto simp: grows_def intro: usable_prefix)
qed

lemma chain_ready_butlast:
  assumes "chain_ready env dl (bs @ [b])"
  shows "chain_ready env dl bs"
proof -
  have conf: "unat (ConfNumber (bs ! i)) < length (configs (store (fst (delivery env (take (i - 3) bs) dl))))"
    if "i < length bs" for i
  proof -
    have "i < length (bs @ [b])" using that by simp
    with assms have "unat (ConfNumber ((bs @ [b]) ! i)) <
        length (configs (store (fst (delivery env (take (i - 3) (bs @ [b])) dl))))"
      unfolding chain_ready_def by blast
    then show ?thesis using that by (simp add: nth_append)
  qed
  have "take (length bs - 3) bs = take (length bs - 3) (bs @ [b])" by simp
  then show ?thesis
    using assms conf delivery_prefix [of "length bs - 3" "length (bs @ [b]) - 3" env "bs @ [b]" dl]
    by (auto simp: chain_ready_def dest: proposal_chain_butlast)
qed

subsection \<open>One proposal\<close>

text \<open>Whatever the pipeline holds are the latest proposals, in their places.\<close>

definition window_ok :: "Block list \<Rightarrow> PipelineState \<Rightarrow> bool" where
  "window_ok bs p \<longleftrightarrow> (\<forall>i < 4. pipeline_slots p ! i = None \<or>
     (4 \<le> length bs + i \<and> pipeline_slots p ! i = Some (bs ! (length bs + i - 4))))"

lemma window_ok_empty [simp]: "window_ok bs empty_pipeline"
  by (auto simp: window_ok_def pipeline_slots_def empty_pipeline_def less_Suc_eq numeral_eq_Suc)

lemma window_ok_Reset [simp]: "window_ok bs (Reset p)"
  by (simp add: Reset_def)

lemma window_ok_Advance:
  assumes "window_ok bs p" "Advance h p b = (p', out)"
  shows "window_ok (bs @ [b]) p' \<and> (out = None \<or> 4 \<le> length bs \<and> out = Some (bs ! (length bs - 4)))"
proof -
  have s: "pipeline_slots p' = tl (pipeline_slots p) @ [Some b]" and o: "out = None \<or> out = pipeline_slots p ! 0"
    using assms(2) by (auto simp: Advance_def Let_def pipeline_slots_def split: option.splits if_splits)
  have w: "pipeline_slots p ! i = None \<or>
      (4 \<le> length bs + i \<and> pipeline_slots p ! i = Some (bs ! (length bs + i - 4)))" if "i < 4" for i
    using assms(1) that by (simp add: window_ok_def)
  have len: "length (pipeline_slots p) = 4" by (simp add: pipeline_slots_def)
  have "window_ok (bs @ [b]) p'"
    unfolding window_ok_def
  proof (intro allI impI)
    fix i :: nat
    assume i: "i < 4"
    show "pipeline_slots p' ! i = None \<or> 4 \<le> length (bs @ [b]) + i \<and>
        pipeline_slots p' ! i = Some ((bs @ [b]) ! (length (bs @ [b]) + i - 4))"
    proof (cases "i = 3")
      case True
      then show ?thesis using len by (simp add: s nth_append)
    next
      case False
      then have i3: "Suc i < 4" using i by simp
      have "pipeline_slots p' ! i = pipeline_slots p ! Suc i"
        using i3 len by (simp add: s nth_append nth_tl)
      then show ?thesis using w [OF i3] i3 by (auto simp: nth_append)
    qed
  qed
  moreover have "out = None \<or> 4 \<le> length bs \<and> out = Some (bs ! (length bs - 4))"
    using o w [of 0] by auto
  ultimately show ?thesis by blast
qed

lemma chain_last:
  assumes "proposal_chain env (as @ [a, b])"
  shows "certified env (Justify b) = Some a" "ParentHash b = hashBlock (sha env) a"
proof -
  have "Suc (length as) < length (as @ [a, b])" by simp
  with assms have "certified env (Justify ((as @ [a, b]) ! Suc (length as))) = Some ((as @ [a, b]) ! length as) \<and>
      ParentHash ((as @ [a, b]) ! Suc (length as)) = hashBlock (sha env) ((as @ [a, b]) ! length as)"
    unfolding proposal_chain_def by blast
  then show "certified env (Justify b) = Some a" "ParentHash b = hashBlock (sha env) a"
    by (simp_all add: nth_append)
qed

text \<open>The blocks the handler looks up for a proposal are the ones before it in the chain.\<close>

definition behind :: "nat \<Rightarrow> Block list \<Rightarrow> Block option" where
  "behind j bs = (if j \<le> length bs then Some (bs ! (length bs - j)) else None)"

lemma certified_behind:
  assumes "proposal_chain env (as @ [b])"
  shows "certified env (Justify b) = behind 1 as"
proof (cases as rule: rev_cases)
  case Nil
  then show ?thesis using assms by (simp add: proposal_chain_def behind_def)
next
  case (snoc us a)
  then show ?thesis using chain_last(1) [of env us a b] assms by (simp add: behind_def)
qed

lemma certified_behind_Suc:
  assumes "proposal_chain env (as @ [b])" "0 < j"
  shows "(case behind j as of None \<Rightarrow> None | Some x \<Rightarrow> certified env (Justify x)) = behind (Suc j) as"
proof (cases "j \<le> length as")
  case True
  let ?i = "length as - j"
  from assms(1) have c: "proposal_chain env as" by (rule proposal_chain_butlast)
  show ?thesis
  proof (cases "?i")
    case 0
    then have "as \<noteq> []" "j = length as" using True assms(2) by auto
    then show ?thesis using c by (simp add: behind_def proposal_chain_def)
  next
    case (Suc i)
    then have "Suc i < length as" using assms(2) True by linarith
    then have "certified env (Justify (as ! Suc i)) = Some (as ! i)"
      using c by (simp add: proposal_chain_def)
    moreover have "length as - Suc j = i" "Suc j \<le> length as" using Suc True by linarith+
    ultimately show ?thesis using True Suc by (simp add: behind_def)
  qed
qed (simp add: behind_def)

lemma chain_three:
  assumes "proposal_chain env (as @ [b])" "3 \<le> length as"
  shows "CheckThreeChain (sha env) b (as ! (length as - 1)) (as ! (length as - 2)) (as ! (length as - 3))"
proof -
  have link: "ParentHash ((as @ [b]) ! Suc i) = hashBlock (sha env) ((as @ [b]) ! i)" if "i < length as" for i
    using assms(1) that by (simp add: proposal_chain_def)
  obtain n where n: "length as = n + 3" using assms(2) by (metis add.commute le_Suc_ex)
  show ?thesis
    using link [of "n + 2"] link [of "n + 1"] link [of n] by (simp add: CheckThreeChain_def n nth_append)
qed

lemma leader_defined:
  assumes "Replicas mc \<noteq> []" "length (Replicas mc) < 2 ^ 64"
  shows "\<exists>r. leader_deref (selectLeader mc d) = Inr r"
proof -
  have "\<exists>r. Select t mc v = Some r" for t v
    using Select_None [of t mc v] assms(1) by auto
  then show ?thesis
    using Leader_Inr [OF assms] by (cases "repStore d") (auto simp: selectLeader_def leader_deref_def, metis option.simps(5))
qed

lemma vote_part_defined:
  assumes "Replicas mc \<noteq> []" "length (Replicas mc) < 2 ^ 64"
    and "signFn env (ConfNumber b) (Number mc) (hashBlock (sha env) b) \<noteq> None"
  shows "\<exists>d1. vote_part env mc b d = Inr (Some d1)"
proof -
  obtain r where "leader_deref (selectLeader mc d) = Inr r" using leader_defined [OF assms(1,2)] by blast
  moreover obtain sig where "signFn env (ConfNumber b) (Number mc) (hashBlock (sha env) b) = Some sig"
    using assms(3) by blast
  ultimately show ?thesis by (simp add: vote_part_def Let_def)
qed

lemma three_chain_defined:
  assumes "Replicas mc \<noteq> []" "length (Replicas mc) < 2 ^ 64"
  shows "\<exists>d'. three_chain_part env mc b bd bp bb d = Inr d' \<and> pipeline d' = pipeline d \<and>
    deliverer d' = (case (bd, bp, bb) of
        (Some x, Some y, Some z) \<Rightarrow>
          (if CheckThreeChain (sha env) b x y z
           then fst (Deliver (sha env) (parsePKIX env) (execute env) z (deliverer d)) else deliverer d)
      | _ \<Rightarrow> deliverer d)"
proof (cases "\<exists>x y z. bd = Some x \<and> bp = Some y \<and> bb = Some z \<and> CheckThreeChain (sha env) b x y z")
  case True
  then obtain x y z where xyz: "bd = Some x" "bp = Some y" "bb = Some z" "CheckThreeChain (sha env) b x y z"
    by blast
  obtain r where "leader_deref (selectLeader mc (deliver_block env z d)) = Inr r"
    using leader_defined [OF assms] by blast
  then show ?thesis
    by (cases "repStore d") (simp_all add: three_chain_part_def Let_def xyz)
next
  case False
  then have "three_chain_part env mc b bd bp bb d = Inr d"
    by (auto simp: three_chain_part_def split: option.splits)
  with False show ?thesis by (auto split: option.splits)
qed

lemma latest_covers:
  assumes "configs_ok s" "usable s" "unat k < length (configs s)" "Latest s = Inr mc"
  shows "k \<le> Number mc"
proof -
  let ?n = "length (configs s) - 1"
  have "Number mc = of_nat ?n" using assms(1,3,4) by (auto simp: Latest_def configs_ok_def split: if_splits)
  moreover have "?n < 2 ^ 64" using assms(2) unfolding usable_def by linarith
  ultimately have "unat (Number mc) = ?n" by (simp add: unat_of_nat)
  then show ?thesis using assms(3) by (simp add: word_le_nat_alt)
qed

lemma HandlePropose_chain:
  assumes ready: "chain_ready env dl (as @ [b])"
    and d: "deliverer d = fst (delivery env (take (length as - 3) as) dl)"
    and w: "window_ok as (pipeline d)"
  shows "\<exists>d'. HandlePropose env b d = Inr d' \<and>
    deliverer d' = fst (delivery env (take (length as - 2) as) dl) \<and> window_ok (as @ [b]) (pipeline d')"
proof -
  let ?k = "length as" and ?D = "\<lambda>n. delivery env (take n as) dl"
  have pc: "proposal_chain env (as @ [b])" and cok: "configs_ok (store dl)"
    and none: "set (snd (?D (?k - 2))) \<subseteq> {None}" and us: "usable (store (fst (?D (?k - 2))))"
    and sg: "\<And>c n h. signFn env c n h \<noteq> None"
    using ready by (auto simp: chain_ready_def)
  have "unat (ConfNumber ((as @ [b]) ! ?k)) < length (configs (store (fst (delivery env (take (?k - 3) (as @ [b])) dl))))"
    using ready unfolding chain_ready_def by fastforce
  then have conf: "unat (ConfNumber b) < length (configs (store (deliverer d)))" by (simp add: d)
  have us3: "usable (store (deliverer d))"
    using delivery_prefix(2) [OF _ none us, of "?k - 3"] by (simp add: d)
  have gr: "grows dl (deliverer d)" unfolding d by (rule deliver_all_grows)
  have cok3: "configs_ok (store (deliverer d))" using gr cok by (simp add: grows_def)
  then obtain mc where mc: "Latest (store (deliverer d)) = Inr mc" by (auto simp: configs_ok_def Latest_def)
  have mem: "mc \<in> set (configs (store (deliverer d)))" by (rule Latest_in [OF mc])
  have ne: "Replicas mc \<noteq> []" "length (Replicas mc) < 2 ^ 64"
    using us3 mem by (auto simp: usable_def)
  have "ConfNumber b \<le> Number mc" by (rule latest_covers [OF cok3 us3 conf mc])
  then have accept: "\<not> Number mc < ConfNumber b" by simp
  obtain d1 where d1: "vote_part env mc b d = Inr (Some d1)"
    using vote_part_defined [OF ne sg] by blast
  note f = vote_part_frame [OF d1]
  define x y z where "x = behind 1 as" "y = behind 2 as" "z = behind 3 as"
  note xyz = this
  have d1c: "deliverer (chain_updates env b x y d1) = deliverer d" "pipeline (chain_updates env b x y d1) = pipeline d"
    using f by simp_all
  obtain d2 where d2: "three_chain_part env mc b x y z (chain_updates env b x y d1) = Inr d2"
    and p2: "pipeline d2 = pipeline d"
    and e2: "deliverer d2 = (case (x, y, z) of
        (Some x, Some y, Some z) \<Rightarrow>
          (if CheckThreeChain (sha env) b x y z
           then fst (Deliver (sha env) (parsePKIX env) (execute env) z (deliverer d)) else deliverer d)
      | _ \<Rightarrow> deliverer d)"
    using three_chain_defined [OF ne, of env b x y z "chain_updates env b x y d1"] unfolding d1c by blast
  have del2: "deliverer d2 = fst (?D (?k - 2))"
  proof (cases "3 \<le> ?k")
    case True
    then have "?k - 2 = Suc (?k - 3)" "?k - 3 < length as" by linarith+
    then have "take (?k - 2) as = take (?k - 3) as @ [as ! (?k - 3)]"
      by (simp only: take_Suc_conv_app_nth)
    then show ?thesis
      using True chain_three [OF pc True] by (simp add: e2 xyz behind_def fst_deliver_all_append d split_def)
  next
    case False
    then show ?thesis by (simp add: e2 xyz behind_def d split: option.splits)
  qed
  obtain p' out where adv: "Advance (sha env) (pipeline d2) b = (p', out)"
    by (cases "Advance (sha env) (pipeline d2) b")
  have win: "window_ok (as @ [b]) p'" and out: "out = None \<or> 4 \<le> ?k \<and> out = Some (as ! (?k - 4))"
    using window_ok_Advance [OF w adv [unfolded p2]] by auto
  have dup: "fst (Deliver (sha env) (parsePKIX env) (execute env) (as ! (?k - 4)) (deliverer d2)) = deliverer d2"
    if "4 \<le> ?k"
  proof -
    have "delivered (fst (?D (?k - 2))) = delivered dl \<union> hashBlock (sha env) ` set (take (?k - 2) as)"
      using deliver_all_executed [OF prod.collapse [symmetric] none] by simp
    moreover have "as ! (?k - 4) \<in> set (take (?k - 2) as)"
      using that by (auto simp: in_set_conv_nth intro!: exI [of _ "?k - 4"])
    ultimately show ?thesis by (simp add: del2 Deliver_duplicate)
  qed
  have "HandlePropose env b d = Inr (pipeline_part env b d2)"
    using accept d1 d2 certified_behind [OF pc] certified_behind_Suc [OF pc, of 1] certified_behind_Suc [OF pc, of 2]
    by (simp add: HandlePropose_def mc Let_def numeral_eq_Suc xyz)
  moreover have "deliverer (pipeline_part env b d2) = fst (?D (?k - 2))"
    using out dup by (auto simp: pipeline_part_def adv Let_def del2)
  moreover have "pipeline (pipeline_part env b d2) = p'"
    by (auto simp: pipeline_part_def adv Let_def split: option.splits)
  ultimately show ?thesis using win by blast
qed

subsection \<open>Whole runs\<close>

lemma handler_pipeline:
  "HandleVote env v d = Inr d' \<Longrightarrow> pipeline d' = pipeline d"
  "HandleNewView env m d = Inr d' \<Longrightarrow> pipeline d' = pipeline d"
  "SubmitRequest r d = Some d' \<Longrightarrow> pipeline d' = pipeline d"
  "timeout_begin d = Inr (w, d') \<Longrightarrow> pipeline d' = pipeline d"
  "timeout_change env cx d = Inr d' \<Longrightarrow> pipeline d' = pipeline d"
proof -
  have p: "propose env j d = Inr d' \<Longrightarrow> pipeline d' = pipeline d" for j d by (erule propose_eq)
  show "HandleVote env v d = Inr d' \<Longrightarrow> pipeline d' = pipeline d"
    by (erule HandleVote_cases) (auto dest: p)
  show "HandleNewView env m d = Inr d' \<Longrightarrow> pipeline d' = pipeline d"
    by (erule HandleNewView_cases) (auto dest: p)
  show "SubmitRequest r d = Some d' \<Longrightarrow> pipeline d' = pipeline d"
    by (auto simp: SubmitRequest_def split: option.splits)
  show "timeout_begin d = Inr (w, d') \<Longrightarrow> pipeline d' = pipeline d"
    by (auto simp: timeout_begin_def split: option.splits sum.splits)
  show "timeout_change env cx d = Inr d' \<Longrightarrow> pipeline d' = pipeline d"
    by (auto simp: timeout_change_def split: sum.splits)
qed

lemma proposals_chain:
  assumes "proposals env bs s t" "chain_ready env (deliverer (node s)) bs"
    and "pipeline (node s) = empty_pipeline"
  shows "deliverer (node t) = fst (delivery env (take (length bs - 3) bs) (deliverer (node s))) \<and>
    window_ok bs (pipeline (node t))"
  using assms
proof (induction rule: proposals.induct)
  case (proposal bs s t b d)
  have "chain_ready env (deliverer (node s)) bs" by (rule chain_ready_butlast [OF proposal.prems(1)])
  with proposal.IH proposal.prems(2)
  have t: "deliverer (node t) = fst (delivery env (take (length bs - 3) bs) (deliverer (node s)))"
    and w: "window_ok bs (pipeline (node t))" by simp_all
  from HandlePropose_chain [OF proposal.prems(1) t w] proposal.hyps(2) show ?case by auto
qed (auto simp: handler_deliverer handler_pipeline timeout_end_def)

text \<open>The next proposal of the chain is never refused with a panic.\<close>

lemma proposals_progress:
  assumes "proposals env bs s t" "chain_ready env (deliverer (node s)) (bs @ [b])"
    and "pipeline (node s) = empty_pipeline"
  shows "\<exists>d. HandlePropose env b (node t) = Inr d"
  using proposals_chain [OF assms(1) chain_ready_butlast [OF assms(2)] assms(3)]
    HandlePropose_chain [OF assms(2), of "node t"] by blast

lemma proposals_exist:
  assumes "chain_ready env (deliverer (node s)) bs" "pipeline (node s) = empty_pipeline"
  shows "\<exists>t. proposals env bs s t"
  using assms(1)
proof (induction bs rule: rev_induct)
  case Nil
  show ?case by (blast intro: no_proposal)
next
  case (snoc b bs)
  from snoc.IH [OF chain_ready_butlast [OF snoc.prems]] obtain t where t: "proposals env bs s t" by blast
  with proposals_progress [OF t snoc.prems assms(2)] show ?case by (blast intro: proposal)
qed

text \<open>Replicas at different points of one chain deliver prefixes of one another.\<close>

lemma chain_agreement:
  assumes "proposals env bs s t" "proposals env' (bs @ cs) s' t'"
    and "chain_ready env (deliverer (node s)) bs" "chain_ready env' (deliverer (node s')) (bs @ cs)"
    and "pipeline (node s) = empty_pipeline" "pipeline (node s') = empty_pipeline"
    and "deliverer (node s) = deliverer (node s')"
    and "sha env = sha env'" "parsePKIX env = parsePKIX env'" "execute env = execute env'"
  shows "grows (deliverer (node t)) (deliverer (node t'))"
    "cs = [] \<Longrightarrow> deliverer (node t) = deliverer (node t')"
proof -
  let ?D = "\<lambda>n. fst (delivery env' (take n (bs @ cs)) (deliverer (node s')))"
  have t: "deliverer (node t) = ?D (length bs - 3)"
    using proposals_chain [OF assms(1,3,5)] assms(7-10) by simp
  have t': "deliverer (node t') = ?D (length (bs @ cs) - 3)"
    using proposals_chain [OF assms(2,4,6)] by blast
  have "length bs - 3 \<le> length (bs @ cs) - 3" by simp
  from take_split [OF this] have "grows (?D (length bs - 3)) (?D (length (bs @ cs) - 3))"
    by (metis deliver_all_grows fst_deliver_all_append)
  then show "grows (deliverer (node t)) (deliverer (node t'))" by (simp only: t t')
  show "cs = [] \<Longrightarrow> deliverer (node t) = deliverer (node t')" by (simp add: t t')
qed

end
