(* ===== verification/Messages.thy ===== *)
theory Messages
  imports Replica
begin

section \<open>The messages of a replica\<close>

text \<open>
  What a replica hands to the network over a whole run: only blocks for its committee, votes in
  its own name and view-change messages for the next leader, each with the fields the receiving
  handlers read.
\<close>

fun action_ok :: "('pk, 'app) Env \<Rightarrow> 'pk Committee list \<Rightarrow> string \<Rightarrow> 'pk action \<Rightarrow> bool" where
  "action_ok env cs me (Broadcast mc (BlockMsg b)) \<longleftrightarrow>
     mc \<in> set cs \<and> ConfNumber b = Number mc \<and> ParentHash b = GetBlockHash (Justify b) \<and>
     length (Batch b) \<le> batchSize"
| "action_ok env cs me (SendTo addr (Vote v)) \<longleftrightarrow>
     vote_SignerId v = me \<and>
     (\<exists>mc \<in> set cs. vote_ConfNumber v = Number mc \<and> (\<exists>r \<in> set (Replicas mc). addr = Addr r)) \<and>
     (\<exists>b. vote_BlockHash v = hashBlock (sha env) b \<and>
        signFn env (ConfNumber b) (vote_ConfNumber v) (vote_BlockHash v) = Some (vote_Signature v))"
| "action_ok env cs me (SendTo addr (ViewMsg m)) \<longleftrightarrow>
     (\<exists>mc \<in> set cs. nv_ConfNumber m = Number mc \<and>
        (\<exists>r. Leader mc (nv_ViewNumber m) = Inr r \<and> addr = Addr r))"
| "action_ok env cs me (SendTo addr (BlockMsg b)) \<longleftrightarrow> False"
| "action_ok env cs me (Broadcast mc (Vote v)) \<longleftrightarrow> False"
| "action_ok env cs me (Broadcast mc (ViewMsg m)) \<longleftrightarrow> False"

lemma action_ok_mono: "action_ok env cs me a \<Longrightarrow> set cs \<subseteq> set cs' \<Longrightarrow> action_ok env cs' me a"
  by (cases "(env, cs, me, a)" rule: action_ok.cases) auto

subsection \<open>What each handler sends\<close>

lemma Leader_member: "Leader mc v = Inr r \<Longrightarrow> r \<in> set (Replicas mc)"
proof -
  let ?n = "of_nat (length (Replicas mc)) :: u64"
  assume "Leader mc v = Inr r"
  then have r: "r = Replicas mc ! unat (v mod ?n)" and "?n \<noteq> 0"
    by (auto simp: Leader_def Let_def split: if_splits)
  then have "unat (v mod ?n) < unat ?n" by (simp add: unat_mod unat_gt_0)
  also have "\<dots> \<le> length (Replicas mc)" by (simp add: unat_of_nat)
  finally show ?thesis by (simp add: r)
qed

lemma selectLeader_member:
  "leader_deref (selectLeader mc d) = Inr r \<Longrightarrow> r \<in> set (Replicas mc)"
  by (auto simp: selectLeader_def leader_deref_def dest: Leader_member Select_Some(1)
        split: option.splits sum.splits)

lemma vote_part_outbox:
  assumes "vote_part env mc b d = Inr (Some d1)"
  shows "myID d1 = myID d \<and> (outbox d1 = outbox d \<or>
    (\<exists>r \<in> set (Replicas mc). \<exists>sig.
       signFn env (ConfNumber b) (Number mc) (hashBlock (sha env) b) = Some sig \<and>
       outbox d1 = outbox d @ [SendTo (Addr r) (Vote
         \<lparr>vote_ViewNumber = curView d, vote_ConfNumber = Number mc,
          vote_BlockHash = hashBlock (sha env) b, vote_Signature = sig, vote_SignerId = myID d\<rparr>)]))"
  using assms by (auto simp: vote_part_def Let_def dest!: selectLeader_member
      split: if_splits option.splits sum.splits)

lemma three_chain_myID:
  "three_chain_part env mc b bd bp bb d = Inr d' \<Longrightarrow> myID d' = myID d"
  by (auto simp: three_chain_part_def Let_def split: option.splits if_splits sum.splits)

lemma chain_updates_myID [simp]: "myID (chain_updates env b bd bp d) = myID d"
  by (cases bd; cases bp; simp add: chain_updates_def)

lemma pipeline_part_myID [simp]: "myID (pipeline_part env b d) = myID d"
  by (auto simp: pipeline_part_def Let_def split: prod.splits option.splits)

lemma HandlePropose_sends:
  assumes "HandlePropose env b d = Inr d'"
  obtains "outbox d' = outbox d" "myID d' = myID d"
  | mc r sig where "Latest (store (deliverer d)) = Inr mc" "r \<in> set (Replicas mc)"
    "signFn env (ConfNumber b) (Number mc) (hashBlock (sha env) b) = Some sig" "myID d' = myID d"
    "outbox d' = outbox d @ [SendTo (Addr r) (Vote
       \<lparr>vote_ViewNumber = curView d, vote_ConfNumber = Number mc,
        vote_BlockHash = hashBlock (sha env) b, vote_Signature = sig, vote_SignerId = myID d\<rparr>)]"
  using assms
proof (cases rule: HandlePropose_cases)
  case 1
  then show ?thesis using that by simp
next
  case (2 mc d1 d2 bDouble bPrime bb)
  have "outbox d' = outbox d1" "myID d' = myID d1"
    using three_chain_frame [OF 2(7)] three_chain_myID [OF 2(7)] by (simp_all add: 2(8))
  with vote_part_outbox [OF 2(4)] 2(1) show ?thesis using that by auto
qed

lemma propose_myID: "propose env j d = Inr d' \<Longrightarrow> myID d' = myID d"
  by (auto simp: propose_def Let_def dest: record_round_frame split: sum.splits prod.splits)

lemma step_myID: "step env s t \<Longrightarrow> myID (node t) = myID (node s)"
proof (erule step.cases)
  fix s' b d assume "HandlePropose env b (node s') = Inr d" and "s = s'" "t = s'\<lparr>node := d\<rparr>"
  then show ?thesis by (auto elim: HandlePropose_sends)
qed (auto simp: SubmitRequest_def timeout_begin_def timeout_change_def timeout_end_def
      dest!: propose_myID elim!: HandleVote_cases HandleNewView_cases
      split: option.splits sum.splits)

lemma timeout_change_sends:
  assumes "timeout_change env cx d = Inr d'"
  shows "outbox d' = outbox d \<or> (\<exists>mc r. Latest (store (deliverer d)) = Inr mc \<and>
    Leader mc (vc_curView (vc d) + 1) = Inr r \<and>
    outbox d' = outbox d @ [SendTo (Addr r) (ViewMsg
      \<lparr>nv_ViewNumber = vc_curView (vc d) + 1, nv_ConfNumber = Number mc,
       nv_GenericQc = GenericQC (safety d)\<rparr>)])"
  using assms by (auto simp: timeout_change_def OnTimeout_def Let_def split: sum.splits if_splits)

subsection \<open>The outbox of a run\<close>

definition outbox_ok :: "('pk, 'app) Env \<Rightarrow> ('pk, 'app) DHotStuff \<Rightarrow> bool" where
  "outbox_ok env d \<longleftrightarrow> (\<forall>a \<in> set (outbox d). action_ok env (configs (store (deliverer d))) (myID d) a)"

lemma propose_sends:
  assumes "propose env j d = Inr d'"
  shows "\<exists>mc blk. Latest (store (deliverer d)) = Inr mc \<and> deliverer d' = deliverer d \<and> myID d' = myID d \<and>
    outbox d' = outbox d @ [Broadcast mc (BlockMsg blk)] \<and> Justify blk = j \<and>
    action_ok env (configs (store (deliverer d))) (myID d) (Broadcast mc (BlockMsg blk))"
proof -
  have "myID d' = myID d" using assms by (rule propose_myID)
  with assms show ?thesis by (elim propose_eq) (auto simp: batchSize_def dest: Latest_in)
qed

text \<open>A step sends nothing or one well-formed message.\<close>

lemma handler_sends:
  "HandleVote env v d = Inr d' \<Longrightarrow> outbox d' = outbox d \<or>
     (\<exists>a. outbox d' = outbox d @ [a] \<and> action_ok env (configs (store (deliverer d))) (myID d) a)"
  "HandleNewView env m d = Inr d' \<Longrightarrow> outbox d' = outbox d \<or>
     (\<exists>a. outbox d' = outbox d @ [a] \<and> action_ok env (configs (store (deliverer d))) (myID d) a)"
  "HandlePropose env b d = Inr d' \<Longrightarrow> outbox d' = outbox d \<or>
     (\<exists>a. outbox d' = outbox d @ [a] \<and> action_ok env (configs (store (deliverer d))) (myID d) a)"
  "timeout_change env cx d = Inr d' \<Longrightarrow> outbox d' = outbox d \<or>
     (\<exists>a. outbox d' = outbox d @ [a] \<and> action_ok env (configs (store (deliverer d))) (myID d) a)"
proof -
  show "HandleVote env v d = Inr d' \<Longrightarrow> outbox d' = outbox d \<or>
     (\<exists>a. outbox d' = outbox d @ [a] \<and> action_ok env (configs (store (deliverer d))) (myID d) a)"
    by (erule HandleVote_cases, simp, simp) (drule propose_sends, auto)
  show "HandleNewView env m d = Inr d' \<Longrightarrow> outbox d' = outbox d \<or>
     (\<exists>a. outbox d' = outbox d @ [a] \<and> action_ok env (configs (store (deliverer d))) (myID d) a)"
    by (erule HandleNewView_cases, simp) (drule propose_sends, auto)
  show "HandlePropose env b d = Inr d' \<Longrightarrow> outbox d' = outbox d \<or>
     (\<exists>a. outbox d' = outbox d @ [a] \<and> action_ok env (configs (store (deliverer d))) (myID d) a)"
    by (erule HandlePropose_sends, simp) (auto dest: Latest_in intro!: bexI exI)
  assume t: "timeout_change env cx d = Inr d'"
  have "action_ok env (configs (store (deliverer d))) (myID d) (SendTo (Addr r) (ViewMsg
      \<lparr>nv_ViewNumber = v, nv_ConfNumber = Number mc, nv_GenericQc = q\<rparr>))"
    if "Latest (store (deliverer d)) = Inr mc" "Leader mc v = Inr r" for mc r v q
    using Latest_in [OF that(1)] that(2) by auto
  with timeout_change_sends [OF t] show "outbox d' = outbox d \<or>
     (\<exists>a. outbox d' = outbox d @ [a] \<and> action_ok env (configs (store (deliverer d))) (myID d) a)"
    by blast
qed

lemma step_sends:
  "step env s t \<Longrightarrow> outbox (node t) = outbox (node s) \<or>
     (\<exists>a. outbox (node t) = outbox (node s) @ [a] \<and>
        action_ok env (configs (store (deliverer (node s)))) (myID (node s)) a)"
proof (erule step.cases)
  fix r d u assume "SubmitRequest r (node u) = Some d" "s = u" "t = u\<lparr>node := d\<rparr>"
  then show ?thesis by (auto simp: SubmitRequest_def split: option.splits)
next
  fix v d u assume "timeout_begin (node u) = Inr (v, d)" "s = u" "t = u\<lparr>node := d, begun := begun u @ [v]\<rparr>"
  then show ?thesis by (auto dest: timeout_begin_frame)
qed (auto simp: timeout_end_def dest: handler_sends)

lemma step_outbox_ok:
  assumes "step env s t" "outbox_ok env (node s)"
  shows "outbox_ok env (node t)"
proof -
  have sub: "set (configs (store (deliverer (node s)))) \<subseteq> set (configs (store (deliverer (node t))))"
    using step_grows [OF assms(1)] by (simp add: grows_def set_mono_prefix)
  have "action_ok env (configs (store (deliverer (node s)))) (myID (node s)) a \<Longrightarrow>
      action_ok env (configs (store (deliverer (node t)))) (myID (node t)) a" for a
    unfolding step_myID [OF assms(1)] by (erule action_ok_mono [OF _ sub])
  then show ?thesis
    using step_sends [OF assms(1)] assms(2) by (auto simp: outbox_ok_def)
qed

lemma runs_outbox_ok: "runs env s t \<Longrightarrow> outbox_ok env (node s) \<Longrightarrow> outbox_ok env (node t)"
  by (induction rule: rtranclp_induct) (auto intro: step_outbox_ok)

lemma runs_myID: "runs env s t \<Longrightarrow> myID (node t) = myID (node s)"
  by (induction rule: rtranclp_induct) (auto dest: step_myID)

lemma runs_outbox: "runs env s t \<Longrightarrow> prefix (outbox (node s)) (outbox (node t))"
  by (induction rule: rtranclp_induct) (auto dest: step_sends intro: prefix_order.trans)

end
