(* ===== verification/System.thy ===== *)
theory System
  imports ChainRun Messages
begin

section \<open>A system of replicas\<close>

text \<open>
  Replicas joined by a network. Every message a correct replica sent can reach any correct
  replica any number of times, in any order or never; besides, the network can deliver the
  messages of a set \<open>A\<close> that the faulty replicas may have sent. Each replica has an environment
  of its own.
\<close>

type_synonym ('pk, 'app) system = "string \<Rightarrow> ('pk, 'app) process"

fun payload :: "'pk action \<Rightarrow> message" where
  "payload (SendTo addr m) = m"
| "payload (Broadcast mc m) = m"

definition sends :: "('pk, 'app) process \<Rightarrow> message \<Rightarrow> bool" where
  "sends s m \<longleftrightarrow> m \<in> payload ` set (outbox (node s))"

definition sent :: "string set \<Rightarrow> ('pk, 'app) system \<Rightarrow> message set" where
  "sent P S = {m. \<exists>j \<in> P. sends (S j) m}"

definition receive :: "('pk, 'app) Env \<Rightarrow> message \<Rightarrow> ('pk, 'app) DHotStuff \<Rightarrow> panic + ('pk, 'app) DHotStuff" where
  "receive env m d =
     (case m of BlockMsg b \<Rightarrow> HandlePropose env b d
              | ViewMsg n \<Rightarrow> HandleNewView env n d
              | Vote v \<Rightarrow> HandleVote env v d)"

inductive net_step :: "(string \<Rightarrow> ('pk, 'app) Env) \<Rightarrow> string set \<Rightarrow> message set
    \<Rightarrow> ('pk, 'app) system \<Rightarrow> ('pk, 'app) system \<Rightarrow> bool" for E P A where
  net_receive: "i \<in> P \<Longrightarrow> m \<in> A \<union> sent P S \<Longrightarrow> receive (E i) m (node (S i)) = Inr d \<Longrightarrow>
    net_step E P A S (S(i := (S i)\<lparr>node := d\<rparr>))"
| net_submit: "i \<in> P \<Longrightarrow> SubmitRequest r (node (S i)) = Some d \<Longrightarrow>
    net_step E P A S (S(i := (S i)\<lparr>node := d\<rparr>))"
| net_timeout_begin: "i \<in> P \<Longrightarrow> timeout_begin (node (S i)) = Inr (v, d) \<Longrightarrow>
    net_step E P A S (S(i := (S i)\<lparr>node := d, begun := begun (S i) @ [v]\<rparr>))"
| net_timeout_change: "i \<in> P \<Longrightarrow> begun (S i) = xs @ v # ys \<Longrightarrow>
    timeout_change (E i) cx (node (S i)) = Inr d \<Longrightarrow>
    net_step E P A S (S(i := (S i)\<lparr>node := d, begun := xs @ ys, changed := changed (S i) @ [v]\<rparr>))"
| net_timeout_end: "i \<in> P \<Longrightarrow> changed (S i) = xs @ v # ys \<Longrightarrow>
    net_step E P A S (S(i := (S i)\<lparr>node := timeout_end v (node (S i)), changed := xs @ ys\<rparr>))"

abbreviation net_runs :: "(string \<Rightarrow> ('pk, 'app) Env) \<Rightarrow> string set \<Rightarrow> message set
    \<Rightarrow> ('pk, 'app) system \<Rightarrow> ('pk, 'app) system \<Rightarrow> bool" where
  "net_runs E P A \<equiv> (net_step E P A)\<^sup>*\<^sup>*"

text \<open>The initial states: replicas as \<open>NewDHotStuff\<close> builds them, each under its own identity.\<close>

definition initial :: "string set \<Rightarrow> ('pk, 'app) system \<Rightarrow> bool" where
  "initial P S \<longleftrightarrow> (\<forall>i \<in> P. \<exists>g heap a n rep. Number g = 0 \<and> wf_committee g \<and>
     S i = start (NewDHotStuff i (NewConfigStore g heap) a n rep))"

subsection \<open>Local steps\<close>

lemma receive_step: "receive env m (node s) = Inr d \<Longrightarrow> step env s (s\<lparr>node := d\<rparr>)"
  by (cases m) (auto simp: receive_def intro: step.intros)

lemma net_step_local:
  assumes "net_step E P A S S'"
  obtains i where "i \<in> P" "step (E i) (S i) (S' i)" "\<And>j. j \<noteq> i \<Longrightarrow> S' j = S j"
  using assms
proof cases
  case (net_receive i m d)
  then show ?thesis using receive_step [of "E i" m "S i" d] by (intro that [of i]) simp_all
next
  case (net_submit i r d)
  then show ?thesis by (intro that [of i]) (simp_all add: step.on_submit)
next
  case (net_timeout_begin i v d)
  then show ?thesis by (intro that [of i]) (simp_all add: step.on_timeout_begin)
next
  case (net_timeout_change i xs v ys cx d)
  then show ?thesis using step.on_timeout_change [of "S i" xs v ys "E i" cx d]
    by (intro that [of i]) simp_all
next
  case (net_timeout_end i xs v ys)
  then show ?thesis using step.on_timeout_end [of "S i" xs v ys "E i"]
    by (intro that [of i]) simp_all
qed

lemma net_runs_local: "net_runs E P A S S' \<Longrightarrow> runs (E i) (S i) (S' i)"
proof (induction rule: rtranclp_induct)
  case (step T U)
  from step.hyps(2) obtain k where "step (E k) (T k) (U k)" "\<And>j. j \<noteq> k \<Longrightarrow> U j = T j"
    by (elim net_step_local) blast
  with step.IH show ?case by (cases "i = k") (auto intro: rtranclp.rtrancl_into_rtrancl)
qed simp

subsection \<open>Local invariants in the system\<close>

lemma start_simps [simp]: "node (start d) = d" "begun (start d) = []" "changed (start d) = []"
  by (simp_all add: start_def)

lemma NewDHotStuff_simps [simp]:
  "myID (NewDHotStuff i cs a n rep) = i" "outbox (NewDHotStuff i cs a n rep) = []"
  "votesBuf (NewDHotStuff i cs a n rep) = Map.empty" "newViewBuf (NewDHotStuff i cs a n rep) = Map.empty"
  "safety (NewDHotStuff i cs a n rep) = \<lparr>LockedQC = None, GenericQC = None\<rparr>"
  "pipeline (NewDHotStuff i cs a n rep) = empty_pipeline"
  "deliverer (NewDHotStuff i cs a n rep) = NewDeliverer cs a"
  by (simp_all add: NewDHotStuff_def)

lemma reachable_local:
  assumes "initial P S0" "net_runs E P A S0 S" "i \<in> P"
  shows "myID (node (S i)) = i" "replica_ok (E i) (node (S i))" "outbox_ok (E i) (node (S i))"
proof -
  obtain g heap a n rep where g: "Number g = 0" "wf_committee g"
    "S0 i = start (NewDHotStuff i (NewConfigStore g heap) a n rep)"
    using assms(1,3) unfolding initial_def by blast
  have r: "runs (E i) (S0 i) (S i)" by (rule net_runs_local [OF assms(2)])
  show "myID (node (S i)) = i" using runs_myID [OF r] g(3) by simp
  show "replica_ok (E i) (node (S i))"
    using runs_ok [OF r] replica_ok_New [OF g(1,2), of "E i" i heap a n rep] g(3) by simp
  show "outbox_ok (E i) (node (S i))"
    using runs_outbox_ok [OF r] g(3) by (simp add: outbox_ok_def)
qed

lemma sends_step: "step env s t \<Longrightarrow> sends s m \<Longrightarrow> sends t m"
  using step_sends [of env s t] by (auto simp: sends_def)

lemma net_step_sends: "net_step E P A S S' \<Longrightarrow> sends (S j) m \<Longrightarrow> sends (S' j) m"
  by (erule net_step_local, cases "\<exists>k. j = k") (metis sends_step)+

text \<open>A vote is sent by the replica it names.\<close>

lemma sent_vote_signer:
  assumes "initial P S0" "net_runs E P A S0 S" "Vote v \<in> sent P S"
  shows "vote_SignerId v \<in> P \<and> sends (S (vote_SignerId v)) (Vote v)"
proof -
  from assms(3) obtain j where j: "j \<in> P" "sends (S j) (Vote v)" by (auto simp: sent_def)
  have "outbox_ok (E j) (node (S j))" "myID (node (S j)) = j"
    using reachable_local [OF assms(1,2) j(1)] by blast+
  moreover obtain a where "a \<in> set (outbox (node (S j)))" "payload a = Vote v"
    using j(2) by (auto simp: sends_def)
  ultimately have "vote_SignerId v = j" by (cases a) (force simp: outbox_ok_def)+
  with j show ?thesis by simp
qed

subsection \<open>Votes behind certificates\<close>

text \<open>The faulty replicas cannot sign for a correct one.\<close>

definition unforged :: "string set \<Rightarrow> message set \<Rightarrow> bool" where
  "unforged P A \<longleftrightarrow> (\<forall>v. Vote v \<in> A \<longrightarrow> vote_SignerId v \<notin> P)"

text \<open>
  Where a vote comes from: the faulty replicas, or the correct replica it names. Every vote that
  a replica buffers has such an origin.
\<close>

definition origin :: "string set \<Rightarrow> message set \<Rightarrow> ('pk, 'app) system \<Rightarrow> VoteMsg \<Rightarrow> bool" where
  "origin P A S v \<longleftrightarrow> Vote v \<in> A \<or> (vote_SignerId v \<in> P \<and> sends (S (vote_SignerId v)) (Vote v))"

definition votes_from :: "(VoteMsg \<Rightarrow> bool) \<Rightarrow> ('pk, 'app) process \<Rightarrow> bool" where
  "votes_from R s \<longleftrightarrow> (\<forall>view vs. votesBuf (node s) view = Some vs \<longrightarrow> (\<forall>v \<in> set vs. R v))"

lemma origin_mono:
  "origin P A S v \<Longrightarrow> (\<And>i m. sends (S i) m \<Longrightarrow> sends (S' i) m) \<Longrightarrow> origin P A S' v"
  by (auto simp: origin_def)

lemma votes_from_mono: "votes_from R s \<Longrightarrow> (\<And>v. R v \<Longrightarrow> R' v) \<Longrightarrow> votes_from R' s"
  by (auto simp: votes_from_def)

lemma votes_from_buf:
  assumes "votes_from R s"
    and "\<And>view vs w. votesBuf (node t) view = Some vs \<Longrightarrow> w \<in> set vs \<Longrightarrow>
      (\<exists>ws. votesBuf (node s) view = Some ws \<and> w \<in> set ws) \<or> R w"
  shows "votes_from R t"
  using assms unfolding votes_from_def by blast

lemma HandleVote_buffers:
  assumes "HandleVote env v d = Inr d'" "votesBuf d' view = Some vs" "w \<in> set vs"
  shows "(\<exists>ws. votesBuf d view = Some ws \<and> w \<in> set ws) \<or> w = v"
  using assms(1)
proof (cases rule: HandleVote_cases)
  case (2 mc r pk)
  show ?thesis
  proof (cases "view = vote_ViewNumber v")
    case True
    then have "w \<in> insert v (set (buffered (votesBuf d) view))"
      using 2(5) assms(2,3) set_Aggregate by fastforce
    then show ?thesis by (cases "votesBuf d view") (auto simp: buffered_def)
  next
    case False
    with 2(5) assms(2,3) show ?thesis by simp
  qed
next
  case (3 mc r pk qc)
  have "votesBuf d' = (votesBuf d)(vote_ViewNumber v := None)" by (rule propose_eq [OF 3(7)]) simp
  with assms(2,3) show ?thesis by (auto split: if_splits)
qed (use assms in simp)

lemma other_buffers:
  "HandlePropose env b d = Inr d' \<Longrightarrow> votesBuf d' = votesBuf d"
  "HandleNewView env m d = Inr d' \<Longrightarrow> votesBuf d' = votesBuf d"
  "SubmitRequest r d = Some d' \<Longrightarrow> votesBuf d' = votesBuf d"
  "timeout_begin d = Inr (w, d') \<Longrightarrow> votesBuf d' = votesBuf d"
  "timeout_change env cx d = Inr d' \<Longrightarrow> votesBuf d' = votesBuf d"
proof -
  have p: "propose env j d = Inr d' \<Longrightarrow> votesBuf d' = votesBuf d" for j d by (erule propose_eq)
  show "HandleNewView env m d = Inr d' \<Longrightarrow> votesBuf d' = votesBuf d"
    by (erule HandleNewView_cases) (auto dest: p)
qed (auto simp: SubmitRequest_def dest: HandlePropose_frame(2) timeout_begin_frame timeout_change_frame
      split: option.splits)

lemma votes_from_step:
  assumes "votes_from R (S k)" "net_step E P A S S'" "\<And>v. Vote v \<in> A \<union> sent P S \<Longrightarrow> R v"
  shows "votes_from R (S' k)"
  using assms(2)
proof cases
  case (net_receive i m d)
  then show ?thesis
    by (cases m)
       (auto intro!: votes_from_buf [OF assms(1)] simp: receive_def other_buffers
         dest: HandleVote_buffers intro: assms(3))
next
  case (net_timeout_end i xs v ys)
  then show ?thesis
    by (intro votes_from_buf [OF assms(1)]) (auto simp: timeout_end_def split: if_splits)
qed (auto intro!: votes_from_buf [OF assms(1)] simp: other_buffers split: if_splits)

lemma available_origin:
  assumes "initial P S0" "net_runs E P A S0 S" "Vote v \<in> A \<union> sent P S"
  shows "origin P A S v"
  using assms sent_vote_signer [OF assms(1,2), of v] by (auto simp: origin_def)

lemma reachable_votes_from:
  assumes "net_runs E P A S0 S" "initial P S0" "i \<in> P"
  shows "votes_from (origin P A S) (S i)"
  using assms(1)
proof (induction rule: rtranclp_induct)
  case base
  then show ?case using assms(2,3) by (auto simp: initial_def votes_from_def)
next
  case (step T U)
  have "votes_from (origin P A T) (U i)"
    using step.IH step.hyps(2) available_origin [OF assms(2) step.hyps(1)] by (rule votes_from_step)
  then show ?case by (rule votes_from_mono) (erule origin_mono, rule net_step_sends [OF step.hyps(2)])
qed

text \<open>A certificate that a correct replica builds: its signatures and the votes behind them.\<close>

definition backed :: "string set \<Rightarrow> message set \<Rightarrow> ('pk, 'app) system \<Rightarrow> QuorumCert \<Rightarrow> bool" where
  "backed P A S qc \<longleftrightarrow> distinct (qc_SignerIds qc) \<and>
     length (qc_Signatures qc) = length (qc_SignerIds qc) \<and>
     (\<forall>p \<in> set (zip (qc_SignerIds qc) (qc_Signatures qc)).
        \<exists>w. p = (vote_SignerId w, vote_Signature w) \<and> vote_ViewNumber w = qc_ViewNumber qc \<and>
          origin P A S w)"

lemma backed_mono:
  "backed P A S qc \<Longrightarrow> (\<And>i m. sends (S i) m \<Longrightarrow> sends (S' i) m) \<Longrightarrow> backed P A S' qc"
  unfolding backed_def by (meson origin_mono)

lemma member_ids: "ReplicaByID c i = Some r \<Longrightarrow> i \<in> set (ids c)"
  by (auto dest: ReplicaByID_Some simp: ids_def)

lemma HandleVote_backed:
  assumes h: "HandleVote (E i) v (node (S i)) = Inr d" and ok: "replica_ok (E i) (node (S i))"
    and hv: "votes_from (origin P A S) (S i)" and v: "origin P A S v"
    and new: "outbox d \<noteq> outbox (node (S i))"
  shows "\<exists>mc blk qc. outbox d = outbox (node (S i)) @ [Broadcast mc (BlockMsg blk)] \<and>
    Latest (store (deliverer (node (S i)))) = Inr mc \<and> Justify blk = Some qc \<and>
    GenericQC (safety d) \<in> {GenericQC (safety (node (S i))), Some qc} \<and>
    newViewBuf d = newViewBuf (node (S i)) \<and>
    int (length (qc_SignerIds qc)) = QuorumSize mc \<and> backed P A S qc \<and>
    set (qc_SignerIds qc) \<subseteq> (\<Union>c \<in> set (configs (store (deliverer (node (S i))))). set (ids c))"
  using h
proof (cases rule: HandleVote_cases)
  case (3 mc r pk qc)
  let ?d = "node (S i)"
  let ?vs = "AggregateVotes (buffered (votesBuf ?d) (vote_ViewNumber v)) v"
  let ?cs = "configs (store (deliverer ?d))"
  have vv: "vote_verified (E i) ?cs v"
    unfolding vote_verified_def using 3(1-4) Latest_in by blast
  then have vok: "votes_ok (E i) ?cs (vote_ViewNumber v) ?vs"
    using votes_ok_buffered [OF ok] by (intro votes_ok_Aggregate)
  have "wf_committee mc"
    using Latest_in [OF 3(1)] ok by (simp add: replica_ok_def committees_ok_def)
  then have q: "0 < QuorumSize mc" by (simp add: QuorumSize_wf)
  note sh = CreateQC_shape [OF q 3(6)]
  have ne: "?vs \<noteq> []" using 3(6) q by (auto simp: CreateQC_def)
  then have "vote_ViewNumber (hd ?vs) = vote_ViewNumber v" using vok by (simp add: votes_ok_def)
  then have view: "qc_ViewNumber qc = vote_ViewNumber v" using 3(6) q by (simp add: CreateQC_Inr)
  have src: "origin P A S w" if "w \<in> set ?vs" for w
  proof -
    have "w \<in> insert v (set (buffered (votesBuf ?d) (vote_ViewNumber v)))"
      using that set_Aggregate by fastforce
    then show ?thesis
      using hv v by (cases "votesBuf ?d (vote_ViewNumber v)") (auto simp: buffered_def votes_from_def)
  qed
  have "backed P A S qc"
    unfolding backed_def view using sh vok src by (fastforce simp: votes_ok_def)
  moreover have "set (qc_SignerIds qc) \<subseteq> (\<Union>c \<in> set ?cs. set (ids c))"
  proof
    fix x assume "x \<in> set (qc_SignerIds qc)"
    then obtain y where "(x, y) \<in> set (zip (qc_SignerIds qc) (qc_Signatures qc))"
      using sh(2) by (metis in_set_impl_in_set_zip1)
    then obtain w where "w \<in> set ?vs" "vote_SignerId w = x" using sh(4) by fastforce
    then have "vote_verified (E i) ?cs w" "vote_SignerId w = x" using vok by (simp_all add: votes_ok_def)
    then show "x \<in> (\<Union>c \<in> set ?cs. set (ids c))"
      unfolding vote_verified_def using member_ids by blast
  qed
  moreover obtain blk where "outbox d = outbox ?d @ [Broadcast mc (BlockMsg blk)]" "Justify blk = Some qc"
    "safety d = raise_generic qc (safety ?d)" "newViewBuf d = newViewBuf ?d"
    using 3(7) by (rule propose_eq) (use 3(1) in auto)
  ultimately show ?thesis using 3(1) sh(1)
    by (intro exI [of _ mc] exI [of _ blk] exI [of _ qc]) (auto simp: raise_generic_def)
qed (use new in simp_all)

text \<open>
  How many correct replicas stand behind a certificate when at most \<open>f\<close> members are faulty.
\<close>

lemma backed_correct:
  assumes "backed P A S qc" "unforged P A" "x \<in> set (qc_SignerIds qc)" "x \<in> P"
  shows "\<exists>w. sends (S x) (Vote w) \<and> vote_ViewNumber w = qc_ViewNumber qc \<and>
    vote_Signature w \<in> set (qc_Signatures qc)"
proof -
  obtain y where y: "(x, y) \<in> set (zip (qc_SignerIds qc) (qc_Signatures qc))"
    using assms(1,3) unfolding backed_def by (metis in_set_impl_in_set_zip1)
  then obtain w where "x = vote_SignerId w" "y = vote_Signature w" "vote_ViewNumber w = qc_ViewNumber qc"
    "origin P A S w"
    using assms(1) unfolding backed_def by blast
  then show ?thesis using y assms(2,4) by (auto simp: origin_def unforged_def dest: set_zip_rightD)
qed

lemma quorum_beats_faults: "2 * fault_bound n < quorum_size n"
proof -
  have "3 * fault_bound n \<le> n - 1" unfolding fault_bound_def by (rule times_div_less_eq_dividend)
  then have "3 * fault_bound n \<le> n" by simp
  then have "Suc (2 * fault_bound n) * 2 \<le> n + fault_bound n + 2" by simp
  then show ?thesis unfolding quorum_size_def by (simp add: less_eq_div_iff_mult_less_eq Suc_le_eq)
qed

lemma correct_signers:
  assumes "wf_committee mc" "distinct is" "int (length is) = QuorumSize mc"
    and "set is \<subseteq> M" "finite (M - P)" "int (card (M - P)) \<le> FaultCap mc"
  shows "FaultCap mc < int (card (set is \<inter> P))"
proof -
  let ?n = "length (Replicas mc)"
  have q: "length is = quorum_size ?n" using assms(3) QuorumSize_wf [OF assms(1)] by simp
  have f: "FaultCap mc = int (fault_bound ?n)" using assms(1) by (simp add: wf_committee_def)
  have "card (set is) = card (set is \<inter> P) + card (set is - P)"
    by (metis Int_Diff_Un Int_Diff_disjoint card_Un_disjoint finite_Diff finite_Int finite_set)
  moreover have "card (set is - P) \<le> card (M - P)"
    using assms(4,5) by (intro card_mono) auto
  moreover have "card (set is) = quorum_size ?n" using assms(2) q by (simp add: distinct_card)
  moreover have "2 * fault_bound ?n < quorum_size ?n"
    by (rule quorum_beats_faults)
  ultimately show ?thesis using assms(6) f by linarith
qed

subsection \<open>Certificates in an honest system\<close>

text \<open>The certificates a message carries, and those a replica can pass on.\<close>

definition carries :: "message \<Rightarrow> QuorumCert \<Rightarrow> bool" where
  "carries m qc \<longleftrightarrow>
     (case m of BlockMsg b \<Rightarrow> Justify b = Some qc | ViewMsg n \<Rightarrow> nv_GenericQc n = Some qc | Vote v \<Rightarrow> False)"

lemma carries_simps [simp]:
  "carries (BlockMsg b) qc \<longleftrightarrow> Justify b = Some qc" "carries (ViewMsg n) qc \<longleftrightarrow> nv_GenericQc n = Some qc"
  "\<not> carries (Vote v) qc"
  by (simp_all add: carries_def)

definition holds :: "('pk, 'app) DHotStuff \<Rightarrow> QuorumCert \<Rightarrow> bool" where
  "holds d qc \<longleftrightarrow> GenericQC (safety d) = Some qc \<or>
     (\<exists>view ms n. newViewBuf d view = Some ms \<and> n \<in> set ms \<and> nv_GenericQc n = Some qc) \<or>
     (\<exists>a \<in> set (outbox d). carries (payload a) qc)"

lemma holds_cong:
  "GenericQC (safety d') = GenericQC (safety d) \<Longrightarrow> newViewBuf d' = newViewBuf d \<Longrightarrow> outbox d' = outbox d \<Longrightarrow>
     holds d' qc \<longleftrightarrow> holds d qc"
  by (simp add: holds_def)

lemma GenericQC_HandlePropose:
  assumes "HandlePropose env b d = Inr d'"
  shows "GenericQC (safety d') = GenericQC (safety d) \<or> GenericQC (safety d') = Justify b"
    "newViewBuf d' = newViewBuf d"
proof -
  have "(GenericQC (safety d') = GenericQC (safety d) \<or> GenericQC (safety d') = Justify b) \<and>
      newViewBuf d' = newViewBuf d"
    using assms
  proof (cases rule: HandlePropose_cases)
    case (2 mc d1 d2 bDouble bPrime bb)
    have "safety d' = safety (chain_updates env b bDouble bPrime d1)" "safety d1 = safety d"
      using three_chain_frame [OF 2(7)] vote_part_frame [OF 2(4)] by (simp_all add: 2(8))
    moreover have "newViewBuf d' = newViewBuf d1" "newViewBuf d1 = newViewBuf d"
      using 2(4,7) by (auto simp: 2(8) three_chain_part_def vote_part_def Let_def
          split: option.splits if_splits sum.splits)
    ultimately show ?thesis
      by (auto simp: chain_updates_def UpdateOnOneChain_def UpdateOnTwoChain_def Let_def split: option.splits)
  qed simp
  then show "GenericQC (safety d') = GenericQC (safety d) \<or> GenericQC (safety d') = Justify b"
    "newViewBuf d' = newViewBuf d" by blast+
qed

lemma holds_HandlePropose:
  assumes "HandlePropose env b d = Inr d'" "holds d' qc"
  shows "holds d qc \<or> Justify b = Some qc"
proof -
  have "\<forall>a \<in> set (outbox d'). carries (payload a) qc \<longrightarrow> a \<in> set (outbox d)"
    using assms(1) by (cases rule: HandlePropose_sends) auto
  then show ?thesis
    using assms(2) GenericQC_HandlePropose [OF assms(1)] by (auto simp: holds_def)
qed

lemma holds_propose:
  assumes "propose env j d = Inr d'" "holds d' qc"
  shows "holds d qc \<or> j = Some qc"
proof -
  obtain mc blk where "outbox d' = outbox d @ [Broadcast mc (BlockMsg blk)]" "Justify blk = j"
    "safety d' = safety d" "newViewBuf d' = newViewBuf d"
    using assms(1) by (rule propose_eq) auto
  with assms(2) show ?thesis by (auto simp: holds_def)
qed

lemma GenericQC_raise: "GenericQC (raise_generic qc s) \<in> {GenericQC s, Some qc}"
  by (simp add: raise_generic_def)

lemma holds_HandleNewView:
  assumes "HandleNewView env m d = Inr d'" "holds d' qc"
  shows "holds d qc \<or> nv_GenericQc m = Some qc"
proof -
  let ?ms = "buffered (newViewBuf d) (nv_ViewNumber m) @ [m]"
  have buf: "holds d q \<or> nv_GenericQc m = Some q" if "n \<in> set ?ms" "nv_GenericQc n = Some q" for n q
    using that by (cases "newViewBuf d (nv_ViewNumber m)") (auto simp: buffered_def holds_def)
  from assms(1) show ?thesis
  proof (cases rule: HandleNewView_cases)
    case 1
    show ?thesis
    proof (cases "\<exists>n \<in> set ?ms. nv_GenericQc n = Some qc")
      case True
      then show ?thesis using buf by blast
    next
      case False
      with assms(2) show ?thesis unfolding 1 holds_def by (auto split: if_splits)
    qed
  next
    case (2 mc sf)
    let ?d = "d\<lparr>newViewBuf := (newViewBuf d)(nv_ViewNumber m := None), safety := sf\<rparr>"
    have gen: "holds d q \<or> nv_GenericQc m = Some q" if "GenericQC sf = Some q" for q
    proof (cases "highestViewQC ?ms")
      case None
      then show ?thesis using 2(3) that by (simp add: holds_def)
    next
      case (Some h)
      then have "h \<in> carried ?ms" using highestViewQC_eq [of ?ms] by blast
      then obtain n where "n \<in> set ?ms" "nv_GenericQc n = Some h"
        unfolding carried_def mem_Collect_eq image_iff by metis
      then have "holds d h \<or> nv_GenericQc m = Some h" by (rule buf)
      moreover have "GenericQC sf \<in> {GenericQC (safety d), Some h}"
        using 2(3) Some GenericQC_raise by simp
      ultimately show ?thesis using that by (auto simp: holds_def)
    qed
    have "holds ?d qc \<or> GenericQC sf = Some qc" using holds_propose [OF 2(4) assms(2)] .
    then have "holds d qc \<or> GenericQC sf = Some qc"
      unfolding holds_def by (auto split: if_splits)
    then show ?thesis using gen by blast
  qed
qed

lemma holds_local:
  "SubmitRequest r d = Some d' \<Longrightarrow> holds d' qc \<Longrightarrow> holds d qc"
  "timeout_begin d = Inr (w, d') \<Longrightarrow> holds d' qc \<Longrightarrow> holds d qc"
  "timeout_change env cx d = Inr d' \<Longrightarrow> holds d' qc \<Longrightarrow> holds d qc"
  "holds (timeout_end w d) qc \<Longrightarrow> holds d qc"
proof -
  show "SubmitRequest r d = Some d' \<Longrightarrow> holds d' qc \<Longrightarrow> holds d qc"
    using holds_cong [of d' d qc] by (auto simp: SubmitRequest_def split: option.splits)
  show "timeout_begin d = Inr (w, d') \<Longrightarrow> holds d' qc \<Longrightarrow> holds d qc"
    using holds_cong [of d' d qc] by (auto simp: timeout_begin_def split: option.splits sum.splits)
  show "holds (timeout_end w d) qc \<Longrightarrow> holds d qc"
    using holds_cong [of "timeout_end w d" d qc] by (simp add: timeout_end_def)
  assume t: "timeout_change env cx d = Inr d'" and h: "holds d' qc"
  have "safety d' = safety d" "newViewBuf d' = newViewBuf d"
    using t by (auto simp: timeout_change_def split: sum.splits)
  with timeout_change_sends [OF t] h show "holds d qc" by (auto simp: holds_def)
qed

text \<open>
  In a system whose network only carries messages of correct replicas, every certificate that is
  held or carried anywhere has a quorum of distinct correct signers, each of whom sent its vote.
\<close>

definition genuine :: "string set \<Rightarrow> ('pk, 'app) system \<Rightarrow> QuorumCert \<Rightarrow> bool" where
  "genuine P S qc \<longleftrightarrow> backed P {} S qc \<and> set (qc_SignerIds qc) \<subseteq> P \<and>
     (\<exists>k \<in> P. \<exists>mc \<in> set (configs (store (deliverer (node (S k))))).
        int (length (qc_SignerIds qc)) = QuorumSize mc)"

lemma net_step_configs:
  assumes "net_step E P A S S'"
  shows "set (configs (store (deliverer (node (S k))))) \<subseteq> set (configs (store (deliverer (node (S' k)))))"
  using assms
proof (rule net_step_local)
  fix i assume "step (E i) (S i) (S' i)" "\<And>j. j \<noteq> i \<Longrightarrow> S' j = S j"
  then show ?thesis
    using step_grows [of "E i" "S i" "S' i"] by (cases "k = i") (auto simp: grows_def dest: set_mono_prefix)
qed

lemma genuine_mono:
  assumes "net_step E P A S S'" "genuine P S qc"
  shows "genuine P S' qc"
proof -
  have "backed P {} S qc" using assms(2) by (simp add: genuine_def)
  then have "backed P {} S' qc" by (rule backed_mono) (rule net_step_sends [OF assms(1)])
  then show ?thesis using assms(2) net_step_configs [OF assms(1)] unfolding genuine_def by blast
qed

lemma backed_signers: "backed P {} S qc \<Longrightarrow> set (qc_SignerIds qc) \<subseteq> P"
proof
  fix x assume b: "backed P {} S qc" and "x \<in> set (qc_SignerIds qc)"
  then obtain y where "(x, y) \<in> set (zip (qc_SignerIds qc) (qc_Signatures qc))"
    unfolding backed_def by (metis in_set_impl_in_set_zip1)
  then show "x \<in> P" using b unfolding backed_def origin_def by fastforce
qed

lemma receive_genuine:
  assumes "initial P S0" "net_runs E P {} S0 S" "i \<in> P" "m \<in> sent P S"
    and "receive (E i) m (node (S i)) = Inr d" "holds d qc"
  shows "holds (node (S i)) qc \<or> carries m qc \<or> genuine P S qc"
proof (cases m)
  case (BlockMsg b)
  then show ?thesis using holds_HandlePropose [OF _ assms(6)] assms(5) by (auto simp: receive_def)
next
  case (ViewMsg n)
  then show ?thesis using holds_HandleNewView [OF _ assms(6)] assms(5) by (auto simp: receive_def)
next
  case (Vote v)
  with assms(5) have h: "HandleVote (E i) v (node (S i)) = Inr d" by (simp add: receive_def)
  have o: "origin P {} S v" using available_origin [OF assms(1,2)] assms(4) Vote by simp
  show ?thesis
  proof (cases "outbox d = outbox (node (S i))")
    case True
    have "holds (node (S i)) qc"
      using h
    proof (cases rule: HandleVote_cases)
      case (3 mc r pk qc')
      from 3(7) True show ?thesis by (elim propose_eq) simp
    qed (use assms(6) in \<open>simp_all add: holds_def\<close>)
    then show ?thesis ..
  next
    case False
    from HandleVote_backed [where E = E and i = i and S = S, OF h reachable_local(2) [OF assms(1-3)]
        reachable_votes_from [OF assms(2,1,3)] o False]
    obtain mc blk q where "outbox d = outbox (node (S i)) @ [Broadcast mc (BlockMsg blk)]"
      "Latest (store (deliverer (node (S i)))) = Inr mc" "Justify blk = Some q"
      "GenericQC (safety d) \<in> {GenericQC (safety (node (S i))), Some q}"
      "newViewBuf d = newViewBuf (node (S i))"
      "int (length (qc_SignerIds q)) = QuorumSize mc" "backed P {} S q" by blast
    moreover from this have "genuine P S q"
      using Latest_in assms(3) backed_signers unfolding genuine_def by blast
    ultimately show ?thesis using assms(6) by (auto simp: holds_def)
  qed
qed

lemma sent_holds: "m \<in> sent P S \<Longrightarrow> carries m qc \<Longrightarrow> \<exists>j \<in> P. holds (node (S j)) qc"
  by (auto simp: sent_def sends_def holds_def)

lemma reachable_genuine:
  assumes "net_runs E P {} S0 S" "initial P S0" "i \<in> P" "holds (node (S i)) qc"
  shows "genuine P S qc"
  using assms(1,3,4)
proof (induction arbitrary: i qc rule: rtranclp_induct)
  case base
  then show ?case using assms(2) by (auto simp: initial_def holds_def)
next
  case (step T U)
  have "(\<exists>j \<in> P. holds (node (T j)) qc) \<or> genuine P T qc"
    using step.hyps(2)
  proof cases
    case (net_receive k m d)
    show ?thesis
    proof (cases "i = k")
      case True
      then have "holds (node (T k)) qc \<or> carries m qc \<or> genuine P T qc"
        using receive_genuine [OF assms(2) step.hyps(1) net_receive(2) _ net_receive(4)]
          net_receive(1,3) step.prems(2) by simp
      then show ?thesis using net_receive(2,3) sent_holds by blast
    next
      case False
      with net_receive(1) step.prems show ?thesis by auto
    qed
  next
    case (net_submit k r d)
    then show ?thesis using step.prems by (cases "i = k") (auto dest: holds_local(1))
  next
    case (net_timeout_begin k v d)
    then show ?thesis using step.prems by (cases "i = k") (auto dest: holds_local(2))
  next
    case (net_timeout_change k xs v ys cx d)
    then show ?thesis using step.prems by (cases "i = k") (auto dest: holds_local(3))
  next
    case (net_timeout_end k xs v ys)
    then show ?thesis using step.prems by (cases "i = k") (auto dest: holds_local(4))
  qed
  then have "genuine P T qc" using step.IH by blast
  then show ?case by (rule genuine_mono [OF step.hyps(2)])
qed

end
