(* ===== verification/Rounds.thy ===== *)
theory Rounds
  imports System
begin

section \<open>A round of the protocol\<close>

text \<open>
  One round, across replicas: a quorum of members handles a proposal and votes, and the replica
  that collects the votes proposes the next block, certified by exactly those votes.
\<close>

primrec handle_votes :: "('pk, 'app) Env \<Rightarrow> VoteMsg list \<Rightarrow> ('pk, 'app) DHotStuff
    \<Rightarrow> panic + ('pk, 'app) DHotStuff" where
  "handle_votes env [] d = Inr d"
| "handle_votes env (v # vs) d =
     (case HandleVote env v d of Inl p \<Rightarrow> Inl p | Inr d' \<Rightarrow> handle_votes env vs d')"

lemma handle_votes_append:
  "handle_votes env (us @ vs) d =
     (case handle_votes env us d of Inl p \<Rightarrow> Inl p | Inr d' \<Rightarrow> handle_votes env vs d')"
  by (induction us arbitrary: d) (auto split: sum.splits)

subsection \<open>Collecting votes\<close>

definition acceptable :: "('pk, 'app) Env \<Rightarrow> 'pk Committee \<Rightarrow> u64 \<Rightarrow> VoteMsg \<Rightarrow> bool" where
  "acceptable env mc view v \<longleftrightarrow> vote_ViewNumber v = view \<and>
     (\<exists>r pk. ReplicaByID mc (vote_SignerId v) = Some r \<and> PubKey r = Some pk \<and>
        Verify (sha env) (ecdsaVerify env) pk view (vote_ConfNumber v) (vote_BlockHash v) (vote_Signature v))"

lemma Aggregate_new:
  "distinct (map vote_SignerId (us @ [v])) \<Longrightarrow> AggregateVotes us v = us @ [v]"
  by (auto simp: AggregateVotes_def signers_def)

lemma card_signers: "distinct (map vote_SignerId us) \<Longrightarrow> card (signers us) = length us"
  by (metis distinct_card length_map set_map signers_def)

lemma HandleVote_collect:
  assumes "Latest (store (deliverer d)) = Inr mc" "acceptable env mc view v"
    and "buffered (votesBuf d) view = us" "distinct (map vote_SignerId (us @ [v]))"
    and "int (length (us @ [v])) < QuorumSize mc"
  shows "HandleVote env v d = Inr (d\<lparr>votesBuf := (votesBuf d)(view \<mapsto> us @ [v])\<rparr>)"
proof -
  have "\<not> HasQuorum (us @ [v]) mc"
    using assms(4,5) by (simp add: HasQuorum_iff card_signers [of "us @ [v]"] del: signers_simps)
  then show ?thesis
    using assms(1-3) Aggregate_new [OF assms(4)] by (auto simp: HandleVote_def acceptable_def Let_def)
qed

lemma propose_defined:
  assumes "Latest (store (deliverer d)) = Inr mc" "Replicas mc \<noteq> []" "length (Replicas mc) < 2 ^ 64"
  shows "\<exists>d'. propose env j d = Inr d'"
proof -
  obtain r where r: "leader_deref (selectLeader mc d) = Inr r"
    using leader_defined [OF assms(2,3)] by blast
  then have "\<exists>d1. record_round mc d = Inr d1"
    by (cases "repStore d") (auto simp: record_round_def leader_deref_def split: sum.splits)
  then show ?thesis by (auto simp: propose_def assms(1) Let_def split: prod.splits)
qed

text \<open>The certificate made of a list of votes with distinct signers.\<close>

definition cert_of :: "VoteMsg list \<Rightarrow> QuorumCert" where
  "cert_of vs =
     \<lparr>qc_Type = '''', qc_ViewNumber = vote_ViewNumber (hd vs), qc_ConfNumber = vote_ConfNumber (hd vs),
      qc_BlockHash = vote_BlockHash (hd vs), qc_Signatures = map vote_Signature vs,
      qc_SignerIds = map vote_SignerId vs\<rparr>"

lemma HandleVote_last:
  assumes "Latest (store (deliverer d)) = Inr mc" "acceptable env mc view v"
    and "buffered (votesBuf d) view = us" "distinct (map vote_SignerId (us @ [v]))"
    and "int (length (us @ [v])) = QuorumSize mc" "Replicas mc \<noteq> []" "length (Replicas mc) < 2 ^ 64"
  shows "\<exists>d'. HandleVote env v d = Inr d' \<and>
    outbox d' = outbox d @ [Broadcast mc (BlockMsg
      (new_block (blockchain env) (Number mc) (take 100 (ch_buf (requestQ d))) (Some (cert_of (us @ [v])))))] \<and>
    curView d' = curView d + 1 \<and> votesBuf d' view = None \<and> deliverer d' = deliverer d \<and>
    ch_buf (requestQ d') = drop 100 (ch_buf (requestQ d))"
proof -
  let ?vs = "us @ [v]"
  have q: "0 < QuorumSize mc" using assms(5) by simp
  have hq: "HasQuorum ?vs mc"
    using assms(4,5) q by (simp add: HasQuorum_iff card_signers [of ?vs] del: signers_simps)
  then obtain qc0 where qc0: "CreateQC ?vs mc = Inr qc0" using CreateQC_total [OF q] by blast
  have first: "firsts ?vs = ?vs"
    by (rule first_by_id [OF assms(4)]) simp
  have "fst (QuorumOf ?vs mc) = ?vs"
    using assms(5) q by (auto simp: QuorumOf_eq Let_def first)
  then have "qc0 = cert_of ?vs"
    using qc0 q by (simp add: CreateQC_Inr cert_of_def)
  with qc0 have qc: "CreateQC ?vs mc = Inr (cert_of ?vs)" by simp
  let ?d = "d\<lparr>curView := curView d + 1, votesBuf := (votesBuf d)(view := None),
      safety := raise_generic (cert_of ?vs) (safety d)\<rparr>"
  obtain d' where p: "propose env (Some (cert_of ?vs)) ?d = Inr d'"
    using propose_defined [of ?d mc env "Some (cert_of ?vs)"] assms(1,6,7) by auto
  have "HandleVote env v d = Inr d'"
    using assms(1-3) Aggregate_new [OF assms(4)] hq qc p
    by (auto simp: HandleVote_def acceptable_def Let_def)
  moreover have "outbox d' = outbox d @ [Broadcast mc (BlockMsg
      (new_block (blockchain env) (Number mc) (take 100 (ch_buf (requestQ d))) (Some (cert_of ?vs))))]"
    "curView d' = curView d + 1" "votesBuf d' view = None" "deliverer d' = deliverer d"
    "ch_buf (requestQ d') = drop 100 (ch_buf (requestQ d))"
    using assms(1) by (auto intro: propose_eq [OF p])
  ultimately show ?thesis by blast
qed

lemma handle_votes_collect:
  assumes "Latest (store (deliverer d)) = Inr mc" "\<forall>v \<in> set vs. acceptable env mc view v"
    and "buffered (votesBuf d) view = []" "distinct (map vote_SignerId vs)"
    and "int (length vs) < QuorumSize mc" "vs \<noteq> []"
  shows "handle_votes env vs d = Inr (d\<lparr>votesBuf := (votesBuf d)(view \<mapsto> vs)\<rparr>)"
  using assms(2,4-)
proof (induction vs rule: rev_induct)
  case Nil
  from Nil.prems(4) have False by simp
  then show ?case by (rule FalseE)
next
  case (snoc v vs)
  show ?case
  proof (cases "vs = []")
    case True
    have "HandleVote env v d = Inr (d\<lparr>votesBuf := (votesBuf d)(view \<mapsto> [] @ [v])\<rparr>)"
      by (rule HandleVote_collect [OF assms(1) _ assms(3)]) (use snoc.prems True in simp_all)
    then show ?thesis by (simp only: True append_Nil handle_votes.simps sum.case)
  next
    case False
    let ?d = "d\<lparr>votesBuf := (votesBuf d)(view \<mapsto> vs)\<rparr>"
    have "handle_votes env vs d = Inr ?d" using snoc False by (simp add: fun_upd_def)
    moreover have "HandleVote env v ?d = Inr (?d\<lparr>votesBuf := (votesBuf ?d)(view \<mapsto> vs @ [v])\<rparr>)"
      using snoc.prems assms(1) by (intro HandleVote_collect [where mc = mc]) (simp_all add: buffered_def)
    moreover have "?d\<lparr>votesBuf := (votesBuf ?d)(view \<mapsto> vs @ [v])\<rparr> =
        d\<lparr>votesBuf := (votesBuf d)(view \<mapsto> vs @ [v])\<rparr>" by simp
    ultimately show ?thesis by (simp only: handle_votes_append handle_votes.simps sum.case)
  qed
qed

text \<open>
  A quorum of acceptable votes of one view makes the collector propose, whatever else its state
  holds; the certificate is made of exactly these votes.
\<close>

lemma quorum_proposes:
  assumes "Latest (store (deliverer d)) = Inr mc" "\<forall>v \<in> set vs. acceptable env mc view v"
    and "buffered (votesBuf d) view = []" "distinct (map vote_SignerId vs)"
    and "int (length vs) = QuorumSize mc" "Replicas mc \<noteq> []" "length (Replicas mc) < 2 ^ 64"
    and "0 < QuorumSize mc"
  shows "\<exists>d'. handle_votes env vs d = Inr d' \<and>
    outbox d' = outbox d @ [Broadcast mc (BlockMsg
      (new_block (blockchain env) (Number mc) (take 100 (ch_buf (requestQ d))) (Some (cert_of vs))))] \<and>
    curView d' = curView d + 1 \<and> votesBuf d' view = None \<and> deliverer d' = deliverer d \<and>
    ch_buf (requestQ d') = drop 100 (ch_buf (requestQ d))"
proof -
  have "vs \<noteq> []" using assms(5,8) by auto
  then obtain us v where vs: "vs = us @ [v]" by (metis rev_exhaust)
  define e where "e = (if us = [] then d else d\<lparr>votesBuf := (votesBuf d)(view \<mapsto> us)\<rparr>)"
  have e: "handle_votes env us d = Inr e"
    using handle_votes_collect [OF assms(1) _ assms(3), of us env] assms(2,4,5)
    by (auto simp: e_def vs)
  have same: "Latest (store (deliverer e)) = Inr mc" "buffered (votesBuf e) view = us"
    "outbox e = outbox d" "requestQ e = requestQ d" "curView e = curView d" "deliverer e = deliverer d"
    using assms(1,3) by (auto simp: e_def buffered_def)
  have v: "acceptable env mc view v" using assms(2) by (simp add: vs)
  from HandleVote_last [OF same(1) v same(2), folded vs, OF assms(4-7)]
  show ?thesis by (auto simp: vs handle_votes_append e same)
qed

subsection \<open>From a proposal to the next\<close>

text \<open>A member that votes for a block: the vote it casts is signed with its own key.\<close>

definition ballot :: "('pk, 'app) Env \<Rightarrow> 'pk Committee \<Rightarrow> Block \<Rightarrow> string \<Rightarrow> u64 \<Rightarrow> VoteMsg" where
  "ballot env mc b i view =
     \<lparr>vote_ViewNumber = view, vote_ConfNumber = Number mc, vote_BlockHash = hashBlock (sha env) b,
      vote_Signature = the (signFn env (ConfNumber b) (Number mc) (hashBlock (sha env) b)),
      vote_SignerId = i\<rparr>"

lemma HandlePropose_votes:
  assumes "Latest (store (deliverer d)) = Inr mc" "Replicas mc \<noteq> []" "length (Replicas mc) < 2 ^ 64"
    and "ConfNumber b \<le> Number mc" "SafeNode (safety d) b (Justify b) (blockchain env)"
    and "signFn env (ConfNumber b) (Number mc) (hashBlock (sha env) b) \<noteq> None"
  shows "\<exists>d' addr. HandlePropose env b d = Inr d' \<and>
    outbox d' = outbox d @ [SendTo addr (Vote (ballot env mc b (myID d) (curView d)))]"
proof -
  obtain d1 where d1: "vote_part env mc b d = Inr (Some d1)"
    using vote_part_defined [OF assms(2,3,6)] by blast
  have out: "\<exists>addr. outbox d1 = outbox d @ [SendTo addr (Vote (ballot env mc b (myID d) (curView d)))]"
    using d1 assms(5) by (auto simp: vote_part_def ballot_def Let_def split: option.splits sum.splits)
  define x y z where "x = certified env (Justify b)"
    "y = (case x of None \<Rightarrow> None | Some bd \<Rightarrow> certified env (Justify bd))"
    "z = (case y of None \<Rightarrow> None | Some bp \<Rightarrow> certified env (Justify bp))"
  obtain d2 where d2: "three_chain_part env mc b x y z (chain_updates env b x y d1) = Inr d2"
    using three_chain_defined [OF assms(2,3)] by blast
  have "HandlePropose env b d = Inr (pipeline_part env b d2)"
    using assms(1,4) d1 d2 by (simp add: HandlePropose_def Let_def x_y_z_def not_less)
  moreover have "outbox (pipeline_part env b d2) = outbox d1"
    using three_chain_frame [OF d2] by simp
  ultimately show ?thesis using out by auto
qed

text \<open>
  The round. The members \<open>V\<close> are a quorum, each has a key in the committee under which its own
  signatures verify, accepts the block by the safety rule and is in the view that the block's
  configuration number names (signatures are made over that number and checked over the view).
\<close>

definition voter :: "('pk, 'app) Env \<Rightarrow> ('pk, 'app) Env \<Rightarrow> 'pk Committee \<Rightarrow> Block \<Rightarrow> string
    \<Rightarrow> ('pk, 'app) DHotStuff \<Rightarrow> bool" where
  "voter lead env mc b i d \<longleftrightarrow> sha env = sha lead \<and> myID d = i \<and>
     Latest (store (deliverer d)) = Inr mc \<and> curView d = ConfNumber b \<and>
     SafeNode (safety d) b (Justify b) (blockchain env) \<and>
     (\<exists>r pk sig. ReplicaByID mc i = Some r \<and> PubKey r = Some pk \<and>
        signFn env (ConfNumber b) (Number mc) (hashBlock (sha lead) b) = Some sig \<and>
        Verify (sha lead) (ecdsaVerify lead) pk (ConfNumber b) (Number mc) (hashBlock (sha lead) b) sig)"

lemma voter_acceptable:
  "voter lead env mc b i d \<Longrightarrow> acceptable lead mc (ConfNumber b) (ballot env mc b i (ConfNumber b))"
  by (auto simp: voter_def acceptable_def ballot_def)

lemma round_advances:
  assumes "wf_committee mc" "Replicas mc \<noteq> []" "length (Replicas mc) < 2 ^ 64" "ConfNumber b \<le> Number mc"
    and "distinct V" "int (length V) = QuorumSize mc"
    and "\<forall>i \<in> set V. voter lead (E i) mc b i (D i)"
    and "Latest (store (deliverer d)) = Inr mc" "buffered (votesBuf d) (ConfNumber b) = []"
  shows "\<exists>vs d' qc.
    (\<forall>i \<in> set V. \<exists>di addr. HandlePropose (E i) b (D i) = Inr di \<and>
       outbox di = outbox (D i) @ [SendTo addr (Vote (vs i))]) \<and>
    handle_votes lead (map vs V) d = Inr d' \<and>
    outbox d' = outbox d @ [Broadcast mc (BlockMsg
      (new_block (blockchain lead) (Number mc) (take 100 (ch_buf (requestQ d))) (Some qc)))] \<and>
    qc_SignerIds qc = V \<and> qc_BlockHash qc = hashBlock (sha lead) b \<and> curView d' = curView d + 1"
proof -
  let ?vs = "\<lambda>i. ballot (E i) mc b i (ConfNumber b)"
  have q: "0 < QuorumSize mc" by (simp add: QuorumSize_wf [OF assms(1)])
  then have ne: "V \<noteq> []" using assms(6) by auto
  have ids: "map vote_SignerId (map ?vs V) = V" by (simp add: comp_def ballot_def)
  have cast: "\<exists>di addr. HandlePropose (E i) b (D i) = Inr di \<and>
      outbox di = outbox (D i) @ [SendTo addr (Vote (?vs i))]" if i: "i \<in> set V" for i
  proof -
    have v: "voter lead (E i) mc b i (D i)" using assms(7) i by blast
    then show ?thesis
      using HandlePropose_votes [OF _ assms(2-4), of "D i" "E i"] by (auto simp: voter_def)
  qed
  have "hd (map ?vs V) = ?vs (hd V)" "voter lead (E (hd V)) mc b (hd V) (D (hd V))"
    using ne assms(7) by (simp_all add: hd_map)
  then have hash: "vote_BlockHash (hd (map ?vs V)) = hashBlock (sha lead) b"
    by (simp add: ballot_def voter_def)
  have "\<forall>v \<in> set (map ?vs V). acceptable lead mc (ConfNumber b) v"
    using assms(7) voter_acceptable by fastforce
  from quorum_proposes [OF assms(8) this assms(9) _ _ assms(2,3) q] assms(5,6)
  obtain d' where "handle_votes lead (map ?vs V) d = Inr d'"
    "outbox d' = outbox d @ [Broadcast mc (BlockMsg
      (new_block (blockchain lead) (Number mc) (take 100 (ch_buf (requestQ d))) (Some (cert_of (map ?vs V)))))]"
    "curView d' = curView d + 1"
    unfolding ids by auto
  moreover have "qc_SignerIds (cert_of (map ?vs V)) = V"
    "qc_BlockHash (cert_of (map ?vs V)) = hashBlock (sha lead) b"
    unfolding cert_of_def QuorumCert.simps ids hash by (rule refl)+
  ultimately show ?thesis using cast
    by (intro exI [of _ ?vs] exI [of _ d'] exI [of _ "cert_of (map ?vs V)"]) blast
qed

end
