(* ===== verification/Solo.thy ===== *)
theory Solo
  imports Samples Rounds
begin

section \<open>A committee of one\<close>

text \<open>
  A run of the smallest system: one replica that times out, gathers its own view change,
  proposes, votes for its proposal and certifies it.
\<close>

definition solo :: "string Committee" where
  "solo = NewCommittee 0 [member ''A'']"

definition solo_env :: "(string, nat) Env" where
  "solo_env = sample_env newMemBlockchain"

definition solo_node :: "(string, nat) DHotStuff" where
  "solo_node = NewDHotStuff ''A'' (NewConfigStore solo (\<lambda>_. make_chan 1)) 0 8 None"

definition last_message :: "(string, nat) DHotStuff \<Rightarrow> message" where
  "last_message d = payload (last (outbox d))"

definition next_state :: "panic + (string, nat) DHotStuff \<Rightarrow> (string, nat) DHotStuff" where
  "next_state r = (case r of Inl p \<Rightarrow> solo_node | Inr d \<Rightarrow> d)"

definition begun_state :: "(string, nat) DHotStuff" where
  "begun_state = (case timeout_begin solo_node of Inl p \<Rightarrow> solo_node | Inr (v, d) \<Rightarrow> d)"

definition changed_state :: "(string, nat) DHotStuff" where
  "changed_state = next_state (timeout_change solo_env False begun_state)"

definition proposed_state :: "(string, nat) DHotStuff" where
  "proposed_state = next_state (receive solo_env (last_message changed_state) changed_state)"

definition voted_state :: "(string, nat) DHotStuff" where
  "voted_state = next_state (receive solo_env (last_message proposed_state) proposed_state)"

definition certified_state :: "(string, nat) DHotStuff" where
  "certified_state = next_state (receive solo_env (last_message voted_state) voted_state)"

lemma solo_runs_on:
  "\<not> isl (timeout_begin solo_node)" "\<not> isl (timeout_change solo_env False begun_state)"
  "\<not> isl (receive solo_env (last_message changed_state) changed_state)"
  "\<not> isl (receive solo_env (last_message proposed_state) proposed_state)"
  "\<not> isl (receive solo_env (last_message voted_state) voted_state)"
  by code_simp+

lemma solo_outboxes:
  "length (outbox changed_state) = 1" "length (outbox proposed_state) = 2"
  "length (outbox voted_state) = 3" "length (outbox certified_state) = 4"
  by code_simp+

lemma solo_messages:
  "case last_message voted_state of Vote v \<Rightarrow> True | _ \<Rightarrow> False"
  "case last_message certified_state of BlockMsg b \<Rightarrow> Justify b \<noteq> None | _ \<Rightarrow> False"
  by code_simp+

lemma solo_faults: "wf_committee solo" "FaultCap solo = 0" "ids solo = [''A'']" "QuorumSize solo = 1"
  by code_simp+

lemma solo_latest: "Latest (store (deliverer voted_state)) = Inr solo"
  "configs (store (deliverer voted_state)) = [solo]"
  by code_simp+

abbreviation solo_start :: "(string, nat) system" where
  "solo_start \<equiv> (\<lambda>_. start solo_node)"

lemma solo_initial: "initial {''A''} solo_start"
proof -
  have "Number solo = 0" by (simp add: solo_def)
  with solo_faults(1) show ?thesis by (simp add: initial_def solo_node_def) blast
qed

text \<open>The replica receives the message it sent last.\<close>

lemma solo_receive:
  assumes "\<not> isl (receive solo_env (last_message d) d)" "outbox d \<noteq> []"
    and "net_runs (\<lambda>_. solo_env) {''A''} {} solo_start S" "node (S ''A'') = d"
  shows "\<exists>S'. net_runs (\<lambda>_. solo_env) {''A''} {} solo_start S' \<and>
    node (S' ''A'') = next_state (receive solo_env (last_message d) d)"
proof -
  from assms(1) obtain d' where d': "receive solo_env (last_message d) d = Inr d'"
    by (cases "receive solo_env (last_message d) d") simp_all
  have "last_message d \<in> {} \<union> sent {''A''} S"
    using assms(2,4) by (auto simp: sent_def sends_def last_message_def)
  then have "net_step (\<lambda>_. solo_env) {''A''} {} S (S(''A'' := (S ''A'')\<lparr>node := d'\<rparr>))"
    using d' assms(4) by (intro net_receive) auto
  then show ?thesis
    using assms(3) d' by (intro exI [of _ "S(''A'' := (S ''A'')\<lparr>node := d'\<rparr>)"])
      (auto simp: next_state_def intro: rtranclp.rtrancl_into_rtrancl)
qed

lemma solo_changes: "\<exists>S. net_runs (\<lambda>_. solo_env) {''A''} {} solo_start S \<and> node (S ''A'') = changed_state"
proof -
  obtain v where v: "timeout_begin solo_node = Inr (v, begun_state)"
    using solo_runs_on(1) by (cases "timeout_begin solo_node") (auto simp: begun_state_def)
  have c: "timeout_change solo_env False begun_state = Inr changed_state"
    using solo_runs_on(2)
    by (cases "timeout_change solo_env False begun_state") (auto simp: changed_state_def next_state_def)
  define S where "S = solo_start(''A'' := (solo_start ''A'')\<lparr>node := begun_state, begun := [v]\<rparr>)"
  have 1: "net_step (\<lambda>_. solo_env) {''A''} {} solo_start S"
    using net_timeout_begin [of "''A''" "{''A''}" solo_start v begun_state] v by (simp add: S_def)
  have "begun (S ''A'') = [] @ v # []" "node (S ''A'') = begun_state" by (simp_all add: S_def)
  from net_timeout_change [of "''A''" "{''A''}" S, OF _ this(1), of "\<lambda>_. solo_env" False changed_state "{}"] c this(2)
  have "\<exists>S'. net_step (\<lambda>_. solo_env) {''A''} {} S S' \<and> node (S' ''A'') = changed_state"
    by (intro exI conjI) (assumption | simp)+
  with 1 show ?thesis by (meson converse_rtranclp_into_rtranclp r_into_rtranclp)
qed

lemma solo_votes: "\<exists>S. net_runs (\<lambda>_. solo_env) {''A''} {} solo_start S \<and> node (S ''A'') = voted_state"
proof -
  obtain S where "net_runs (\<lambda>_. solo_env) {''A''} {} solo_start S" "node (S ''A'') = changed_state"
    using solo_changes by blast
  then obtain S1 where "net_runs (\<lambda>_. solo_env) {''A''} {} solo_start S1" "node (S1 ''A'') = proposed_state"
    using solo_receive [OF solo_runs_on(3)] solo_outboxes(1) unfolding proposed_state_def by force
  then show ?thesis
    using solo_receive [OF solo_runs_on(4)] solo_outboxes(2) unfolding voted_state_def by force
qed

lemma solo_certifies: "\<exists>S. net_runs (\<lambda>_. solo_env) {''A''} {} solo_start S \<and> node (S ''A'') = certified_state"
proof -
  obtain S where "net_runs (\<lambda>_. solo_env) {''A''} {} solo_start S" "node (S ''A'') = voted_state"
    using solo_votes by blast
  then show ?thesis
    using solo_receive [OF solo_runs_on(5)] solo_outboxes(3) unfolding certified_state_def by force
qed

end
