(* ===== verification/Links.thy ===== *)
theory Links
  imports Samples ChainRun
begin

section \<open>Sample chains\<close>

text \<open>
  Two chains of blocks over the sample hash. The main chain executes a request and adds a fifth
  member in its first block, and its fifth block belongs to the new configuration. The fork has
  another root and another request. No certificate in them carries a signature.
\<close>

primrec link_hash :: "bytes \<Rightarrow> nat \<Rightarrow> bytes" where
  "link_hash r 0 = r @ be8 0"
| "link_hash r (Suc k) = link_hash r k @ be8 (of_nat (Suc k))"

primrec link :: "bytes \<Rightarrow> MembershipRequest list \<Rightarrow> u64 \<Rightarrow> nat \<Rightarrow> Block" where
  "link r batch c 0 = \<lparr>ParentHash = r, Batch = batch, Justify = None, Height = 0, ConfNumber = c\<rparr>"
| "link r batch c (Suc k) = \<lparr>ParentHash = link_hash r k, Batch = batch,
     Justify = Some (sample_qc [] (link_hash r k)), Height = of_nat (Suc k), ConfNumber = c\<rparr>"

lemma hash_link: "hashBlock idsha (link r batch c k) = link_hash r k"
  by (cases k) (simp_all add: hashBlock_def idsha_def)

lemma length_link_hash: "length (link_hash r k) = length r + 8 * Suc k"
  by (induction k) simp_all

definition chain_of :: "bytes \<Rightarrow> (nat \<Rightarrow> MembershipRequest list) \<Rightarrow> (nat \<Rightarrow> u64) \<Rightarrow> nat \<Rightarrow> Block list" where
  "chain_of r bt cf n = map (\<lambda>k. link r (bt k) (cf k) k) [0..<n]"

lemma in_chain: "b \<in> set (chain_of r bt cf n) \<Longrightarrow>
    \<exists>k. b = link r (bt k) (cf k) k \<and> hashBlock idsha b = link_hash r k"
  by (auto simp: chain_of_def hash_link)

lemma proposal_chain_links:
  assumes "\<And>k. Suc k < n \<Longrightarrow> bc_Get (blockchain env) (link_hash r k) = Some (link r (bt k) (cf k) k)"
    and "sha env = idsha"
  shows "proposal_chain env (chain_of r bt cf n)"
  using assms by (auto simp: proposal_chain_def chain_of_def certified_def hash_link)

text \<open>A store that was given blocks of different hashes has them all.\<close>

lemma Get_puts:
  assumes "b \<in> set bs" "inj_on (hashBlock H) (set bs)"
  shows "Get (foldl (put H) m bs) (hashBlock H b) = Some b"
  using assms
proof (induction bs rule: rev_induct)
  case (snoc c bs)
  show ?case
  proof (cases "hashBlock H b = hashBlock H c")
    case True
    with snoc.prems have "b = c" by (auto simp: inj_on_def)
    then show ?thesis by (simp add: Get_put)
  next
    case False
    with snoc show ?thesis by (auto simp: Get_put)
  qed
qed simp

subsection \<open>The two chains\<close>

definition tx :: MembershipRequest where "tx = request RequestType_REGULAR ''x'' []"
definition tx' :: MembershipRequest where "tx' = request RequestType_REGULAR ''y'' []"
definition join :: MembershipRequest where "join = request RequestType_ADD ''E'' [69]"

definition links :: "Block list" where
  "links = chain_of [] (\<lambda>k. if k = 0 then [tx, join] else []) (\<lambda>k. if k = 4 then 1 else 0) 5"

definition forks :: "Block list" where
  "forks = chain_of [1] (\<lambda>k. if k = 0 then [tx'] else []) (\<lambda>k. 0) 4"

definition link_env :: "(string, nat) Env" where
  "link_env = sample_env (foldl (put idsha) newMemBlockchain (links @ forks))"

lemma link_env_simps [simp]:
  "sha link_env = idsha" "signFn link_env = sample_sign" "parsePKIX link_env = name_parse"
  "execute link_env = (\<lambda>n r. (Suc n, []))"
  by (simp_all add: link_env_def)

lemma links_inj: "inj_on (hashBlock idsha) (set (links @ forks))"
proof -
  have d: "link_hash r j = link_hash r k \<Longrightarrow> j = k" for r j k
    by (drule arg_cong [where f = length]) (simp add: length_link_hash)
  have e: "link_hash [] j \<noteq> link_hash [1] k" for j k
  proof
    assume "link_hash [] j = link_hash [1] k"
    then have "8 * Suc j = 1 + 8 * Suc k" by (metis length_link_hash list.size(3,4) add_0 One_nat_def)
    then show False by presburger
  qed
  show ?thesis
  proof (rule inj_onI)
    fix b c assume "b \<in> set (links @ forks)" "c \<in> set (links @ forks)" and h: "hashBlock idsha b = hashBlock idsha c"
    then consider "b \<in> set links" "c \<in> set links" | "b \<in> set forks" "c \<in> set forks"
      | "b \<in> set links" "c \<in> set forks" | "b \<in> set forks" "c \<in> set links" by auto
    then show "b = c"
    proof cases
      case 1
      from 1(1) [unfolded links_def, THEN in_chain] 1(2) [unfolded links_def, THEN in_chain] h d
      show ?thesis by (elim exE conjE) metis
    next
      case 2
      from 2(1) [unfolded forks_def, THEN in_chain] 2(2) [unfolded forks_def, THEN in_chain] h d
      show ?thesis by (elim exE conjE) metis
    next
      case 3
      from 3(1) [unfolded links_def, THEN in_chain] 3(2) [unfolded forks_def, THEN in_chain] h e
      show ?thesis by (elim exE conjE) metis
    next
      case 4
      from 4(1) [unfolded forks_def, THEN in_chain] 4(2) [unfolded links_def, THEN in_chain] h e
      show ?thesis by (elim exE conjE) metis
    qed
  qed
qed

lemma link_get:
  assumes "b \<in> set (links @ forks)"
  shows "bc_Get (blockchain link_env) (hashBlock idsha b) = Some b"
  using Get_puts [OF assms links_inj] by (simp add: link_env_def bench_reader_def)

lemma links_chain: "proposal_chain link_env links" "proposal_chain link_env forks"
proof -
  have l: "link [] (if k = 0 then [tx, join] else []) (if k = 4 then 1 else 0) k \<in> set (links @ forks)"
    if "Suc k < 5" for k
    using that unfolding links_def chain_of_def set_append set_map by (intro UnI1 image_eqI [OF refl]) simp
  have f: "link [1] (if k = 0 then [tx'] else []) 0 k \<in> set (links @ forks)" if "Suc k < 4" for k
    using that unfolding forks_def chain_of_def set_append set_map by (intro UnI2 image_eqI [OF refl]) simp
  show "proposal_chain link_env links"
    unfolding links_def using link_get [OF l] by (intro proposal_chain_links) (simp_all add: hash_link)
  show "proposal_chain link_env forks"
    unfolding forks_def using link_get [OF f] by (intro proposal_chain_links) (simp_all add: hash_link)
qed

text \<open>The deliverer does not use the block store.\<close>

abbreviation plain_delivery :: "Block list \<Rightarrow> (string, nat) Deliverer \<Rightarrow> (string, nat) Deliverer \<times> deliver_error option list" where
  "plain_delivery \<equiv> deliver_all idsha name_parse (\<lambda>n r. (Suc n, []))"

lemma link_env_delivery: "delivery link_env bs d = plain_delivery bs d"
  by (simp add: link_env_def)

lemma link_delivery:
  "snd (plain_delivery (take 2 links) (deliverer sample_node)) = [None, None]"
  "map (\<lambda>c. length (Replicas c)) (configs (store (fst (plain_delivery (take 2 links) (deliverer sample_node))))) = [4, 5]"
  "length (configs (store (fst (plain_delivery (take 1 links) (deliverer sample_node))))) = 2"
  "executed (fst (plain_delivery (take 2 links) (deliverer sample_node))) = [tx]"
  by code_simp+

lemma fork_delivery:
  "snd (plain_delivery (take 1 forks) (deliverer sample_node)) = [None]"
  "map (\<lambda>c. length (Replicas c)) (configs (store (fst (plain_delivery (take 1 forks) (deliverer sample_node))))) = [4]"
  "executed (fst (plain_delivery (take 1 forks) (deliverer sample_node))) = [tx']"
  by code_simp+

lemma usable_sizes:
  assumes "map (\<lambda>c. length (Replicas c)) (configs s) = ns" "set ns \<subseteq> {0<..<2 ^ 64}" "length ns < 2 ^ 64"
  shows "usable s"
proof -
  have "length (Replicas c) \<in> set ns" if "c \<in> set (configs s)" for c using assms(1) that by auto
  then show ?thesis using assms unfolding usable_def by fastforce
qed

lemma link_numbers: "map ConfNumber links = [0, 0, 0, 0, 1]" "map ConfNumber forks = [0, 0, 0, 0]"
  by code_simp+

lemma links_ready: "chain_ready link_env (deliverer sample_node) links"
proof -
  have len: "length links = 5" by (simp add: links_def chain_of_def)
  have us: "usable (store (fst (plain_delivery (take 2 links) (deliverer sample_node))))"
    using link_delivery(2) by (rule usable_sizes) simp_all
  have "unat (ConfNumber (links ! i)) < length (configs (store (fst (plain_delivery (take (i - 3) links) (deliverer sample_node)))))"
    if i: "i < 5" for i
  proof -
    have n: "ConfNumber (links ! i) = [0, 0, 0, 0, 1] ! i" using i len by (metis link_numbers(1) nth_map)
    show ?thesis
    proof (cases "i = 4")
      case True
      then show ?thesis using link_delivery(3) n by simp
    next
      case False
      then have "i = 0 \<or> i = 1 \<or> i = 2 \<or> i = 3" using i by linarith
      then have "i - 3 = 0" "ConfNumber (links ! i) = 0" using n by auto
      then show ?thesis by simp
    qed
  qed
  then show ?thesis
    using links_chain(1) link_delivery(1) us by (simp add: chain_ready_def len sample_sign_def link_env_delivery)
qed

lemma forks_ready: "chain_ready link_env (deliverer sample_node) forks"
proof -
  have len: "length forks = 4" by (simp add: forks_def chain_of_def)
  have us: "usable (store (fst (plain_delivery (take 1 forks) (deliverer sample_node))))"
    using fork_delivery(2) by (rule usable_sizes) simp_all
  have "ConfNumber (forks ! i) = 0 \<and> i - 3 = 0" if i: "i < 4" for i
  proof -
    have "ConfNumber (forks ! i) = [0, 0, 0, 0] ! i" using i len by (metis link_numbers(2) nth_map)
    moreover have "i = 0 \<or> i = 1 \<or> i = 2 \<or> i = 3" using i by linarith
    ultimately show ?thesis by auto
  qed
  then show ?thesis
    using links_chain(2) fork_delivery(1) us by (simp add: chain_ready_def len sample_sign_def link_env_delivery)
qed

end
