(* ===== verification/Steady.thy ===== *)
theory Steady
  imports Rounds ChainRun
begin

section \<open>Rounds in a row\<close>

text \<open>
  Round after round in one configuration: the voters \<open>V\<close>, a quorum without the collector, handle the
  proposal, the collector handles their votes and broadcasts the next proposal, which starts the
  next round. The requests queued at the collector are executed by all voters, a batch of 100 per
  round, three rounds after the round that proposed them.
\<close>

subsection \<open>The run\<close>

text \<open>The vote a replica sends when it handles a proposal.\<close>

definition cast_vote :: "('pk, 'app) Env \<Rightarrow> Block \<Rightarrow> ('pk, 'app) DHotStuff
    \<Rightarrow> (('pk, 'app) DHotStuff \<times> VoteMsg) option" where
  "cast_vote env b d =
     (case HandlePropose env b d of
        Inl p \<Rightarrow> None
      | Inr d' \<Rightarrow>
          (case drop (length (outbox d)) (outbox d') of
             [SendTo addr (Vote v)] \<Rightarrow> Some (d', v)
           | _ \<Rightarrow> None))"

definition one_round :: "('pk, 'app) Env \<Rightarrow> (string \<Rightarrow> ('pk, 'app) Env) \<Rightarrow> string list
    \<Rightarrow> Block \<times> ('pk, 'app) DHotStuff \<times> (string \<Rightarrow> ('pk, 'app) DHotStuff)
    \<Rightarrow> (Block \<times> ('pk, 'app) DHotStuff \<times> (string \<Rightarrow> ('pk, 'app) DHotStuff)) option" where
  "one_round lead E V s =
     (case s of (b, d, D) \<Rightarrow>
        if list_all (\<lambda>i. cast_vote (E i) b (D i) \<noteq> None) V then
          (case handle_votes lead (map (\<lambda>i. snd (the (cast_vote (E i) b (D i)))) V) d of
             Inl p \<Rightarrow> None
           | Inr d' \<Rightarrow>
               (case drop (length (outbox d)) (outbox d') of
                  [Broadcast mc (BlockMsg b')] \<Rightarrow>
                    Some (b', d', \<lambda>i. if i \<in> set V then fst (the (cast_vote (E i) b (D i))) else D i)
                | _ \<Rightarrow> None))
        else None)"

primrec run_rounds :: "('pk, 'app) Env \<Rightarrow> (string \<Rightarrow> ('pk, 'app) Env) \<Rightarrow> string list \<Rightarrow> nat
    \<Rightarrow> Block \<times> ('pk, 'app) DHotStuff \<times> (string \<Rightarrow> ('pk, 'app) DHotStuff)
    \<Rightarrow> (Block \<times> ('pk, 'app) DHotStuff \<times> (string \<Rightarrow> ('pk, 'app) DHotStuff)) option" where
  "run_rounds lead E V 0 s = Some s"
| "run_rounds lead E V (Suc n) s =
     (case run_rounds lead E V n s of None \<Rightarrow> None | Some s' \<Rightarrow> one_round lead E V s')"

text \<open>The blocks such a run proposes, from the first one and the queue of the collector.\<close>

definition next_block :: "('pk, 'app) Env \<Rightarrow> (string \<Rightarrow> ('pk, 'app) Env) \<Rightarrow> 'pk Committee \<Rightarrow> string list
    \<Rightarrow> Block \<Rightarrow> MembershipRequest list \<Rightarrow> Block" where
  "next_block lead E mc V b reqs =
     new_block (blockchain lead) (Number mc) (take 100 reqs)
       (Some (cert_of (map (\<lambda>i. ballot (E i) mc b i (Number mc)) V)))"

primrec blocks_of :: "('pk, 'app) Env \<Rightarrow> (string \<Rightarrow> ('pk, 'app) Env) \<Rightarrow> 'pk Committee \<Rightarrow> string list
    \<Rightarrow> Block \<Rightarrow> MembershipRequest list \<Rightarrow> nat \<Rightarrow> Block" where
  "blocks_of lead E mc V b q 0 = b"
| "blocks_of lead E mc V b q (Suc n) =
     next_block lead E mc V (blocks_of lead E mc V b q n) (drop (100 * n) q)"

subsection \<open>Deliveries without reconfigurations\<close>

lemma Deliver_regular:
  assumes "\<forall>r \<in> set (Batch b). is_regular r" "unat (ConfNumber b) < length (configs (store d))"
    and "length (configs (store d)) < 2 ^ 64"
  shows "store (fst (Deliver h p x b d)) = store d \<and> snd (Deliver h p x b d) = None"
proof -
  obtain d' err where e: "Deliver h p x b d = (d', err)" by (cases "Deliver h p x b d")
  have "\<not> HasMembershipRequests (Batch b)" using assms(1) by (simp add: HasMembershipRequests_iff)
  moreover have "AtNumber (store d) (ConfNumber b) = Inr (configs (store d) ! unat (ConfNumber b))"
    using assms(2,3) by (simp add: AtNumber_Inr)
  ultimately show ?thesis
    using Deliver_delivers [of h p x b d] unfolding e by (auto elim: delivers.cases)
qed

lemma deliver_all_regular:
  assumes "\<forall>b \<in> set bs. (\<forall>r \<in> set (Batch b). is_regular r) \<and> unat (ConfNumber b) < length (configs (store d))"
    and "length (configs (store d)) < 2 ^ 64"
  shows "store (fst (deliver_all h p x bs d)) = store d \<and> set (snd (deliver_all h p x bs d)) \<subseteq> {None}"
  using assms
proof (induction bs arbitrary: d)
  case (Cons b bs)
  have "store (fst (Deliver h p x b d)) = store d \<and> snd (Deliver h p x b d) = None"
    using Cons.prems by (intro Deliver_regular) simp_all
  with Cons.IH [of "fst (Deliver h p x b d)"] Cons.prems show ?case by (simp add: split_def)
qed simp

subsection \<open>One voter, one proposal\<close>

text \<open>A replica that stays in the view its configuration number names and whose votes verify.\<close>

definition steady :: "('pk, 'app) Env \<Rightarrow> 'pk Committee \<Rightarrow> ('pk, 'app) Env \<Rightarrow> string \<Rightarrow> ('pk, 'app) DHotStuff \<Rightarrow> bool" where
  "steady lead mc env i d \<longleftrightarrow> myID d = i \<and> curView d = Number mc \<and> Latest (store (deliverer d)) = Inr mc \<and>
     sha env = sha lead \<and> blockchain env = blockchain lead \<and> (\<forall>c n h. signFn env c n h \<noteq> None) \<and>
     (\<exists>r pk. ReplicaByID mc i = Some r \<and> PubKey r = Some pk \<and>
        (\<forall>h sig. signFn env (Number mc) (Number mc) h = Some sig \<longrightarrow>
           Verify (sha lead) (ecdsaVerify lead) pk (Number mc) (Number mc) h sig))"

lemma steady_ballot:
  assumes "steady lead mc env i d" "ConfNumber b = Number mc"
  shows "acceptable lead mc (Number mc) (ballot env mc b i (Number mc))"
  using assms by (auto simp: steady_def acceptable_def ballot_def)

text \<open>A vote moves the lock to the certificate of the block's parent, when the chain goes back that far.\<close>

lemma cast_vote_lock:
  assumes "cast_vote env b d = Some (d', v)"
  shows "LockedQC (safety d') = LockedQC (safety d) \<or>
      (\<exists>bd bp. certified env (Justify b) = Some bd \<and> certified env (Justify bd) = Some bp \<and>
         LockedQC (safety d') = Justify bd)"
    "certified env (Justify b) = Some bd \<Longrightarrow> certified env (Justify bd) = Some bp \<Longrightarrow>
       ParentHash b = hashBlock (sha env) bd \<Longrightarrow> ParentHash bd = hashBlock (sha env) bp \<Longrightarrow>
       LockedQC (safety d') = Justify bd"
proof -
  have h: "HandlePropose env b d = Inr d'" and out: "outbox d' \<noteq> outbox d"
    using assms by (auto simp: cast_vote_def split: sum.splits list.splits action.splits message.splits)
  from h obtain mc d1 x y z d2 where *: "x = certified env (Justify b)" "vote_part env mc b d = Inr (Some d1)"
    "y = (case x of None \<Rightarrow> None | Some bd \<Rightarrow> certified env (Justify bd))"
    "three_chain_part env mc b x y z (chain_updates env b x y d1) = Inr d2" "d' = pipeline_part env b d2"
    by (cases rule: HandlePropose_cases) (use out in auto)
  have eq: "safety d' = safety (chain_updates env b x y d1)" using three_chain_frame [OF *(4)] by (simp add: *(5))
  have "safety d1 = safety d" using vote_part_frame [OF *(2)] by simp
  with eq *(1,3) show "LockedQC (safety d') = LockedQC (safety d) \<or>
      (\<exists>bd bp. certified env (Justify b) = Some bd \<and> certified env (Justify bd) = Some bp \<and>
         LockedQC (safety d') = Justify bd)"
    by (auto simp: chain_updates_def Let_def UpdateOnTwoChain_def UpdateOnOneChain_def split: option.splits)
  show "LockedQC (safety d') = Justify bd"
    if "certified env (Justify b) = Some bd" "certified env (Justify bd) = Some bp"
      "ParentHash b = hashBlock (sha env) bd" "ParentHash bd = hashBlock (sha env) bp"
    using eq *(1,3) that by (simp add: chain_updates_def Let_def UpdateOnTwoChain_def)
qed

lemma voter_step:
  assumes st: "steady lead mc env i d" and ne: "Replicas mc \<noteq> []" "length (Replicas mc) < 2 ^ 64"
    and b: "ConfNumber b = Number mc" and safe: "SafeNode (safety d) b (Justify b) (blockchain lead)"
    and ready: "chain_ready env dl (as @ [b])"
    and d: "deliverer d = fst (delivery env (take (length as - 3) as) dl)"
    and w: "window_ok as (pipeline d)"
    and same: "store (fst (delivery env (take (length as - 2) as) dl)) = store (deliverer d)"
  shows "\<exists>d'. cast_vote env b d = Some (d', ballot env mc b i (Number mc)) \<and> HandlePropose env b d = Inr d' \<and>
    steady lead mc env i d' \<and> deliverer d' = fst (delivery env (take (length as - 2) as) dl) \<and>
    window_ok (as @ [b]) (pipeline d')"
proof -
  have s: "Latest (store (deliverer d)) = Inr mc" "myID d = i" "curView d = Number mc" "blockchain env = blockchain lead"
    "signFn env (ConfNumber b) (Number mc) (hashBlock (sha env) b) \<noteq> None"
    using st by (simp_all add: steady_def)
  obtain d' where h: "HandlePropose env b d = Inr d'"
    and del: "deliverer d' = fst (delivery env (take (length as - 2) as) dl)"
    and win: "window_ok (as @ [b]) (pipeline d')"
    using HandlePropose_chain [OF ready d w] by blast
  have le: "ConfNumber b \<le> Number mc" by (simp add: b)
  have safe': "SafeNode (safety d) b (Justify b) (blockchain env)" using safe by (simp add: s(4))
  obtain addr where out: "outbox d' = outbox d @ [SendTo addr (Vote (ballot env mc b i (Number mc)))]"
    using HandlePropose_votes [OF s(1) ne le safe' s(5)] h s(2,3) by auto
  have "cast_vote env b d = Some (d', ballot env mc b i (Number mc))"
    by (simp add: cast_vote_def h out)
  moreover have "steady lead mc env i d'"
    using st HandlePropose_frame(4) [OF h] HandlePropose_sends [OF h] same
    by (auto simp: steady_def del)
  ultimately show ?thesis using h del win by blast
qed

subsection \<open>The blocks\<close>

lemma blocks_of_conf: "ConfNumber b = Number mc \<Longrightarrow> ConfNumber (blocks_of lead E mc V b q k) = Number mc"
  by (cases k) (simp_all add: next_block_def)

lemma blocks_of_Suc:
  assumes "V \<noteq> []" "\<forall>i \<in> set V. sha (E i) = sha lead"
  shows "ParentHash (blocks_of lead E mc V b q (Suc k)) = hashBlock (sha lead) (blocks_of lead E mc V b q k)"
    "\<exists>c. Justify (blocks_of lead E mc V b q (Suc k)) = Some c \<and>
       qc_BlockHash c = hashBlock (sha lead) (blocks_of lead E mc V b q k)"
    "Batch (blocks_of lead E mc V b q (Suc k)) = take 100 (drop (100 * k) q)"
proof -
  have "sha (E (hd V)) = sha lead" using assms by simp
  then have "qc_BlockHash (cert_of (map (\<lambda>i. ballot (E i) mc (blocks_of lead E mc V b q k) i (Number mc)) V)) =
      hashBlock (sha lead) (blocks_of lead E mc V b q k)"
    using assms(1) by (simp add: cert_of_def hd_map ballot_def)
  then show "ParentHash (blocks_of lead E mc V b q (Suc k)) = hashBlock (sha lead) (blocks_of lead E mc V b q k)"
    "\<exists>c. Justify (blocks_of lead E mc V b q (Suc k)) = Some c \<and>
       qc_BlockHash c = hashBlock (sha lead) (blocks_of lead E mc V b q k)"
    by (simp_all add: next_block_def GetBlockHash_def)
  show "Batch (blocks_of lead E mc V b q (Suc k)) = take 100 (drop (100 * k) q)"
    by (simp add: next_block_def)
qed

lemma blocks_of_regular:
  assumes "\<forall>r \<in> set (Batch b) \<union> set q. is_regular r" "r \<in> set (Batch (blocks_of lead E mc V b q k))"
  shows "is_regular r"
  using assms by (cases k) (auto simp: next_block_def dest: in_set_takeD in_set_dropD)

lemma blocks_of_chain:
  assumes "V \<noteq> []" "\<forall>i \<in> set V. sha (E i) = sha lead"
    and "certified lead (Justify b) = None"
    and "\<forall>k < m. bc_Get (blockchain lead) (hashBlock (sha lead) (blocks_of lead E mc V b q k)) =
           Some (blocks_of lead E mc V b q k)"
    and "sha env = sha lead" "blockchain env = blockchain lead"
  shows "proposal_chain env (map (blocks_of lead E mc V b q) [0..<Suc m])"
proof -
  let ?B = "blocks_of lead E mc V b q"
  have "certified env (Justify (?B (Suc k))) = Some (?B k)" if "k < m" for k
    using blocks_of_Suc(2) [OF assms(1,2), of mc b q k] assms(4,6) that by (auto simp: certified_def)
  moreover have "certified env (Justify (?B 0)) = None" using assms(3,6) by (simp add: certified_def split: option.splits)
  moreover have "ParentHash (?B (Suc k)) = hashBlock (sha env) (?B k)" for k
    using blocks_of_Suc(1) [OF assms(1,2)] assms(5) by simp
  ultimately show ?thesis unfolding proposal_chain_def by (auto simp: nth_map_upt simp del: blocks_of.simps upt_Suc)
qed

text \<open>A chain of regular blocks of the latest configuration is ready for a fresh voter.\<close>

lemma latest_number_bound:
  assumes "configs_ok s" "usable s" "Latest s = Inr mc"
  shows "unat (Number mc) < length (configs s)"
proof -
  let ?n = "length (configs s) - 1"
  have "configs s \<noteq> []" "Number mc = of_nat ?n" "length (configs s) < 2 ^ 64"
    using assms by (auto simp: Latest_def configs_ok_def usable_def split: if_splits)
  then show ?thesis by (simp add: unat_of_nat)
qed

lemma regular_chain_ready:
  assumes "proposal_chain env bs" "configs_ok (store dl)" "usable (store dl)" "Latest (store dl) = Inr mc"
    and "\<forall>b \<in> set bs. ConfNumber b = Number mc \<and> (\<forall>r \<in> set (Batch b). is_regular r)"
    and "\<forall>c n h. signFn env c n h \<noteq> None"
  shows "chain_ready env dl bs" "store (fst (delivery env (take k bs) dl)) = store dl"
proof -
  have n: "unat (Number mc) < length (configs (store dl))"
    by (rule latest_number_bound [OF assms(2-4)])
  have len: "length (configs (store dl)) < 2 ^ 64" using assms(3) by (simp add: usable_def)
  have del: "store (fst (delivery env (take j bs) dl)) = store dl \<and> set (snd (delivery env (take j bs) dl)) \<subseteq> {None}" for j
    using assms(5) n by (intro deliver_all_regular [OF _ len]) (auto dest: in_set_takeD)
  then show "store (fst (delivery env (take k bs) dl)) = store dl" by blast
  have "unat (ConfNumber (bs ! i)) < length (configs (store (fst (delivery env (take (i - 3) bs) dl))))"
    if "i < length bs" for i
    using assms(5) n del nth_mem [OF that] by simp
  then show "chain_ready env dl bs"
    using assms(1-3,6) del unfolding chain_ready_def by (metis (no_types, lifting))
qed

subsection \<open>The rounds\<close>

text \<open>A voter after \<open>m\<close> rounds.\<close>

definition voter_at :: "('pk, 'app) Env \<Rightarrow> ('pk, 'app) Env \<Rightarrow> 'pk Committee \<Rightarrow> (nat \<Rightarrow> Block) \<Rightarrow> string
    \<Rightarrow> ('pk, 'app) Deliverer \<Rightarrow> nat \<Rightarrow> ('pk, 'app) DHotStuff \<Rightarrow> bool" where
  "voter_at lead env mc B i dl m d \<longleftrightarrow> steady lead mc env i d \<and>
     deliverer d = fst (delivery env (take (m - 3) (map B [0..<m])) dl) \<and>
     window_ok (map B [0..<m]) (pipeline d) \<and>
     (\<forall>l. LockedQC (safety d) = Some l \<longrightarrow>
        (\<exists>j < m. m \<le> j + 3 \<and> qc_BlockHash l = hashBlock (sha lead) (B j)))"

text \<open>A voter that has not handled a proposal yet.\<close>

definition fresh_voter :: "('pk, 'app) Env \<Rightarrow> 'pk Committee \<Rightarrow> ('pk, 'app) Env \<Rightarrow> string \<Rightarrow> ('pk, 'app) DHotStuff \<Rightarrow> bool" where
  "fresh_voter lead mc env i d \<longleftrightarrow> steady lead mc env i d \<and> LockedQC (safety d) = None \<and>
     pipeline d = empty_pipeline \<and> configs_ok (store (deliverer d)) \<and> usable (store (deliverer d))"

text \<open>The store has the blocks of the run and knows the ancestry of each for two links.\<close>

definition store_follows :: "('pk, 'app) Env \<Rightarrow> (nat \<Rightarrow> Block) \<Rightarrow> nat \<Rightarrow> bool" where
  "store_follows lead B n \<longleftrightarrow> certified lead (Justify (B 0)) = None \<and>
     (\<forall>k < n. bc_Get (blockchain lead) (hashBlock (sha lead) (B k)) = Some (B k) \<and>
        (\<forall>j \<le> k. k \<le> j + 2 \<longrightarrow> bc_Extends (blockchain lead) (hashBlock (sha lead) (B k)) (hashBlock (sha lead) (B j))))"

lemma voter_at_0: "fresh_voter lead mc env i d \<Longrightarrow> voter_at lead env mc B i (deliverer d) 0 d"
  by (simp add: fresh_voter_def voter_at_def)

lemma voter_at_Suc:
  assumes mc: "Replicas mc \<noteq> []" "length (Replicas mc) < 2 ^ 64"
    and V: "V \<noteq> []" "\<forall>i \<in> set V. sha (E i) = sha lead"
    and b: "ConfNumber b = Number mc" "\<forall>r \<in> set (Batch b) \<union> set q. is_regular r"
    and st: "store_follows lead (blocks_of lead E mc V b q) n" and m: "m < n"
    and fr: "fresh_voter lead mc (E i) i d0"
    and at: "voter_at lead (E i) mc (blocks_of lead E mc V b q) i (deliverer d0) m d"
  shows "\<exists>d'. cast_vote (E i) (blocks_of lead E mc V b q m) d =
      Some (d', ballot (E i) mc (blocks_of lead E mc V b q m) i (Number mc)) \<and>
    voter_at lead (E i) mc (blocks_of lead E mc V b q) i (deliverer d0) (Suc m) d'"
proof -
  let ?B = "blocks_of lead E mc V b q" and ?H = "hashBlock (sha lead)" and ?dl = "deliverer d0"
  let ?as = "map ?B [0..<m]"
  have fr': "steady lead mc (E i) i d0" "configs_ok (store ?dl)" "usable (store ?dl)"
    using fr by (simp_all add: fresh_voter_def)
  then have f: "Latest (store ?dl) = Inr mc" "\<forall>c n h. signFn (E i) c n h \<noteq> None"
    "sha (E i) = sha lead" "blockchain (E i) = blockchain lead" by (simp_all add: steady_def)
  have c0: "certified lead (Justify (?B 0)) = None"
    and get: "k < n \<Longrightarrow> bc_Get (blockchain lead) (?H (?B k)) = Some (?B k)"
    and ext: "k < n \<Longrightarrow> j \<le> k \<Longrightarrow> k \<le> j + 2 \<Longrightarrow> bc_Extends (blockchain lead) (?H (?B k)) (?H (?B j))" for j k
    using st by (simp_all add: store_follows_def)
  have cert: "certified (E i) (Justify (?B k)) = (case k of 0 \<Rightarrow> None | Suc j \<Rightarrow> Some (?B j))" if "k \<le> n" for k
    using c0 get [of "k - 1"] blocks_of_Suc(2) [OF V, of mc b q "k - 1"] that f(4)
    by (cases k) (auto simp: certified_def split: option.splits)
  have "proposal_chain (E i) (map ?B [0..<Suc m])"
    using c0 get m f by (intro blocks_of_chain [OF V]) simp_all
  moreover have "\<forall>b \<in> set (map ?B [0..<Suc m]). ConfNumber b = Number mc \<and> (\<forall>r \<in> set (Batch b). is_regular r)"
    using blocks_of_conf [OF b(1)] blocks_of_regular [OF b(2)] by (auto simp del: blocks_of.simps kindOf_simps)
  ultimately have ready: "chain_ready (E i) ?dl (map ?B [0..<Suc m])"
    and store: "store (fst (delivery (E i) (take k (map ?B [0..<Suc m])) ?dl)) = store ?dl" for k
    using regular_chain_ready [OF _ fr'(2,3) f(1) _ f(2)] by blast+
  have safe: "SafeNode (safety d) (?B m) (Justify (?B m)) (blockchain lead)"
  proof (cases "LockedQC (safety d)")
    case (Some l)
    then obtain j where j: "j < m" "m \<le> j + 3" "qc_BlockHash l = ?H (?B j)" using at by (auto simp: voter_at_def)
    then obtain k where k: "m = Suc k" "j \<le> k" "k \<le> j + 2" by (cases m) auto
    have "bc_Extends (blockchain lead) (ParentHash (?B m)) (qc_BlockHash l)"
      unfolding k(1) blocks_of_Suc(1) [OF V] j(3) using ext [of k j] k m by simp
    then show ?thesis by (simp add: SafeNode_def Some)
  qed (simp add: SafeNode_def)
  have eq: "map ?B [0..<Suc m] = ?as @ [?B m]" by simp
  have take_as: "take k ?as = take k (map ?B [0..<Suc m])" if "k \<le> m" for k
    using that by (simp add: take_map)
  have len: "length ?as = m" by simp
  have at': "steady lead mc (E i) i d" "deliverer d = fst (delivery (E i) (take (m - 3) ?as) ?dl)"
    "window_ok ?as (pipeline d)" using at by (simp_all add: voter_at_def)
  have same: "store (fst (delivery (E i) (take (m - 2) ?as) ?dl)) = store (deliverer d)"
    unfolding at'(2) by (simp only: take_as diff_le_self store)
  from voter_step [OF at'(1) mc blocks_of_conf [OF b(1)] safe ready [unfolded eq], unfolded len, OF at'(2,3) same]
  obtain d' where d': "cast_vote (E i) (?B m) d = Some (d', ballot (E i) mc (?B m) i (Number mc))"
    "HandlePropose (E i) (?B m) d = Inr d'" "steady lead mc (E i) i d'"
    "deliverer d' = fst (delivery (E i) (take (m - 2) ?as) ?dl)" "window_ok (?as @ [?B m]) (pipeline d')" by blast
  have "\<exists>j < Suc m. Suc m \<le> j + 3 \<and> qc_BlockHash l = ?H (?B j)" if l: "LockedQC (safety d') = Some l" for l
  proof (cases "m < 2")
    case True
    then have "\<not> (\<exists>bd bp. certified (E i) (Justify (?B m)) = Some bd \<and> certified (E i) (Justify bd) = Some bp)"
      using cert [of m] cert [of 0] m by (auto split: nat.splits simp del: blocks_of.simps)
    then have "LockedQC (safety d) = Some l" using cast_vote_lock(1) [OF d'(1)] l by auto
    then obtain j where "j < m" "qc_BlockHash l = ?H (?B j)" using at by (auto simp: voter_at_def)
    then show ?thesis using True by (intro exI [of _ j]) simp
  next
    case False
    then obtain j where j: "m = Suc (Suc j)" using less_2_cases_iff by (metis not0_implies_Suc One_nat_def)
    have "LockedQC (safety d') = Justify (?B (Suc j))"
      using cert [of m] cert [of "Suc j"] m j f(3) blocks_of_Suc(1) [OF V]
      by (intro cast_vote_lock(2) [OF d'(1), of _ "?B j"]) (simp_all del: blocks_of.simps)
    then have "qc_BlockHash l = ?H (?B j)" using blocks_of_Suc(2) [OF V, of mc b q j] l by auto
    then show ?thesis using j by (intro exI [of _ j]) simp
  qed
  moreover have "take (Suc m - 3) (map ?B [0..<Suc m]) = take (m - 2) ?as"
    by (simp only: take_as diff_le_self diff_Suc_Suc numeral_3_eq_3 numeral_2_eq_2)
  ultimately show ?thesis using d' by (intro exI [of _ d']) (simp add: voter_at_def)
qed

text \<open>All the rounds.\<close>

lemma rounds_run:
  assumes mc: "wf_committee mc" "Replicas mc \<noteq> []" "length (Replicas mc) < 2 ^ 64"
    and V: "distinct V" "int (length V) = QuorumSize mc"
    and b: "ConfNumber b = Number mc" "\<forall>r \<in> set (Batch b) \<union> set q. is_regular r"
    and st: "store_follows lead (blocks_of lead E mc V b q) n"
    and fr: "\<forall>i \<in> set V. fresh_voter lead mc (E i) i (D i)"
    and d: "Latest (store (deliverer d)) = Inr mc" "buffered (votesBuf d) (Number mc) = []" "ch_buf (requestQ d) = q"
    and m: "m \<le> n"
  shows "\<exists>d' D'. run_rounds lead E V m (b, d, D) = Some (blocks_of lead E mc V b q m, d', D') \<and>
    Latest (store (deliverer d')) = Inr mc \<and> buffered (votesBuf d') (Number mc) = [] \<and>
    ch_buf (requestQ d') = drop (100 * m) q \<and>
    (\<forall>i \<in> set V. voter_at lead (E i) mc (blocks_of lead E mc V b q) i (deliverer (D i)) m (D' i))"
  using m
proof (induction m)
  case 0
  show ?case using d fr by (auto intro: voter_at_0)
next
  case (Suc m)
  let ?B = "blocks_of lead E mc V b q"
  let ?vs = "map (\<lambda>i. ballot (E i) mc (?B m) i (Number mc)) V"
  have q: "0 < QuorumSize mc" by (simp add: QuorumSize_wf [OF mc(1)])
  then have ne: "V \<noteq> []" using V(2) by auto
  have sha: "\<forall>i \<in> set V. sha (E i) = sha lead" using fr by (simp add: fresh_voter_def steady_def)
  from Suc obtain d1 D1 where run: "run_rounds lead E V m (b, d, D) = Some (?B m, d1, D1)"
    and d1: "Latest (store (deliverer d1)) = Inr mc" "buffered (votesBuf d1) (Number mc) = []"
      "ch_buf (requestQ d1) = drop (100 * m) q"
    and at: "\<forall>i \<in> set V. voter_at lead (E i) mc ?B i (deliverer (D i)) m (D1 i)" by auto
  have step: "\<exists>d'. cast_vote (E i) (?B m) (D1 i) = Some (d', ballot (E i) mc (?B m) i (Number mc)) \<and>
      voter_at lead (E i) mc ?B i (deliverer (D i)) (Suc m) d'" if i: "i \<in> set V" for i
    using voter_at_Suc [OF mc(2,3) ne sha b st _ bspec [OF fr i] bspec [OF at i]] Suc.prems by simp
  define D2 where "D2 i = (if i \<in> set V then fst (the (cast_vote (E i) (?B m) (D1 i))) else D1 i)" for i
  have cast: "cast_vote (E i) (?B m) (D1 i) = Some (D2 i, ballot (E i) mc (?B m) i (Number mc))"
    and at2: "voter_at lead (E i) mc ?B i (deliverer (D i)) (Suc m) (D2 i)" if "i \<in> set V" for i
    using step [OF that] that by (auto simp: D2_def)
  have D2: "(\<lambda>i. if i \<in> set V then fst (the (cast_vote (E i) (?B m) (D1 i))) else D1 i) = D2"
    by (simp add: D2_def fun_eq_iff)
  have all: "list_all (\<lambda>i. cast_vote (E i) (?B m) (D1 i) \<noteq> None) V"
    unfolding list_all_iff by (simp add: cast del: blocks_of.simps)
  have votes: "map (\<lambda>i. snd (the (cast_vote (E i) (?B m) (D1 i)))) V = ?vs" using cast by simp
  have "\<forall>v \<in> set ?vs. acceptable lead mc (Number mc) v"
    using fr steady_ballot [OF _ blocks_of_conf [OF b(1)]] by (fastforce simp: fresh_voter_def)
  moreover have "distinct (map vote_SignerId ?vs)" using V(1) by (simp add: comp_def ballot_def)
  ultimately obtain d2 where d2: "handle_votes lead ?vs d1 = Inr d2"
    "outbox d2 = outbox d1 @ [Broadcast mc (BlockMsg
       (new_block (blockchain lead) (Number mc) (take 100 (ch_buf (requestQ d1))) (Some (cert_of ?vs))))]"
    "votesBuf d2 (Number mc) = None" "deliverer d2 = deliverer d1"
    "ch_buf (requestQ d2) = drop 100 (ch_buf (requestQ d1))"
    using quorum_proposes [OF d1(1) _ d1(2) _ _ mc(2,3) q, of ?vs lead] V(2) by auto
  have "new_block (blockchain lead) (Number mc) (take 100 (ch_buf (requestQ d1))) (Some (cert_of ?vs)) = ?B (Suc m)"
    by (simp add: next_block_def d1(3))
  then have "one_round lead E V (?B m, d1, D1) = Some (?B (Suc m), d2, D2)"
    by (simp add: one_round_def all [unfolded not_None_eq split_paired_Ex] votes d2(1,2) D2 del: blocks_of.simps)
  then show ?case
    using run d1 d2 at2 by (auto simp: buffered_def add.commute simp del: blocks_of.simps)
qed

subsection \<open>What the voters execute\<close>

lemma blocks_of_Height:
  assumes "V \<noteq> []" "\<forall>i \<in> set V. sha (E i) = sha lead" "store_follows lead (blocks_of lead E mc V b q) n"
  shows "k \<le> n \<Longrightarrow> Height (blocks_of lead E mc V b q k) = Height b + of_nat k"
proof (induction k)
  case (Suc k)
  let ?B = "blocks_of lead E mc V b q"
  obtain c where c: "Justify (?B (Suc k)) = Some c" "qc_BlockHash c = hashBlock (sha lead) (?B k)"
    using blocks_of_Suc(2) [OF assms(1,2)] by blast
  have "bc_Get (blockchain lead) (qc_BlockHash c) = Some (?B k)"
    using assms(3) Suc.prems by (simp add: c(2) store_follows_def)
  then have "Height (?B (Suc k)) = Height (?B k) + 1"
    using c(1) by (simp add: next_block_def new_block_def Let_def)
  with Suc show ?case by simp
qed simp

lemma blocks_of_distinct:
  assumes "V \<noteq> []" "\<forall>i \<in> set V. sha (E i) = sha lead" "store_follows lead (blocks_of lead E mc V b q) n"
    and "n < 2 ^ 64"
  shows "distinct (map (hashBlock (sha lead) \<circ> blocks_of lead E mc V b q) [0..<n])"
proof -
  let ?B = "blocks_of lead E mc V b q"
  have "j = k" if jk: "j < n" "k < n" and h: "hashBlock (sha lead) (?B j) = hashBlock (sha lead) (?B k)" for j k
  proof -
    have "?B j = ?B k" using assms(3) jk h by (metis option.inject store_follows_def)
    then have "(of_nat j :: u64) = of_nat k"
      using blocks_of_Height [OF assms(1-3), of j] blocks_of_Height [OF assms(1-3), of k] jk
      by (metis add_left_imp_eq less_imp_le)
    then have "unat (of_nat j :: u64) = unat (of_nat k :: u64)" by simp
    then show "j = k" using jk assms(4) by (simp add: unat_of_nat)
  qed
  then show ?thesis by (auto simp: distinct_map inj_on_def)
qed

text \<open>
  After \<open>n\<close> rounds the voters have executed the first block's batch and the queue of the collector
  up to the batch of four rounds before, in order and once.
\<close>

lemma batches_of:
  assumes "V \<noteq> []" "\<forall>i \<in> set V. sha (E i) = sha lead"
  shows "concat (map (Batch \<circ> blocks_of lead E mc V b q) [0..<Suc k]) = Batch b @ take (100 * k) q"
proof (induction k)
  case (Suc k)
  then show ?case using blocks_of_Suc(3) [OF assms, of mc b q k]
    by (simp add: take_add add.commute [of 100] del: blocks_of.simps(2))
qed simp

lemma rounds_execute:
  assumes mc: "wf_committee mc" "Replicas mc \<noteq> []" "length (Replicas mc) < 2 ^ 64"
    and V: "distinct V" "int (length V) = QuorumSize mc"
    and b: "ConfNumber b = Number mc" "\<forall>r \<in> set (Batch b) \<union> set q. is_regular r"
    and n: "n < 2 ^ 64" "store_follows lead (blocks_of lead E mc V b q) n"
    and fr: "\<forall>i \<in> set V. fresh_voter lead mc (E i) i (D i)"
    and new: "\<forall>i \<in> set V. \<forall>k < n. hashBlock (sha lead) (blocks_of lead E mc V b q k) \<notin> delivered (deliverer (D i))"
    and d: "Latest (store (deliverer d)) = Inr mc" "buffered (votesBuf d) (Number mc) = []" "ch_buf (requestQ d) = q"
  shows "\<exists>d' D'. run_rounds lead E V n (b, d, D) = Some (blocks_of lead E mc V b q n, d', D') \<and>
    (\<forall>i \<in> set V. executed (deliverer (D' i)) =
       executed (deliverer (D i)) @ (if n < 4 then [] else Batch b @ take (100 * (n - 4)) q))"
proof -
  let ?B = "blocks_of lead E mc V b q"
  have "0 < QuorumSize mc" by (simp add: QuorumSize_wf [OF mc(1)])
  then have ne: "V \<noteq> []" using V(2) by auto
  have sha: "\<forall>i \<in> set V. sha (E i) = sha lead" using fr by (simp add: fresh_voter_def steady_def)
  obtain d' D' where run: "run_rounds lead E V n (b, d, D) = Some (?B n, d', D')"
    and at: "\<forall>i \<in> set V. voter_at lead (E i) mc ?B i (deliverer (D i)) n (D' i)"
    using rounds_run [OF mc V b n(2) fr d order_refl] by blast
  have "executed (deliverer (D' i)) =
      executed (deliverer (D i)) @ (if n < 4 then [] else Batch b @ take (100 * (n - 4)) q)" if i: "i \<in> set V" for i
  proof -
    let ?bs = "map ?B [0..<n - 3]"
    have fi: "steady lead mc (E i) i (D i)" "configs_ok (store (deliverer (D i)))" "usable (store (deliverer (D i)))"
      using fr i by (simp_all add: fresh_voter_def)
    then have mi: "unat (Number mc) < length (configs (store (deliverer (D i))))"
      by (intro latest_number_bound) (simp_all add: steady_def)
    have reg: "\<forall>b' \<in> set ?bs. ConfNumber b' = Number mc \<and> (\<forall>r \<in> set (Batch b'). is_regular r)"
      using blocks_of_conf [OF b(1)] blocks_of_regular [OF b(2)] by (auto simp del: blocks_of.simps kindOf_simps)
    have "deliverer (D' i) = fst (delivery (E i) ?bs (deliverer (D i)))"
      using at i by (simp add: voter_at_def take_map)
    then obtain errs where del: "delivery (E i) ?bs (deliverer (D i)) = (deliverer (D' i), errs)" by (cases "delivery (E i) ?bs (deliverer (D i))") simp
    have "set (snd (delivery (E i) ?bs (deliverer (D i)))) \<subseteq> {None}"
    proof (rule conjunct2 [OF deliver_all_regular])
      show "\<forall>b' \<in> set ?bs. (\<forall>r \<in> set (Batch b'). is_regular r) \<and>
          unat (ConfNumber b') < length (configs (store (deliverer (D i))))"
        using reg mi by metis
      show "length (configs (store (deliverer (D i)))) < 2 ^ 64" using fi(3) by (simp add: usable_def)
    qed
    then have ok: "set errs \<subseteq> {None}" by (simp add: del)
    have si: "sha (E i) = sha lead" using sha i by blast
    have "distinct (map (hashBlock (sha lead)) ?bs)"
      using distinct_take [OF blocks_of_distinct [OF ne sha n(2,1)], of "n - 3"] by (simp add: take_map comp_def)
    moreover have "hashBlock (sha lead) ` set ?bs \<inter> delivered (deliverer (D i)) = {}" using new i by auto
    ultimately have first: "first_by (hashBlock (sha (E i))) (delivered (deliverer (D i))) ?bs = ?bs"
      by (simp only: si first_by_id)
    have "map (\<lambda>b. filter is_regular (Batch b)) ?bs = map Batch ?bs"
      using reg by (intro map_cong refl filter_True) blast
    then have "executed (deliverer (D' i)) = executed (deliverer (D i)) @ concat (map Batch ?bs)"
      using deliver_all_executed [OF del ok] by (simp only: first)
    moreover have "concat (map Batch ?bs) = (if n < 4 then [] else Batch b @ take (100 * (n - 4)) q)"
    proof (cases "n < 4")
      case False
      then have "n - 3 = Suc (n - 4)" by simp
      then show ?thesis using batches_of [OF ne sha, of mc b q "n - 4"] False by (simp only: map_map if_False)
    qed simp
    ultimately show ?thesis by simp
  qed
  with run show ?thesis by blast
qed

end
