(* ===== verification/Certified.thy ===== *)
theory Certified
  imports System
begin

section \<open>Chains whose certificates are checked\<close>

text \<open>
  What would be enough for agreement: when every certificate in two chains of proposals passes
  \<open>ValidateQC\<close>, and no correct member of the committee that certifies a height signs two blocks
  of that height, the chains agree up to their last block, so the replicas that handle them
  execute the same. The handlers neither check the certificates of a proposal nor keep a replica
  from signing two blocks of one height.
\<close>

text \<open>The block store looks blocks up by their own hash.\<close>

definition keyed :: "('pk, 'app) Env \<Rightarrow> bool" where
  "keyed env \<longleftrightarrow> (\<forall>h b. bc_Get (blockchain env) h = Some b \<longrightarrow> hashBlock (sha env) b = h)"

text \<open>Block \<open>b\<close> carries a certificate that the committee \<open>c\<close> validates, each under its own verifier.\<close>

definition validly :: "(QuorumCert \<Rightarrow> 'pk option \<Rightarrow> bytes \<Rightarrow> bytes \<Rightarrow> bool) \<Rightarrow> 'pk Committee \<Rightarrow> Block \<Rightarrow> bool" where
  "validly ver c b \<longleftrightarrow> (\<exists>q. Justify b = Some q \<and> ValidateQC q c (ver q) = None)"

text \<open>
  The members of \<open>c\<close> outside \<open>F\<close> sign at most one of the hashes that two certificates are about.
\<close>

definition one_hash :: "(QuorumCert \<Rightarrow> 'pk option \<Rightarrow> bytes \<Rightarrow> bytes \<Rightarrow> bool) \<Rightarrow> 'pk Committee \<Rightarrow> string set
    \<Rightarrow> QuorumCert \<Rightarrow> QuorumCert \<Rightarrow> bool" where
  "one_hash ver c F q q' \<longleftrightarrow> (\<forall>r \<in> set (Replicas c). \<forall>s s'. ID r \<notin> F \<longrightarrow>
     ver q (PubKey r) (qc_BlockHash q) s \<longrightarrow> ver q' (PubKey r) (qc_BlockHash q') s' \<longrightarrow>
     qc_BlockHash q = qc_BlockHash q')"

text \<open>The certificates of two chains for their first \<open>n\<close> blocks.\<close>

definition certified_chains :: "(QuorumCert \<Rightarrow> 'pk option \<Rightarrow> bytes \<Rightarrow> bytes \<Rightarrow> bool) \<Rightarrow> (nat \<Rightarrow> 'pk Committee)
    \<Rightarrow> (nat \<Rightarrow> string set) \<Rightarrow> Block list \<Rightarrow> Block list \<Rightarrow> nat \<Rightarrow> bool" where
  "certified_chains ver C F bs cs n \<longleftrightarrow> (\<forall>k < n. committee_valid (C k) \<and> finite (F k) \<and>
     int (card (F k)) \<le> FaultCap (C k) \<and> validly ver (C k) (bs ! Suc k) \<and> validly ver (C k) (cs ! Suc k) \<and>
     one_hash ver (C k) (F k) (the (Justify (bs ! Suc k))) (the (Justify (cs ! Suc k))))"

lemma certified_hash:
  assumes "proposal_chain env bs" "keyed env" "Suc k < length bs" "Justify (bs ! Suc k) = Some q"
  shows "qc_BlockHash q = hashBlock (sha env) (bs ! k)"
  using assms by (auto simp: proposal_chain_def certified_def keyed_def)

lemma certified_chains_prefix:
  assumes "proposal_chain env bs" "proposal_chain env' cs" "keyed env" "keyed env'" "sha env = sha env'"
    and "length bs \<le> length cs" "certified_chains ver C F bs cs (length bs - 1)"
    and "inj_on (hashBlock (sha env)) (set (bs @ cs))"
  shows "butlast bs = take (length bs - 1) cs"
proof (rule nth_equalityI)
  show "length (butlast bs) = length (take (length bs - 1) cs)" using assms(6) by simp
next
  fix k assume "k < length (butlast bs)"
  then have k: "k < length bs - 1" "Suc k < length bs" "Suc k < length cs" using assms(6) by simp_all
  note all = assms(7) [unfolded certified_chains_def, THEN spec, THEN mp, OF k(1)]
  from all have c: "committee_valid (C k)" "finite (F k)" "int (card (F k)) \<le> FaultCap (C k)"
    and v: "validly ver (C k) (bs ! Suc k)" "validly ver (C k) (cs ! Suc k)"
    and one: "one_hash ver (C k) (F k) (the (Justify (bs ! Suc k))) (the (Justify (cs ! Suc k)))"
    by simp_all
  from v obtain q q' where q: "Justify (bs ! Suc k) = Some q" "Justify (cs ! Suc k) = Some q'"
    "ValidateQC q (C k) (ver q) = None" "ValidateQC q' (C k) (ver q') = None"
    unfolding validly_def by blast
  have one: "one_hash ver (C k) (F k) q q'" using one by (simp only: q(1,2) option.sel)
  have "qc_BlockHash q = qc_BlockHash q'"
    by (rule validated_same_hash [OF c(1) q(3,4) c(2,3)]) (use one in \<open>unfold one_hash_def, blast\<close>)
  then have "hashBlock (sha env) (bs ! k) = hashBlock (sha env) (cs ! k)"
    using certified_hash [OF assms(1,3) k(2) q(1)] certified_hash [OF assms(2,4) k(3) q(2)] assms(5) by simp
  moreover have "bs ! k \<in> set (bs @ cs)" "cs ! k \<in> set (bs @ cs)" using k by simp_all
  ultimately have "bs ! k = cs ! k" using assms(8) by (auto dest: inj_onD)
  then show "butlast bs ! k = take (length bs - 1) cs ! k" using k by (simp add: nth_butlast)
qed

lemma certified_agreement:
  assumes run: "proposals env bs s t" "proposals env' cs s' t'"
    and ready: "chain_ready env (deliverer (node s)) bs" "chain_ready env' (deliverer (node s')) cs"
    and empty: "pipeline (node s) = empty_pipeline" "pipeline (node s') = empty_pipeline"
    and start: "deliverer (node s) = deliverer (node s')"
    and env: "sha env = sha env'" "parsePKIX env = parsePKIX env'" "execute env = execute env'"
    and store: "keyed env" "keyed env'" "inj_on (hashBlock (sha env)) (set (bs @ cs))"
    and len: "length bs \<le> length cs" and cert: "certified_chains ver C F bs cs (length bs - 1)"
  shows "butlast bs = take (length bs - 1) cs \<and> grows (deliverer (node t)) (deliverer (node t'))"
proof -
  let ?D = "\<lambda>n. fst (delivery env' (take n cs) (deliverer (node s')))"
  have eq: "butlast bs = take (length bs - 1) cs"
    using ready by (intro certified_chains_prefix [OF _ _ store(1,2) env(1) len cert store(3)]) (simp_all add: chain_ready_def)
  have "take (length bs - 3) bs = take (length bs - 3) (butlast bs)" by (simp add: butlast_conv_take min_def)
  also have "\<dots> = take (length bs - 3) cs" by (simp add: eq min_def)
  finally have "deliverer (node t) = ?D (length bs - 3)"
    using proposals_chain [OF run(1) ready(1) empty(1)] start env by simp
  moreover have "deliverer (node t') = ?D (length cs - 3)"
    using proposals_chain [OF run(2) ready(2) empty(2)] by blast
  moreover have "length bs - 3 \<le> length cs - 3" using len by simp
  from take_split [OF this] have "grows (?D (length bs - 3)) (?D (length cs - 3))"
    by (metis deliver_all_grows fst_deliver_all_append)
  ultimately show ?thesis using eq by simp
qed

end
