(* ===== verification/Batches.thy ===== *)
theory Batches
  imports Links Steady Certified
begin

section \<open>A sample run\<close>

text \<open>
  A sequence of blocks as a collector proposes them on the votes of \<open>B\<close>, \<open>C\<close> and \<open>D\<close>: each is
  certified by their signatures over its predecessor, the first executes a request, the second
  carries the request queued at the collector.
\<close>

abbreviation bcd :: "string list" where "bcd \<equiv> [''B'', ''C'', ''D'']"

definition vote_qc :: "bytes \<Rightarrow> QuorumCert" where
  "vote_qc h = \<lparr>qc_Type = '''', qc_ViewNumber = 0, qc_ConfNumber = 0, qc_BlockHash = h,
     qc_Signatures = replicate 3 (replicate 64 0), qc_SignerIds = bcd\<rparr>"

primrec voted :: "nat \<Rightarrow> Block" where
  "voted 0 = \<lparr>ParentHash = [], Batch = [tx], Justify = None, Height = 0, ConfNumber = 0\<rparr>"
| "voted (Suc k) = \<lparr>ParentHash = link_hash [] k, Batch = take 100 (drop (100 * k) [tx']),
     Justify = Some (vote_qc (link_hash [] k)), Height = of_nat (Suc k), ConfNumber = 0\<rparr>"

lemma hash_voted: "hashBlock idsha (voted k) = link_hash [] k"
  by (cases k) (simp_all add: hashBlock_def idsha_def)

lemma voted_Height: "Height (voted k) = of_nat k" "ConfNumber (voted k) = 0"
  by (cases k; simp)+

definition voted_store :: memBlockchain where
  "voted_store = foldl (put idsha) newMemBlockchain (map voted [0..<8])"

lemma link_hash_inj: "link_hash r j = link_hash r k \<Longrightarrow> j = k"
  by (drule arg_cong [where f = length]) (simp add: length_link_hash)

lemma voted_get:
  assumes "k < 8"
  shows "Get voted_store (link_hash [] k) = Some (voted k)"
proof -
  have "inj_on (hashBlock idsha) (set (map voted [0..<8]))"
    by (rule inj_onI) (auto simp: hash_voted dest: link_hash_inj)
  then have "Get voted_store (hashBlock idsha (voted k)) = Some (voted k)"
    unfolding voted_store_def using assms by (intro Get_puts) simp_all
  then show ?thesis by (simp only: hash_voted)
qed

definition voted_env :: "(string, nat) Env" where
  "voted_env = sample_env voted_store"

lemma voted_env_simps [simp]:
  "sha voted_env = idsha" "signFn voted_env = sample_sign" "blockchain voted_env = bench_reader voted_store"
  "ecdsaVerify voted_env = (\<lambda>pk dig r s. True)"
  by (simp_all add: voted_env_def)

lemma voted_cert: "cert_of (map (\<lambda>i. ballot voted_env four (voted k) i (Number four)) bcd) = vote_qc (link_hash [] k)"
  by (simp add: cert_of_def ballot_def vote_qc_def hash_voted sample_sign_def comp_def numeral_3_eq_3)

lemma voted_blocks:
  "k \<le> 8 \<Longrightarrow> blocks_of voted_env (\<lambda>i. voted_env) four bcd (voted 0) [tx'] k = voted k"
proof (induction k)
  case (Suc k)
  then have g: "Get voted_store (link_hash [] k) = Some (voted k)" by (simp add: voted_get)
  have "blocks_of voted_env (\<lambda>i. voted_env) four bcd (voted 0) [tx'] (Suc k) =
      new_block (bench_reader voted_store) 0 (take 100 (drop (100 * k) [tx'])) (Some (vote_qc (link_hash [] k)))"
    using Suc voted_cert [of k] by (simp add: next_block_def del: voted.simps)
  also have "\<dots> = voted (Suc k)"
    by (simp add: new_block_def Let_def bench_reader_def vote_qc_def g voted_Height GetBlockHash_def add.commute)
  finally show ?case .
qed simp

lemma voted_extends:
  assumes "k < 8" "j \<le> k" "k \<le> j + 2"
  shows "bc_Extends (bench_reader voted_store) (link_hash [] k) (link_hash [] j)"
proof -
  have two: "ancestor_within (Suc (Suc n)) (Get voted_store) (link_hash [] k) (link_hash [] j)" for n
  proof -
    consider "k = j" | "k = Suc j" | "k = Suc (Suc j)" using assms by linarith
    then show ?thesis
      using assms(1) by cases (simp_all add: voted_get ancestor_within_refl del: link_hash.simps)
  qed
  have "(1023 :: nat) = Suc (Suc 1021)" by simp
  then have "ancestor_within 1023 (Get voted_store) (link_hash [] k) (link_hash [] j)"
    by (simp only: two)
  then show ?thesis by (simp only: bench_reader_def BlockchainReader.simps Extends_agree rep_Extends_within)
qed

definition queue_node :: "(string, nat) DHotStuff" where
  "queue_node = sample_node\<lparr>requestQ := (make_chan 8)\<lparr>ch_buf := [tx']\<rparr>\<rparr>"

lemma voted_follows:
  "store_follows voted_env (blocks_of voted_env (\<lambda>i. voted_env) four bcd (voted 0) [tx']) 8"
proof -
  have "certified voted_env (Justify (voted 0)) = None" by (simp add: certified_def)
  moreover have "bc_Get (bench_reader voted_store) (link_hash [] k) = Some (voted k)" if "k < 8" for k
    using that by (simp add: bench_reader_def voted_get)
  ultimately show ?thesis
    using voted_blocks voted_extends by (simp add: store_follows_def hash_voted del: voted.simps blocks_of.simps link_hash.simps)
qed

lemma voted_fresh:
  assumes "i \<in> set bcd"
  shows "fresh_voter voted_env four voted_env i (sample_node\<lparr>myID := i\<rparr>)"
  using assms
  by (auto simp: fresh_voter_def steady_def usable_def ReplicaByID_def sample_sign_def Verify_def go_simps Let_def)

subsection \<open>Two tips\<close>

text \<open>Another fifth block for the same chain, of a wrong height.\<close>

definition tip :: Block where
  "tip = voted 4\<lparr>Height := 9\<rparr>"

definition tipped :: "Block list" where
  "tipped = map voted [0..<4] @ [tip]"

text \<open>The three voters sign the hashes of the first four blocks only.\<close>

definition signed :: "QuorumCert \<Rightarrow> string option \<Rightarrow> bytes \<Rightarrow> bytes \<Rightarrow> bool" where
  "signed q pk h s \<longleftrightarrow> pk \<in> Some ` set bcd \<and> (\<exists>k < 4. h = link_hash [] k \<and> qc_BlockHash q = h) \<and> s = replicate 64 0"

lemma hash_tip: "hashBlock idsha tip = link_hash [] 3 @ be8 9"
  by (simp add: tip_def hashBlock_def idsha_def eval_nat_numeral)

lemma tip_fields: "Justify tip = Some (vote_qc (link_hash [] 3))" "ParentHash tip = link_hash [] 3"
    "ConfNumber tip = 0" "Batch tip = []"
  by (simp_all add: tip_def eval_nat_numeral tx'_def)

lemma voted_chain: "n \<le> 8 \<Longrightarrow> proposal_chain voted_env (map voted [0..<n])"
  by (auto simp: proposal_chain_def certified_def bench_reader_def hash_voted voted_get vote_qc_def
      simp del: link_hash.simps upt_Suc)

lemma last_index: "i < 4 \<Longrightarrow> \<not> i < 3 \<Longrightarrow> i = (3 :: nat)"
  by linarith

lemma tipped_chain: "proposal_chain voted_env tipped"
proof -
  have "certified voted_env (Justify tip) = Some (voted 3)" "ParentHash tip = hashBlock idsha (voted 3)"
    using voted_get [of 3] by (simp_all add: certified_def bench_reader_def tip_fields vote_qc_def hash_voted)
  moreover have "proposal_chain voted_env (map voted [0..<4])" by (rule voted_chain) simp
  ultimately show ?thesis
    by (auto simp: proposal_chain_def tipped_def nth_append simp del: voted.simps upt_Suc upt_rec_numeral
        dest!: last_index)
qed

lemma voted_keyed: "keyed voted_env"
proof -
  have new: "chain_ok idsha newMemBlockchain" by (simp add: chain_ok_def newMemBlockchain_def)
  have "chain_ok idsha (foldl (put idsha) m bs)" if "chain_ok idsha m" for m bs
    using that by (induction bs arbitrary: m) (simp_all add: chain_ok_put)
  from this [OF new] show ?thesis
    by (auto simp: keyed_def voted_store_def bench_reader_def dest: Get_hash)
qed

lemma voted_inj: "inj_on (hashBlock idsha) (set (tipped @ map voted [0..<6]))"
proof -
  have ne: "link_hash [] 3 @ be8 9 \<noteq> link_hash [] k" for k
  proof
    assume e: "link_hash [] 3 @ be8 9 = link_hash [] k"
    have "k = 4" using arg_cong [OF e, of length] by (simp add: length_link_hash)
    moreover have "link_hash [] 4 = link_hash [] 3 @ be8 4" by (simp add: eval_nat_numeral)
    ultimately have "be8 9 = be8 4" using e by (simp del: link_hash.simps)
    then show False by (simp add: be8_def)
  qed
  show ?thesis
    by (intro inj_onI) (auto simp: tipped_def hash_voted hash_tip ne ne [symmetric] dest: link_hash_inj
        simp del: voted.simps link_hash.simps)
qed

lemma voted_ready:
  "chain_ready voted_env (deliverer sample_node) (map voted [0..<6])"
  "chain_ready voted_env (deliverer sample_node) tipped"
proof -
  have reg: "\<forall>b \<in> set (tipped @ map voted [0..<6]). ConfNumber b = Number four \<and> (\<forall>r \<in> set (Batch b). is_regular r)"
  proof -
    have "\<forall>r \<in> set (Batch (voted k)). is_regular r" for k
      by (cases k) (auto simp: tx_def tx'_def dest: in_set_takeD in_set_dropD)
    then show ?thesis by (auto simp: tipped_def tip_fields voted_Height simp del: voted.simps)
  qed
  have s: "configs_ok (store (deliverer sample_node))" "usable (store (deliverer sample_node))"
    "Latest (store (deliverer sample_node)) = Inr four" "\<forall>c n h. signFn voted_env c n h \<noteq> None"
    by (simp_all add: usable_def sample_sign_def)
  have all: "\<forall>b \<in> set (map voted [0..<6]). ConfNumber b = Number four \<and> (\<forall>r \<in> set (Batch b). is_regular r)"
    "\<forall>b \<in> set tipped. ConfNumber b = Number four \<and> (\<forall>r \<in> set (Batch b). is_regular r)"
    using reg unfolding set_append by blast+
  have six: "proposal_chain voted_env (map voted [0..<6])" by (rule voted_chain) simp
  show "chain_ready voted_env (deliverer sample_node) (map voted [0..<6])"
    by (rule regular_chain_ready(1) [OF six s(1-3) all(1) s(4)])
  show "chain_ready voted_env (deliverer sample_node) tipped"
    by (rule regular_chain_ready(1) [OF tipped_chain s(1-3) all(2) s(4)])
qed

lemma vote_qc_valid: "k < 4 \<Longrightarrow> ValidateQC (vote_qc (link_hash [] k)) four (signed (vote_qc (link_hash [] k))) = None"
  by (auto simp: ValidateQC_None vote_qc_def sig_ok_def ReplicaByID_def signed_def numeral_3_eq_3)

lemma tipped_certified:
  "certified_chains signed (\<lambda>k. four) (\<lambda>k. {''D''}) tipped (map voted [0..<6]) 4"
proof -
  have j: "Justify (tipped ! Suc k) = Some (vote_qc (link_hash [] k))"
      "Justify (map voted [0..<6] ! Suc k) = Some (vote_qc (link_hash [] k))" if "k < 4" for k
    using that by (auto simp: tipped_def nth_append tip_fields(1) dest!: last_index)
  have "one_hash signed four {''D''} q q" for q by (simp add: one_hash_def)
  then show ?thesis using j vote_qc_valid
    by (simp add: certified_chains_def validly_def)
qed

end
