(* ===== verification/Forks.thy ===== *)
theory Forks
  imports System
begin

section \<open>Proposals that are not checked\<close>

text \<open>
  Handling a proposal never looks at the signatures of a certificate: a replica delivers any chain
  of blocks that names itself through its certificates. A faulty replica can send one chain to one
  correct replica and another chain to another.
\<close>

lemma net_proposals:
  assumes "i \<in> P" "BlockMsg ` set bs \<subseteq> A"
    and "chain_ready (E i) (deliverer (node (S i))) bs" "pipeline (node (S i)) = empty_pipeline"
  shows "\<exists>t. net_runs E P A S (S(i := t)) \<and> proposals (E i) bs (S i) t"
  using assms(2,3)
proof (induction bs rule: rev_induct)
  case Nil
  have "net_runs E P A S (S(i := S i))" by simp
  then show ?case by (blast intro: no_proposal)
next
  case (snoc b bs)
  have "BlockMsg ` set bs \<subseteq> A" using snoc.prems(1) by auto
  from snoc.IH [OF this chain_ready_butlast [OF snoc.prems(2)]] obtain t
    where t: "net_runs E P A S (S(i := t))" "proposals (E i) bs (S i) t" by blast
  from proposals_progress [OF t(2) snoc.prems(2) assms(4)] obtain d
    where d: "HandlePropose (E i) b (node t) = Inr d" by blast
  have "net_step E P A (S(i := t)) ((S(i := t))(i := ((S(i := t)) i)\<lparr>node := d\<rparr>))"
    using assms(1) snoc.prems(1) d
    by (intro net_receive [where m = "BlockMsg b"]) (auto simp: receive_def)
  then have "net_runs E P A S (S(i := t\<lparr>node := d\<rparr>))"
    using t(1) by (simp add: rtranclp.rtrancl_into_rtrancl)
  then show ?case using proposal [OF t(2) d] by blast
qed

lemma two_chains:
  assumes "i \<in> P" "j \<in> P" "i \<noteq> j" "BlockMsg ` set (bs @ cs) \<subseteq> A"
    and "chain_ready (E i) (deliverer (node (S i))) bs" "pipeline (node (S i)) = empty_pipeline"
    and "chain_ready (E j) (deliverer (node (S j))) cs" "pipeline (node (S j)) = empty_pipeline"
  shows "\<exists>S'. net_runs E P A S S' \<and> proposals (E i) bs (S i) (S' i) \<and> proposals (E j) cs (S j) (S' j)"
proof -
  have A: "BlockMsg ` set bs \<subseteq> A" "BlockMsg ` set cs \<subseteq> A" using assms(4) by auto
  from net_proposals [where E = E and S = S, OF assms(1) A(1) assms(5,6)] obtain t
    where t: "net_runs E P A S (S(i := t))" "proposals (E i) bs (S i) t" by blast
  have j: "(S(i := t)) j = S j" using assms(3) by simp
  from net_proposals [where E = E and S = "S(i := t)", OF assms(2) A(2), unfolded j, OF assms(7,8)]
  obtain u where u: "net_runs E P A (S(i := t)) (S(i := t, j := u))" "proposals (E j) cs (S j) u" by blast
  have "net_runs E P A S (S(i := t, j := u))" using t(1) u(1) by (rule rtranclp_trans)
  with t(2) u(2) assms(3) show ?thesis by (intro exI [of _ "S(i := t, j := u)"]) simp
qed

end
