(* ===== verification/ViewRounds.thy ===== *)
theory ViewRounds
  imports Rounds
begin

section \<open>A change of views\<close>

text \<open>
  A round that does not finish: the members time out, each sends a view change to the leader of
  the next view, and the replica that collects a quorum of them proposes a block under the
  highest certificate it has seen.
\<close>

subsection \<open>Timing out\<close>

text \<open>The message a timeout sends.\<close>

definition view_change :: "'pk Committee \<Rightarrow> u64 \<Rightarrow> ('pk, 'app) DHotStuff \<Rightarrow> NewViewMsg" where
  "view_change mc view d =
     \<lparr>nv_ViewNumber = view, nv_ConfNumber = Number mc, nv_GenericQc = GenericQC (safety d)\<rparr>"

lemma timeout_begin_defined:
  assumes "Latest (store (deliverer d)) = Inr mc" "Replicas mc \<noteq> []" "length (Replicas mc) < 2 ^ 64"
  shows "\<exists>d'. timeout_begin d = Inr (curView d, d') \<and> deliverer d' = deliverer d"
proof -
  obtain r where "leader_deref (selectLeader mc d) = Inr r" using leader_defined [OF assms(2,3)] by blast
  then show ?thesis using assms(1) by (cases "repStore d") (simp_all add: timeout_begin_def)
qed

lemma HandleTimeout_sends:
  assumes "Latest (store (deliverer d)) = Inr mc" "Leader mc view = Inr leader"
    and "Replicas mc \<noteq> []" "length (Replicas mc) < 2 ^ 64" "vc_curView (vc d) + 1 = view"
  shows "\<exists>d'. HandleTimeout env False d = Inr d' \<and> curView d' = view \<and>
    outbox d' = outbox d @ [SendTo (Addr leader) (ViewMsg (view_change mc view d))]"
proof -
  obtain d1 where d1: "timeout_begin d = Inr (curView d, d1)" "deliverer d1 = deliverer d"
    using timeout_begin_defined [OF assms(1,3,4)] by blast
  note f = timeout_begin_frame [OF d1(1)]
  have "OnTimeout (sendErr env) False (safety d1) (store (deliverer d1)) (vc d1) =
      Inr (\<lparr>vc_curView = view\<rparr>, [SendTo (Addr leader) (ViewMsg (view_change mc view d))],
        if sendErr env (Addr leader) (ViewMsg (view_change mc view d))
        then Some (SendNewViewFailed (Addr leader) view) else None)"
    using assms(1,2,5) d1(2) f by (cases "vc d") (auto simp: OnTimeout_def Let_def view_change_def)
  then have "timeout_change env False d1 = Inr (d1\<lparr>vc := \<lparr>vc_curView = view\<rparr>,
      outbox := outbox d @ [SendTo (Addr leader) (ViewMsg (view_change mc view d))]\<rparr>)"
    using f by (simp add: timeout_change_def)
  then show ?thesis using d1(1) by (simp add: HandleTimeout_def timeout_end_def CurView_def)
qed

subsection \<open>Collecting view changes\<close>

primrec handle_new_views :: "('pk, 'app) Env \<Rightarrow> NewViewMsg list \<Rightarrow> ('pk, 'app) DHotStuff
    \<Rightarrow> panic + ('pk, 'app) DHotStuff" where
  "handle_new_views env [] d = Inr d"
| "handle_new_views env (m # ms) d =
     (case HandleNewView env m d of Inl p \<Rightarrow> Inl p | Inr d' \<Rightarrow> handle_new_views env ms d')"

lemma handle_new_views_append:
  "handle_new_views env (us @ vs) d =
     (case handle_new_views env us d of Inl p \<Rightarrow> Inl p | Inr d' \<Rightarrow> handle_new_views env vs d')"
  by (induction us arbitrary: d) (auto split: sum.splits)

lemma handle_new_views_collect:
  assumes "Latest (store (deliverer d)) = Inr mc" "\<forall>m \<in> set ms. nv_ViewNumber m = view"
    and "buffered (newViewBuf d) view = []" "int (length ms) < QuorumSize mc"
  shows "\<exists>e buf. handle_new_views env ms d = Inr e \<and> e = d\<lparr>newViewBuf := buf\<rparr> \<and> buffered buf view = ms"
  using assms(2,4)
proof (induction ms rule: rev_induct)
  case Nil
  then show ?case using assms(3) by (intro exI [of _ d] exI [of _ "newViewBuf d"]) simp
next
  case (snoc m ms)
  then obtain e buf where e: "handle_new_views env ms d = Inr e" "e = d\<lparr>newViewBuf := buf\<rparr>"
    "buffered buf view = ms" by auto
  have "HandleNewView env m e = Inr (d\<lparr>newViewBuf := buf(view \<mapsto> ms @ [m])\<rparr>)"
    using snoc.prems assms(1) e(2,3) by (simp add: HandleNewView_def OnNewViewMessages_def Let_def)
  with e(1) have "handle_new_views env (ms @ [m]) d = Inr (d\<lparr>newViewBuf := buf(view \<mapsto> ms @ [m])\<rparr>)"
    by (simp add: handle_new_views_append)
  moreover have "buffered (buf(view \<mapsto> ms @ [m])) view = ms @ [m]" by (simp add: buffered_def)
  ultimately show ?case by blast
qed

text \<open>The certificate of the proposal: the highest of those carried and the replica's own.\<close>

definition top_view :: "QuorumCert option \<Rightarrow> QuorumCert option set \<Rightarrow> bool" where
  "top_view qc Q \<longleftrightarrow> qc \<in> Q \<and>
     (\<forall>q. Some q \<in> Q \<longrightarrow> (\<exists>r. qc = Some r \<and> qc_ViewNumber q \<le> qc_ViewNumber r))"

lemma raised_top:
  "top_view (GenericQC (case highestViewQC ms of None \<Rightarrow> s | Some qc \<Rightarrow> raise_generic qc s))
     (insert (GenericQC s) (nv_GenericQc ` set ms))"
proof (cases "highestViewQC ms")
  case None
  then have "carried ms = {}" using highestViewQC_eq by blast
  then have "\<forall>q. Some q \<notin> nv_GenericQc ` set ms" by (simp add: carried_def)
  with None show ?thesis by (auto simp: top_view_def dest: sym [of "Some _"])
next
  case (Some qc)
  then have qc: "Some qc \<in> nv_GenericQc ` set ms"
    and hi: "\<And>q. Some q \<in> nv_GenericQc ` set ms \<Longrightarrow> qc_ViewNumber q \<le> qc_ViewNumber qc"
    using highestViewQC_eq [of ms] by (auto simp: carried_def)
  show ?thesis
  proof (cases "GenericQC s")
    case None
    then show ?thesis using Some qc hi by (auto simp: top_view_def raise_generic_def)
  next
    case own: (Some q)
    show ?thesis
    proof (cases "qc_ViewNumber q < qc_ViewNumber qc")
      case True
      then show ?thesis using Some own qc hi by (auto simp: top_view_def raise_generic_def)
    next
      case False
      then have "r \<le> qc_ViewNumber q" if "r \<le> qc_ViewNumber qc" for r using that by simp
      then show ?thesis using Some own False hi by (auto simp: top_view_def raise_generic_def)
    qed
  qed
qed

lemma new_views_propose:
  assumes "Latest (store (deliverer d)) = Inr mc" "\<forall>m \<in> set ms. nv_ViewNumber m = view"
    and "buffered (newViewBuf d) view = []" "int (length ms) = QuorumSize mc" "0 < QuorumSize mc"
    and "Replicas mc \<noteq> []" "length (Replicas mc) < 2 ^ 64"
  shows "\<exists>d' qc. handle_new_views env ms d = Inr d' \<and>
    outbox d' = outbox d @ [Broadcast mc (BlockMsg
      (new_block (blockchain env) (Number mc) (take 100 (ch_buf (requestQ d))) qc))] \<and>
    top_view qc (insert (GenericQC (safety d)) (nv_GenericQc ` set ms))"
proof -
  obtain us m where ms: "ms = us @ [m]" using assms(4,5) by (cases ms rule: rev_cases) auto
  have few: "int (length us) < QuorumSize mc" using assms(4) by (simp add: ms)
  have us: "\<forall>m \<in> set us. nv_ViewNumber m = view" and m: "nv_ViewNumber m = view"
    using assms(2) by (simp_all add: ms)
  from handle_new_views_collect [OF assms(1) us assms(3) few, of env] obtain e buf
    where e: "handle_new_views env us d = Inr e" "e = d\<lparr>newViewBuf := buf\<rparr>" "buffered buf view = us" by blast
  define sf where "sf = (case highestViewQC ms of None \<Rightarrow> safety d | Some qc \<Rightarrow> raise_generic qc (safety d))"
  let ?e = "e\<lparr>newViewBuf := buf(view := None), safety := sf\<rparr>"
  have "Latest (store (deliverer ?e)) = Inr mc" using assms(1) e(2) by simp
  from propose_defined [OF this assms(6,7)] obtain d'
    where d': "propose env (GenericQC sf) ?e = Inr d'" by blast
  have enough: "\<not> int (length (us @ [m])) < QuorumSize mc" using assms(4) by (simp add: ms)
  have "HandleNewView env m e = Inr d'"
    using d' assms(1) e(2,3) m enough
    by (cases "highestViewQC ms")
       (simp_all add: HandleNewView_def OnNewViewMessages_def Let_def sf_def ms)
  moreover have "outbox d' = outbox d @ [Broadcast mc (BlockMsg
      (new_block (blockchain env) (Number mc) (take 100 (ch_buf (requestQ d))) (GenericQC sf)))]"
    using d' by (rule propose_eq) (use assms(1) e(2) in simp)
  ultimately show ?thesis
    using e(1) raised_top [of "safety d" ms]
    by (intro exI [of _ d'] exI [of _ "GenericQC sf"]) (simp add: ms handle_new_views_append sf_def)
qed

text \<open>From the timeouts of a quorum to the proposal.\<close>

lemma timeouts_propose:
  assumes "wf_committee mc" "Replicas mc \<noteq> []" "length (Replicas mc) < 2 ^ 64"
    and "int (length V) = QuorumSize mc"
    and "\<forall>i \<in> set V. Latest (store (deliverer (D i))) = Inr mc \<and> vc_curView (vc (D i)) + 1 = view"
    and "Latest (store (deliverer d)) = Inr mc" "buffered (newViewBuf d) view = []"
  shows "\<exists>leader ms d' qc. Leader mc view = Inr leader \<and>
    (\<forall>i \<in> set V. \<exists>di. HandleTimeout (E i) False (D i) = Inr di \<and> curView di = view \<and>
       outbox di = outbox (D i) @ [SendTo (Addr leader) (ViewMsg (ms i))]) \<and>
    handle_new_views lead (map ms V) d = Inr d' \<and>
    outbox d' = outbox d @ [Broadcast mc (BlockMsg
      (new_block (blockchain lead) (Number mc) (take 100 (ch_buf (requestQ d))) qc))] \<and>
    top_view qc (insert (GenericQC (safety d)) ((\<lambda>i. GenericQC (safety (D i))) ` set V))"
proof -
  have q: "0 < QuorumSize mc" by (simp add: QuorumSize_wf [OF assms(1)])
  obtain leader where l: "Leader mc view = Inr leader" using Leader_Inr [OF assms(2,3)] by blast
  let ?ms = "\<lambda>i. view_change mc view (D i)"
  have "\<exists>di. HandleTimeout (E i) False (D i) = Inr di \<and> curView di = view \<and>
      outbox di = outbox (D i) @ [SendTo (Addr leader) (ViewMsg (?ms i))]" if "i \<in> set V" for i
    using HandleTimeout_sends [OF _ l assms(2,3), of "D i" "E i"] assms(5) that by blast
  moreover have "\<forall>m \<in> set (map ?ms V). nv_ViewNumber m = view" by (simp add: view_change_def)
  from new_views_propose [OF assms(6) this assms(7) _ q assms(2,3), of lead] assms(4)
  obtain d' qc where "handle_new_views lead (map ?ms V) d = Inr d'"
    "outbox d' = outbox d @ [Broadcast mc (BlockMsg
      (new_block (blockchain lead) (Number mc) (take 100 (ch_buf (requestQ d))) qc))]"
    "top_view qc (insert (GenericQC (safety d)) (nv_GenericQc ` set (map ?ms V)))" by auto
  moreover have "nv_GenericQc ` set (map ?ms V) = (\<lambda>i. GenericQC (safety (D i))) ` set V"
    by (simp add: image_image view_change_def)
  ultimately show ?thesis using l by (intro exI [of _ leader] exI [of _ ?ms]) auto
qed

end
