(* ===== verification/Overcount.thy ===== *)
theory Overcount
  imports Rounds
begin

section \<open>Reconfigurations that stop a committee\<close>

text \<open>
  \<open>Apply\<close> appends a replica for every ADD request, also for an identity that is a member already,
  and the fault bound and the quorum are computed from the number of entries. Votes are counted by
  identity: when members are added again often enough, no set of votes is a quorum any more. A batch
  that removes every member is accepted as well, and then nobody can lead.
\<close>

text \<open>A block of membership requests that is delivered installs what \<open>Apply\<close> makes of them.\<close>

lemma deliver_block_reconfigures:
  assumes "hashBlock (sha env) b \<notin> delivered (deliverer d)"
    and "AtNumber (store (deliverer d)) (ConfNumber b) = Inr c"
    and "\<forall>req \<in> set (Batch b). \<not> is_regular req" "Batch b \<noteq> []"
    and "snd (Deliver (sha env) (parsePKIX env) (execute env) b (deliverer d)) = None"
  shows "\<exists>mc. Apply (parsePKIX env) c (Batch b) = Inr mc \<and>
    configs (store (deliverer (deliver_block env b d))) = configs (store (deliverer d)) @ [mc] \<and>
    Latest (store (deliverer (deliver_block env b d))) = Inr mc"
proof -
  let ?D = "Deliver (sha env) (parsePKIX env) (execute env) b (deliverer d)"
  have all: "filter (\<lambda>r. \<not> is_regular r) (Batch b) = Batch b"
    using assms(3) by (simp add: filter_id_conv)
  have has: "HasMembershipRequests (Batch b)"
    using assms(3,4) by (cases "Batch b") (auto simp: HasMembershipRequests_iff)
  have "delivers (sha env) (parsePKIX env) (execute env) b (deliverer d) (fst ?D, None)"
    using Deliver_delivers [of "sha env" "parsePKIX env" "execute env" b "deliverer d"] assms(5)
    by (metis prod.collapse)
  then obtain mc cs where ap: "Apply (parsePKIX env) c (Batch b) = Inr mc"
    and inst: "Install (store (deliverer d)) mc = Inr cs" and st: "store (fst ?D) = cs"
    using assms(1,2) has by cases (use all in auto)
  have "configs cs = configs (store (deliverer d)) @ [mc]"
    using inst by (auto simp: Install_Inr_iff)
  then show ?thesis using ap st by (simp add: deliver_block_def Latest_def)
qed

subsection \<open>Members added again\<close>

lemma apply_loop_adds:
  "apply_loop p rs reqs = Inr rs' \<Longrightarrow> \<forall>req \<in> set reqs. rq_Type req = RequestType_ADD \<Longrightarrow>
   length rs' = length rs + length reqs"
  by (induction reqs arbitrary: rs)
     (auto simp: apply_one_def split: sum.splits option.splits ParsedKey.splits)

lemma members_after_readd:
  "\<forall>req \<in> set reqs. rq_Type req = RequestType_ADD \<and> rq_ClientId req \<in> S \<Longrightarrow> members_after S reqs = S"
  by (induction reqs) (auto simp: insert_absorb)

lemma quorum_size_outgrows:
  assumes "n < 2 * k"
  shows "n < quorum_size (n + k)"
proof -
  define f where "f = fault_bound (n + k)"
  have "n + k - 1 < 3 * f + 3"
    using dividend_less_div_times [of 3 "n + k - 1"] by (simp add: f_def fault_bound_def)
  then have "2 * n + 2 \<le> n + k + f + 2" using assms by linarith
  then have "n + 1 \<le> (n + k + f + 2) div 2" by linarith
  then show ?thesis by (simp add: quorum_size_def f_def)
qed

text \<open>Fewer identities than the quorum asks for.\<close>

definition overcounted :: "('pk, 'app) Env \<Rightarrow> ('pk, 'app) DHotStuff \<Rightarrow> bool" where
  "overcounted env d \<longleftrightarrow> replica_ok env d \<and> (\<exists>mc. Latest (store (deliverer d)) = Inr mc \<and>
     (\<forall>c \<in> set (configs (store (deliverer d))). set (ids c) \<subseteq> set (ids mc)) \<and>
     int (card (set (ids mc))) < QuorumSize mc)"

lemma overcounted_HandleVote:
  assumes "overcounted env d"
  shows "\<exists>d'. HandleVote env v d = Inr d' \<and> outbox d' = outbox d \<and> deliverer d' = deliverer d \<and>
    overcounted env d'"
proof -
  obtain mc where ok: "replica_ok env d" and mc: "Latest (store (deliverer d)) = Inr mc"
    and sub: "\<forall>c \<in> set (configs (store (deliverer d))). set (ids c) \<subseteq> set (ids mc)"
    and few: "int (card (set (ids mc))) < QuorumSize mc"
    using assms by (auto simp: overcounted_def)
  let ?vs = "AggregateVotes (buffered (votesBuf d) (vote_ViewNumber v)) v"
  have "\<not> HasQuorum ?vs mc" if "vote_verified env (configs (store (deliverer d))) v"
  proof -
    have "votes_ok env (configs (store (deliverer d))) (vote_ViewNumber v) ?vs"
      using votes_ok_buffered [OF ok] that by (intro votes_ok_Aggregate)
    then have "vote_SignerId w \<in> set (ids mc)" if "w \<in> set ?vs" for w
      using that sub ReplicaByID_None [of _ "vote_SignerId w"]
      unfolding votes_ok_def vote_verified_def by (metis option.distinct(1) subsetD)
    then have "signers ?vs \<subseteq> set (ids mc)" by (auto simp: signers_def)
    then have "card (signers ?vs) \<le> card (set (ids mc))" by (intro card_mono) simp_all
    with few show ?thesis using HasQuorum_iff [of mc ?vs] by linarith
  qed
  then have "\<exists>d'. HandleVote env v d = Inr d' \<and> outbox d' = outbox d \<and> deliverer d' = deliverer d"
    using mc Latest_in [OF mc]
    by (auto simp: HandleVote_def Let_def vote_verified_def split: option.split)
  then obtain d' where d': "HandleVote env v d = Inr d'" "outbox d' = outbox d" "deliverer d' = deliverer d" by blast
  have "overcounted env d'"
    using replica_ok_HandleVote [OF ok d'(1)] mc sub few d'(3) by (auto simp: overcounted_def)
  with d' show ?thesis by blast
qed

lemma overcounted_votes:
  "overcounted env d \<Longrightarrow> \<exists>d'. handle_votes env vs d = Inr d' \<and> outbox d' = outbox d \<and> deliverer d' = deliverer d"
proof (induction vs arbitrary: d)
  case (Cons v vs)
  obtain e where e: "HandleVote env v d = Inr e" "outbox e = outbox d" "deliverer e = deliverer d" "overcounted env e"
    using overcounted_HandleVote [OF Cons.prems] by blast
  from Cons.IH [OF e(4)] e show ?case by auto
qed simp

lemma readd_overcounts:
  assumes "replica_ok env d" "hashBlock (sha env) b \<notin> delivered (deliverer d)"
    and "AtNumber (store (deliverer d)) (ConfNumber b) = Inr c"
    and "\<forall>mc \<in> set (configs (store (deliverer d))). set (ids mc) \<subseteq> set (ids c)"
    and "\<forall>req \<in> set (Batch b). rq_Type req = RequestType_ADD \<and> rq_ClientId req \<in> set (ids c)"
    and "length (Replicas c) < 2 * length (Batch b)"
    and "snd (Deliver (sha env) (parsePKIX env) (execute env) b (deliverer d)) = None"
  shows "overcounted env (deliver_block env b d)"
proof -
  have "\<forall>req \<in> set (Batch b). \<not> is_regular req" "Batch b \<noteq> []" using assms(5,6) by auto
  from deliver_block_reconfigures [OF assms(2,3) this assms(7)] obtain mc'
    where ap: "Apply (parsePKIX env) c (Batch b) = Inr mc'"
    and cfg: "configs (store (deliverer (deliver_block env b d))) = configs (store (deliverer d)) @ [mc']"
    and latest: "Latest (store (deliverer (deliver_block env b d))) = Inr mc'" by blast
  have ids: "set (ids mc') = set (ids c)"
    using Apply_members [OF ap] members_after_readd [of "Batch b" "set (ids c)"] assms(5) by simp
  have "length (Replicas mc') = length (Replicas c) + length (Batch b)"
    using ap assms(5) apply_loop_adds by (fastforce simp: Apply_Inr)
  then have "length (Replicas c) < quorum_size (length (Replicas mc'))"
    using quorum_size_outgrows [OF assms(6)] by simp
  moreover have "card (set (ids c)) \<le> length (Replicas c)"
    using card_length [of "ids c"] by (simp add: ids_def)
  ultimately have "int (card (set (ids mc'))) < QuorumSize mc'"
    by (simp add: QuorumSize_wf [OF wf_Apply [OF ap]] ids)
  moreover have "replica_ok env (deliver_block env b d)"
    using assms(1) by (rule replica_ok_grows) (auto simp: deliver_block_def grows_Deliver)
  ultimately show ?thesis using assms(4) ids cfg latest by (auto simp: overcounted_def)
qed

subsection \<open>Members removed\<close>

lemma empty_committee_timeout_panics:
  assumes "Latest (store (deliverer d)) = Inr mc" "Replicas mc = []"
  shows "isl (HandleTimeout env cx d)"
proof (cases "repStore d")
  case None
  then show ?thesis using assms
    by (simp add: HandleTimeout_def timeout_begin_def timeout_change_def OnTimeout_def Leader_def Let_def)
next
  case (Some s)
  then show ?thesis using assms
    by (simp add: HandleTimeout_def timeout_begin_def selectLeader_def Select_def leader_deref_def)
qed

text \<open>After a block that removes every member, the next timeout of a replica crashes it.\<close>

lemma removed_members_panic:
  assumes "hashBlock (sha env) b \<notin> delivered (deliverer d)"
    and "AtNumber (store (deliverer d)) (ConfNumber b) = Inr c"
    and "\<forall>req \<in> set (Batch b). rq_Type req = RequestType_REMOVE" "Batch b \<noteq> []"
    and "set (ids c) \<subseteq> rq_ClientId ` set (Batch b)"
    and "snd (Deliver (sha env) (parsePKIX env) (execute env) b (deliverer d)) = None"
  shows "isl (HandleTimeout env cx (deliver_block env b d))"
proof -
  have "\<forall>req \<in> set (Batch b). \<not> is_regular req" using assms(3) by simp
  from deliver_block_reconfigures [OF assms(1,2) this assms(4,6)] obtain mc
    where ap: "Apply (parsePKIX env) c (Batch b) = Inr mc"
    and latest: "Latest (store (deliverer (deliver_block env b d))) = Inr mc" by blast
  have "members_after S reqs = S - rq_ClientId ` set reqs"
    if "\<forall>req \<in> set reqs. rq_Type req = RequestType_REMOVE" for S reqs
    using that by (induction reqs arbitrary: S) auto
  with Apply_members [OF ap] assms(3,5) have "set (ids mc) = {}" by auto
  then have "Replicas mc = []" by (simp add: ids_def)
  then show ?thesis by (rule empty_committee_timeout_panics [OF latest])
qed

end
