(* ===== verification/System_Properties.thy ===== *)
theory System_Properties
  imports Solo Batches Forks ViewRounds Overcount
begin

section \<open>Properties of replicas on one chain and of whole systems\<close>

text \<open>
  What the handlers do together: which blocks a replica executes when its proposals form a chain,
  what replicas on one chain agree on, what stands behind the certificates of a system with
  faulty members, and that a round in which a quorum votes leads to the next proposal, and so
  does one in which a quorum times out. The witnesses run two chains and the committee of one.
\<close>

subsection \<open>Chains\<close>

lemma hd_links: "hd links = sample_block [] 0 None [tx, join]"
  by (simp add: links_def chain_of_def upt_rec sample_block_def)

lemma link_first: "ConfNumber (hd links) = 0"
  by (simp add: hd_links)

text \<open>C6: a replica that handles a chain of proposals, each certified by its successor, with votes,
  view changes, requests and timeouts in between in any order, has delivered exactly what handing
  all but the last three blocks in order to a deliverer gives; and it can always handle the next
  proposal of the chain. A proposal may belong to any configuration that the blocks delivered
  before it have installed: in the witness the first of five blocks adds a member and the last
  belongs to the enlarged committee.\<close>

theorem replica_executes_chain:
  assumes "proposals env bs s t" "chain_ready env (deliverer (node s)) bs"
    and "pipeline (node s) = empty_pipeline"
  shows "deliverer (node t) = fst (delivery env (take (length bs - 3) bs) (deliverer (node s))) \<and>
    (\<forall>b. chain_ready env (deliverer (node s)) (bs @ [b]) \<longrightarrow> (\<exists>d. HandlePropose env b (node t) = Inr d))"
  using proposals_chain [OF assms] proposals_progress [OF assms(1) _ assms(3)] by blast

theorem replica_executes_chain_witness:
  "\<exists>t. proposals link_env links (start sample_node) t \<and> executed (deliverer (node t)) = [tx] \<and>
     map (\<lambda>c. length (Replicas c)) (configs (store (deliverer (node t)))) = [4, 5]"
proof -
  have r: "chain_ready link_env (deliverer (node (start sample_node))) links"
    "pipeline (node (start sample_node)) = empty_pipeline"
    using links_ready by simp_all
  have len: "length links - 3 = 2" by (simp add: links_def chain_of_def)
  from proposals_exist [where s = "start sample_node", OF r] obtain t
    where t: "proposals link_env links (start sample_node) t" by blast
  from replica_executes_chain [OF t r]
  have "deliverer (node t) = fst (plain_delivery (take 2 links) (deliverer sample_node))"
    by (simp add: len)
  with t show ?thesis using link_delivery(2,4) by auto
qed

text \<open>Two replicas that start alike and follow one chain, the second possibly further along it,
  with whatever else each of them handles in between: the configurations and the executed requests
  of the first are prefixes of those of the second, and equally far on they are the same.\<close>

lemma replicas_agree_on_chain:
  assumes "proposals env bs s t" "proposals env' (bs @ cs) s' t'"
    and "chain_ready env (deliverer (node s)) bs" "chain_ready env' (deliverer (node s')) (bs @ cs)"
    and "pipeline (node s) = empty_pipeline" "pipeline (node s') = empty_pipeline"
    and "deliverer (node s) = deliverer (node s')"
    and "sha env = sha env'" "parsePKIX env = parsePKIX env'" "execute env = execute env'"
  shows "prefix (configs (store (deliverer (node t)))) (configs (store (deliverer (node t')))) \<and>
    prefix (executed (deliverer (node t))) (executed (deliverer (node t'))) \<and>
    (cs = [] \<longrightarrow> deliverer (node t) = deliverer (node t'))"
  using chain_agreement [OF assms] by (simp add: grows_def)

lemma replicas_agree_on_chain_witness:
  "\<exists>t t'. proposals link_env (butlast links) (start sample_node) t \<and>
     proposals link_env links (start (sample_node\<lparr>myID := ''B''\<rparr>)) t' \<and>
     prefix (executed (deliverer (node t))) (executed (deliverer (node t')))"
proof -
  let ?s = "start sample_node" and ?s' = "start (sample_node\<lparr>myID := ''B''\<rparr>)"
  have "links \<noteq> []" by (simp add: links_def chain_of_def)
  then have split: "butlast links @ [last links] = links" by simp
  have r': "chain_ready link_env (deliverer (node ?s')) (butlast links @ [last links])"
    using links_ready by (simp add: split)
  have r: "chain_ready link_env (deliverer (node ?s)) (butlast links)"
    using chain_ready_butlast [OF r'] by simp
  have e: "pipeline (node ?s) = empty_pipeline" "pipeline (node ?s') = empty_pipeline"
    "deliverer (node ?s) = deliverer (node ?s')" by simp_all
  obtain t t' where t: "proposals link_env (butlast links) ?s t"
    "proposals link_env (butlast links @ [last links]) ?s' t'"
    using proposals_exist [where s = ?s, OF r e(1)] proposals_exist [where s = ?s', OF r' e(2)] by blast
  from replicas_agree_on_chain [OF t r r' e refl refl refl] t show ?thesis unfolding split by blast
qed





subsection \<open>Messages\<close>

text \<open>C18: whatever a replica that \<open>NewDHotStuff\<close> built sends, in any run: blocks go to a committee
  it has installed, name it, have the certified block as parent and at most 100 requests; votes
  name the replica itself, go to a member of an installed committee and carry its signature of
  the block hash; view changes go to the leader of the view they name.\<close>

theorem sent_messages_well_formed:
  assumes "runs env (start (NewDHotStuff i (NewConfigStore g heap) a n rep)) t"
    and "act \<in> set (outbox (node t))"
  shows "action_ok env (configs (store (deliverer (node t)))) i act"
proof -
  have "outbox_ok env (node t)" by (rule runs_outbox_ok [OF assms(1)]) (simp add: outbox_ok_def)
  then show ?thesis using assms runs_myID [OF assms(1)] by (simp add: outbox_ok_def)
qed

theorem sent_messages_well_formed_witness:
  "\<exists>t. runs solo_env (start solo_node) t \<and> length (outbox (node t)) = 4 \<and>
     list_all (action_ok solo_env (configs (store (deliverer (node t)))) ''A'') (outbox (node t))"
proof -
  obtain S where S: "net_runs (\<lambda>_. solo_env) {''A''} {} solo_start S" "node (S ''A'') = certified_state"
    using solo_certifies by blast
  have r: "runs solo_env (start (NewDHotStuff ''A'' (NewConfigStore solo (\<lambda>_. make_chan 1)) 0 8 None)) (S ''A'')"
    using net_runs_local [OF S(1), of "''A''"] by (simp only: solo_node_def)
  have "action_ok solo_env (configs (store (deliverer (node (S ''A''))))) ''A'' act"
    if "act \<in> set (outbox (node (S ''A'')))" for act
    by (rule sent_messages_well_formed [OF r that])
  then show ?thesis
    using net_runs_local [OF S(1), of "''A''"] S(2) solo_outboxes(4)
    by (intro exI [of _ "S ''A''"]) (simp add: list_all_iff)
qed

subsection \<open>Certificates\<close>



text \<open>C9: when the network only carries messages of correct replicas, every certificate in a message
  of a reachable state has distinct correct signers, as many as a quorum of a committee that some
  replica installed, and each signer sent its vote for the view, with that signature.\<close>

theorem certificates_are_genuine:
  assumes "initial P S0" "net_runs E P {} S0 S" "m \<in> sent P S" "carries m qc"
  shows "distinct (qc_SignerIds qc) \<and> set (qc_SignerIds qc) \<subseteq> P \<and>
    length (qc_Signatures qc) = length (qc_SignerIds qc) \<and>
    (\<exists>k \<in> P. \<exists>mc \<in> set (configs (store (deliverer (node (S k))))).
       int (length (qc_SignerIds qc)) = QuorumSize mc) \<and>
    (\<forall>(x, sig) \<in> set (zip (qc_SignerIds qc) (qc_Signatures qc)).
       \<exists>w. sends (S x) (Vote w) \<and> vote_SignerId w = x \<and> vote_Signature w = sig \<and>
         vote_ViewNumber w = qc_ViewNumber qc)"
proof -
  obtain j where "j \<in> P" "holds (node (S j)) qc" using sent_holds [OF assms(3,4)] by blast
  from reachable_genuine [OF assms(2,1) this] have g: "genuine P S qc" .
  then have "backed P {} S qc" by (simp add: genuine_def)
  then have "\<forall>(x, sig) \<in> set (zip (qc_SignerIds qc) (qc_Signatures qc)).
       \<exists>w. sends (S x) (Vote w) \<and> vote_SignerId w = x \<and> vote_Signature w = sig \<and>
         vote_ViewNumber w = qc_ViewNumber qc"
    unfolding backed_def origin_def by fastforce
  with g show ?thesis unfolding genuine_def backed_def by blast
qed

theorem certificates_are_genuine_witness:
  "\<exists>S m qc. net_runs (\<lambda>_. solo_env) {''A''} {} solo_start S \<and> m \<in> sent {''A''} S \<and> carries m qc \<and>
     set (qc_SignerIds qc) \<subseteq> {''A''}"
proof -
  obtain S where S: "net_runs (\<lambda>_. solo_env) {''A''} {} solo_start S" "node (S ''A'') = certified_state"
    using solo_certifies by blast
  obtain qc where qc: "carries (last_message certified_state) qc"
    using solo_messages(2) by (cases "last_message certified_state") auto
  have "outbox certified_state \<noteq> []" using solo_outboxes(4) by auto
  then have m: "last_message certified_state \<in> sent {''A''} S"
    using S(2) by (auto simp: sent_def sends_def last_message_def)
  from certificates_are_genuine [OF solo_initial S(1) m qc] S(1) m qc show ?thesis by blast
qed

subsection \<open>Rounds\<close>

text \<open>A quorum of distinct members that accept a block in the view its configuration number names
  vote for it when they handle it; and a replica that handles these votes moves to the next view
  and broadcasts a block certified by exactly them, with its oldest requests.\<close>

lemma quorum_advances_round:
  assumes "wf_committee mc" "Replicas mc \<noteq> []" "length (Replicas mc) < 2 ^ 64" "ConfNumber b \<le> Number mc"
    and "distinct V" "int (length V) = QuorumSize mc"
    and "\<forall>i \<in> set V. voter lead (E i) mc b i (D i)"
    and "Latest (store (deliverer d)) = Inr mc" "buffered (votesBuf d) (ConfNumber b) = []"
  shows "\<exists>vs d' qc.
    (\<forall>i \<in> set V. \<exists>di addr. HandlePropose (E i) b (D i) = Inr di \<and>
       outbox di = outbox (D i) @ [SendTo addr (Vote (vs i))]) \<and>
    handle_votes lead (map vs V) d = Inr d' \<and>
    outbox d' = outbox d @ [Broadcast mc (BlockMsg
      (new_block (blockchain lead) (Number mc) (take 100 (ch_buf (requestQ d))) (Some qc)))] \<and>
    qc_SignerIds qc = V \<and> qc_BlockHash qc = hashBlock (sha lead) b \<and> curView d' = curView d + 1"
  using assms by (rule round_advances)

lemma quorum_advances_round_witness:
  "\<exists>vs d' (qc :: QuorumCert). handle_votes link_env (map vs [''A'', ''B'', ''C'']) sample_node = Inr d' \<and>
     outbox d' = [Broadcast four (BlockMsg (new_block (blockchain link_env) 0 [] (Some qc)))] \<and>
     qc_SignerIds qc = [''A'', ''B'', ''C''] \<and> curView d' = 1"
proof -
  have "voter link_env link_env four (hd links) i (sample_node\<lparr>myID := i\<rparr>)" if "i \<in> set [''A'', ''B'', ''C'']" for i
    using that
    by (auto simp: voter_def link_env_def hd_links SafeNode_def ReplicaByID_def sample_sign_def
        Verify_def go_simps Let_def)
  then have v: "\<forall>i \<in> set [''A'', ''B'', ''C'']. voter link_env link_env four (hd links) i (sample_node\<lparr>myID := i\<rparr>)"
    by blast
  have "buffered (votesBuf sample_node) (ConfNumber (hd links)) = []" by (simp add: buffered_def)
  moreover have "wf_committee four" using four_valid by (simp add: committee_valid_def)
  ultimately have r: "\<exists>vs d' qc.
    (\<forall>i \<in> set [''A'', ''B'', ''C'']. \<exists>di addr. HandlePropose link_env (hd links) (sample_node\<lparr>myID := i\<rparr>) = Inr di \<and>
       outbox di = outbox (sample_node\<lparr>myID := i\<rparr>) @ [SendTo addr (Vote (vs i))]) \<and>
    handle_votes link_env (map vs [''A'', ''B'', ''C'']) sample_node = Inr d' \<and>
    outbox d' = outbox sample_node @ [Broadcast four (BlockMsg
      (new_block (blockchain link_env) (Number four) (take 100 (ch_buf (requestQ sample_node))) (Some qc)))] \<and>
    qc_SignerIds qc = [''A'', ''B'', ''C''] \<and> qc_BlockHash qc = hashBlock (sha link_env) (hd links) \<and>
    curView d' = curView sample_node + 1"
    by (intro quorum_advances_round [OF _ _ _ _ _ _ v]) (simp_all add: link_first)
  have "curView sample_node + 1 = 1" "outbox sample_node @ xs = xs" "Number four = 0"
    "take 100 (ch_buf (requestQ sample_node)) = []" for xs by (simp_all add: make_chan_def)
  from r [unfolded this] show ?thesis
    by (elim exE conjE) (rule exI, rule exI, rule exI, intro conjI, assumption+)
qed



text \<open>C16: a quorum of timeouts brings a proposal. Each replica that times out in the view before
  sends the leader of the next view its highest certificate, and a replica that handles these
  messages, in any order, broadcasts a block justified by the highest certificate among them and
  its own.\<close>

theorem timeouts_bring_proposal:
  assumes "wf_committee mc" "Replicas mc \<noteq> []" "length (Replicas mc) < 2 ^ 64"
    and "int (length V) = QuorumSize mc"
    and "\<forall>i \<in> set V. Latest (store (deliverer (D i))) = Inr mc \<and> vc_curView (vc (D i)) + 1 = view"
    and "Latest (store (deliverer d)) = Inr mc" "buffered (newViewBuf d) view = []"
  shows "\<exists>leader ms d' qc. Leader mc view = Inr leader \<and>
    (\<forall>i \<in> set V. \<exists>di. HandleTimeout (E i) False (D i) = Inr di \<and> curView di = view \<and>
       outbox di = outbox (D i) @ [SendTo (Addr leader) (ViewMsg (ms i))]) \<and>
    handle_new_views lead (map ms V) d = Inr d' \<and>
    outbox d' = outbox d @ [Broadcast mc (BlockMsg
      (new_block (blockchain lead) (Number mc) (take 100 (ch_buf (requestQ d))) qc))] \<and>
    top_view qc (insert (GenericQC (safety d)) ((\<lambda>i. GenericQC (safety (D i))) ` set V))"
  using assms by (rule timeouts_propose)

theorem timeouts_bring_proposal_witness:
  "\<exists>ms d'. handle_new_views link_env (map ms [''A'', ''B'', ''C'']) sample_node = Inr d' \<and>
     outbox d' = [Broadcast four (BlockMsg (new_block (blockchain link_env) 0 []
       (Some (sample_qc [''A'', ''B'', ''C''] (link_hash [] 0)))))]"
proof -
  define D where "D i = sample_node\<lparr>myID := i, safety := (safety sample_node)\<lparr>GenericQC :=
    (if i = ''B'' then Some (sample_qc [''A'', ''B'', ''C''] (link_hash [] 0)) else None)\<rparr>\<rparr>" for i
  have D: "\<forall>i \<in> set [''A'', ''B'', ''C'']. Latest (store (deliverer (D i))) = Inr four \<and> vc_curView (vc (D i)) + 1 = 1"
    by (simp add: D_def)
  have wf: "wf_committee four" using four_valid by (simp add: committee_valid_def)
  from timeouts_bring_proposal [OF wf _ _ _ D, of sample_node "\<lambda>_. link_env" link_env]
  obtain ms d' qc where r: "handle_new_views link_env (map ms [''A'', ''B'', ''C'']) sample_node = Inr d'"
    "outbox d' = outbox sample_node @ [Broadcast four (BlockMsg
      (new_block (blockchain link_env) (Number four) (take 100 (ch_buf (requestQ sample_node))) qc))]"
    "top_view qc (insert (GenericQC (safety sample_node)) ((\<lambda>i. GenericQC (safety (D i))) ` set [''A'', ''B'', ''C'']))"
    by (auto simp: buffered_def)
  have "qc = Some (sample_qc [''A'', ''B'', ''C''] (link_hash [] 0))"
    using r(3) by (auto simp: top_view_def D_def)
  with r(1,2) show ?thesis by (intro exI [of _ ms] exI [of _ d']) (simp add: make_chan_def)
qed

text \<open>C17: re-added members stop the protocol. After a block that adds members of the committee again,
  more than half as many entries as it has, the quorum is larger than the number of members: no
  votes in any number bring a proposal about any more, since nobody is counted twice. In the
  witness three ADD requests for one member of four are enough.\<close>

theorem readded_members_stop_votes:
  assumes "replica_ok env d" "hashBlock (sha env) b \<notin> delivered (deliverer d)"
    and "AtNumber (store (deliverer d)) (ConfNumber b) = Inr c"
    and "\<forall>mc \<in> set (configs (store (deliverer d))). set (ids mc) \<subseteq> set (ids c)"
    and "\<forall>req \<in> set (Batch b). rq_Type req = RequestType_ADD \<and> rq_ClientId req \<in> set (ids c)"
    and "length (Replicas c) < 2 * length (Batch b)"
    and "snd (Deliver (sha env) (parsePKIX env) (execute env) b (deliverer d)) = None"
  shows "\<exists>d'. handle_votes env vs (deliver_block env b d) = Inr d' \<and> outbox d' = outbox d"
  using overcounted_votes [OF readd_overcounts [OF assms], of vs] by (auto simp: deliver_block_def)

theorem readded_members_stop_votes_witness:
  "\<forall>vs. \<exists>d'. handle_votes link_env vs (deliver_block link_env
       (sample_block [] 0 None (replicate 3 (request RequestType_ADD ''A'' [65]))) sample_node) = Inr d' \<and>
     outbox d' = []"
proof
  fix vs
  let ?b = "sample_block [] 0 None (replicate 3 (request RequestType_ADD ''A'' [65]))"
  have "\<exists>d'. handle_votes link_env vs (deliver_block link_env ?b sample_node) = Inr d' \<and>
      outbox d' = outbox sample_node"
    by (rule readded_members_stop_votes [where c = four])
       (simp_all add: numeral_3_eq_3 AtNumber_def Deliver_def ClassifyBatch_eq Apply_def Clone_def Let_def
         apply_one_def name_parse_def Install_def)
  then show "\<exists>d'. handle_votes link_env vs (deliver_block link_env ?b sample_node) = Inr d' \<and> outbox d' = []"
    by simp
qed

text \<open>Removing all four members crashes a replica at its next timeout.\<close>

lemma removed_members_panic_instance:
  "isl (HandleTimeout link_env False (deliver_block link_env
     (sample_block [] 0 None (map (\<lambda>i. request RequestType_REMOVE i []) [''A'', ''B'', ''C'', ''D''])) sample_node))"
  by (rule removed_members_panic [where c = four])
     (simp_all add: AtNumber_def Deliver_def ClassifyBatch_eq Apply_def Clone_def Let_def apply_one_def Install_def)

end
