(* ===== verification/Keygen.thy ===== *)
theory Keygen
  imports GoText Signer
begin

section \<open>The key generator\<close>

text \<open>
  \<^verbatim>\<open>cmd/keygen/main.go\<close>. The environment stands for what the command calls: the key generation of
  \<^verbatim>\<open>crypto/ecdsa\<close> (one answer per call), the marshalling of \<^verbatim>\<open>crypto/x509\<close>, and the operating
  system, which creates the directory and writes files or fails. The state is what the command
  changes: the files with their modes, the buffered snippet and the standard output. Log lines
  are left out. \<open>int\<close> is a signed 64-bit word, so the loop counter wraps around.
\<close>

subsection \<open>Environment, state and errors\<close>

type_synonym i64 = "64 word"
type_synonym file_mode = "32 word"

text \<open>A failing write leaves the file as it was, or truncated with the first bytes written.\<close>

datatype write_outcome = Written | NotOpened | ShortWrite nat

record ('pk, 'sk) keygen_env =
  GenerateKey :: "nat \<Rightarrow> 'sk option"
  PublicKeyOf :: "'sk \<Rightarrow> 'pk"
  MarshalPKCS8 :: "'sk \<Rightarrow> bytes option"
  MarshalPublic :: "'pk \<Rightarrow> bytes option"
  MkdirAll :: "string \<Rightarrow> bool"
  writeOutcome :: "string \<Rightarrow> write_outcome"
  umask :: file_mode
  quoteUnicode :: "string \<Rightarrow> string"

record keygen_state =
  kg_files :: "string \<Rightarrow> (bytes \<times> file_mode) option"
  kg_sb :: string
  kg_stdout :: string

datatype keygen_error =
    BadCount
  | CreateDirectory string
  | GenerateKeyFailed string
  | MarshalPrivateFailed string
  | WriteKeyFile string string
  | MarshalPublicFailed string

definition text_bytes :: "string \<Rightarrow> bytes" where
  "text_bytes s = map of_char s"

text \<open>\<open>os.WriteFile\<close>: an existing file keeps its mode, a new one gets it without the umask bits.\<close>

definition WriteFile :: "('pk, 'sk) keygen_env \<Rightarrow> string \<Rightarrow> bytes \<Rightarrow> file_mode \<Rightarrow> keygen_state
    \<Rightarrow> bool \<times> keygen_state" where
  "WriteFile E path content perm s =
     (let mode = (case kg_files s path of Some f \<Rightarrow> snd f | None \<Rightarrow> and perm (not (umask E)));
          put = (\<lambda>bs. s\<lparr>kg_files := (kg_files s)(path \<mapsto> (bs, mode))\<rparr>)
      in case writeOutcome E path of
           Written \<Rightarrow> (True, put content)
         | ShortWrite k \<Rightarrow> (False, put (take k content))
         | NotOpened \<Rightarrow> (False, s))"

definition print_sb :: "string \<Rightarrow> keygen_state \<Rightarrow> keygen_state" where
  "print_sb t s = s\<lparr>kg_sb := kg_sb s @ t\<rparr>"

subsection \<open>The snippet\<close>

definition snippet_header :: string where
  "snippet_header =
     ''# genesis.toml '' @ [CHR 0xE2, CHR 0x80, CHR 0x94]
     @ '' paste the section below into config/genesis.toml'' @ [newline]
     @ ''[committee]'' @ [newline] @ ''config_number = 0'' @ [newline] @ [newline]"

definition key_id :: "string \<Rightarrow> i64 \<Rightarrow> string" where
  "key_id pre i = pre @ itoa (sint i)"

definition key_path :: "string \<Rightarrow> string \<Rightarrow> string" where
  "key_path out ident = join_path out (ident @ ''.key'')"

definition replica_address :: "i64 \<Rightarrow> string" where
  "replica_address i = ''127.0.0.1:800'' @ itoa (sint i)"

definition replica_block :: "(string \<Rightarrow> string) \<Rightarrow> string \<Rightarrow> i64 \<Rightarrow> string \<Rightarrow> string" where
  "replica_block uni ident i pubB64 =
     ''[[replicas]]'' @ [newline]
     @ ''id      = '' @ go_quote uni ident @ [newline]
     @ ''address = '' @ [CHR 0x22] @ replica_address i @ [CHR 0x22] @ [newline]
     @ ''pubkey  = '' @ go_quote uni pubB64 @ [newline] @ [newline]"

subsection \<open>The command\<close>

text \<open>One round of the loop: the error that ends the command, or none, and the state it leaves.\<close>

definition generate_one :: "('pk, 'sk) keygen_env \<Rightarrow> string \<Rightarrow> string \<Rightarrow> i64 \<Rightarrow> keygen_state
    \<Rightarrow> keygen_error option \<times> keygen_state" where
  "generate_one E out pre i s =
     (let ident = key_id pre i in
      case GenerateKey E (unat i) of
        None \<Rightarrow> (Some (GenerateKeyFailed ident), s)
      | Some privKey \<Rightarrow>
          (case MarshalPKCS8 E privKey of
             None \<Rightarrow> (Some (MarshalPrivateFailed ident), s)
           | Some privDER \<Rightarrow>
               (let privPEM = text_bytes (pem_text ''PRIVATE KEY'' privDER);
                    keyPath = key_path out ident;
                    w = WriteFile E keyPath privPEM 0x180 s
                in if \<not> fst w then (Some (WriteKeyFile ident keyPath), snd w)
                   else (case MarshalPublic E (PublicKeyOf E privKey) of
                           None \<Rightarrow> (Some (MarshalPublicFailed ident), snd w)
                         | Some pubDER \<Rightarrow>
                             (None, print_sb (replica_block (quoteUnicode E) ident i (base64 pubDER))
                                      (snd w))))))"

text \<open>\<open>for i := 1; i <= *n; i++\<close>: the counter is incremented after the largest count too.\<close>

partial_function (option) keygen_loop :: "('pk, 'sk) keygen_env \<Rightarrow> string \<Rightarrow> string \<Rightarrow> i64 \<Rightarrow> i64
    \<Rightarrow> keygen_state \<Rightarrow> (keygen_error option \<times> keygen_state) option" where
  "keygen_loop E out pre n i s =
     (if i <=s n then
        (case generate_one E out pre i s of
           (Some e, s') \<Rightarrow> Some (Some e, s')
         | (None, s') \<Rightarrow> keygen_loop E out pre n (i + 1) s')
      else Some (None, s))"

declare keygen_loop.simps [code]

definition keygen_main :: "('pk, 'sk) keygen_env \<Rightarrow> i64 \<Rightarrow> string \<Rightarrow> string \<Rightarrow> keygen_state
    \<Rightarrow> (keygen_error option \<times> keygen_state) option" where
  "keygen_main E n out pre s =
     (if n <s 1 then Some (Some BadCount, s)
      else if \<not> MkdirAll E out then Some (Some (CreateDirectory out), s)
      else (case keygen_loop E out pre n 1 (s\<lparr>kg_sb := snippet_header\<rparr>) of
              None \<Rightarrow> None
            | Some (Some e, s') \<Rightarrow> Some (Some e, s')
            | Some (None, s') \<Rightarrow> Some (None, s'\<lparr>kg_stdout := kg_stdout s' @ kg_sb s'\<rparr>)))"

subsection \<open>One round\<close>

lemma WriteFile_other: "q \<noteq> path \<Longrightarrow> kg_files (snd (WriteFile E path bs m s)) q = kg_files s q"
  by (simp add: WriteFile_def Let_def split: write_outcome.split)

lemma WriteFile_written:
  "fst (WriteFile E path bs m s) \<Longrightarrow>
   \<exists>mode. kg_files (snd (WriteFile E path bs m s)) path = Some (bs, mode) \<and>
     (kg_files s path = None \<longrightarrow> mode = and m (not (umask E)))"
  by (auto simp: WriteFile_def Let_def split: write_outcome.splits option.splits)

lemma WriteFile_frame [simp]:
  "kg_sb (snd (WriteFile E path bs m s)) = kg_sb s"
  "kg_stdout (snd (WriteFile E path bs m s)) = kg_stdout s"
  by (simp_all add: WriteFile_def Let_def split: write_outcome.split)

lemma print_sb_frame [simp]:
  "kg_files (print_sb t s) = kg_files s" "kg_stdout (print_sb t s) = kg_stdout s"
  "kg_sb (print_sb t s) = kg_sb s @ t"
  by (simp_all add: print_sb_def)

lemma generate_one_stdout: "generate_one E out pre i s = (r, s') \<Longrightarrow> kg_stdout s' = kg_stdout s"
  by (auto simp: generate_one_def Let_def split: option.splits if_splits)

lemma generate_one_other:
  "generate_one E out pre i s = (r, s') \<Longrightarrow> q \<noteq> key_path out (key_id pre i) \<Longrightarrow>
   kg_files s' q = kg_files s q"
  by (auto simp: generate_one_def Let_def WriteFile_other split: option.splits if_splits)

text \<open>What a round that goes through has done.\<close>

definition key_written :: "('pk, 'sk) keygen_env \<Rightarrow> string \<Rightarrow> string \<Rightarrow> i64 \<Rightarrow> keygen_state \<Rightarrow> bool" where
  "key_written E out pre i s \<longleftrightarrow>
     (case GenerateKey E (unat i) of None \<Rightarrow> False
      | Some k \<Rightarrow>
          (case MarshalPKCS8 E k of None \<Rightarrow> False
           | Some der \<Rightarrow>
               map_option fst (kg_files s (key_path out (key_id pre i)))
                 = Some (text_bytes (pem_text ''PRIVATE KEY'' der))))"

lemma key_written_cong:
  "kg_files s (key_path out (key_id pre i)) = kg_files t (key_path out (key_id pre i)) \<Longrightarrow>
   key_written E out pre i s = key_written E out pre i t"
  by (simp only: key_written_def)

definition printed_block :: "('pk, 'sk) keygen_env \<Rightarrow> string \<Rightarrow> i64 \<Rightarrow> string" where
  "printed_block E pre i =
     (case GenerateKey E (unat i) of None \<Rightarrow> []
      | Some k \<Rightarrow>
          (case MarshalPublic E (PublicKeyOf E k) of None \<Rightarrow> []
           | Some der \<Rightarrow> replica_block (quoteUnicode E) (key_id pre i) i (base64 der)))"

lemma generate_one_done:
  assumes "generate_one E out pre i s = (None, s')"
  shows "key_written E out pre i s'" "kg_sb s' = kg_sb s @ printed_block E pre i"
    "\<exists>k der. GenerateKey E (unat i) = Some k \<and> MarshalPublic E (PublicKeyOf E k) = Some der"
  using assms WriteFile_written [of E]
  by (fastforce simp: generate_one_def key_written_def printed_block_def Let_def
      split: option.splits if_splits)+

lemma generate_one_mode:
  assumes "generate_one E out pre i s = (None, s')" "kg_files s (key_path out (key_id pre i)) = None"
  shows "\<exists>bs. kg_files s' (key_path out (key_id pre i)) = Some (bs, and 0x180 (not (umask E)))"
  using assms WriteFile_written [of E]
  by (fastforce simp: generate_one_def Let_def split: option.splits if_splits)

subsection \<open>The loop\<close>

lemma sint_range: "- (2 ^ 63) \<le> sint (i :: i64)" "sint (i :: i64) < 2 ^ 63"
  using sint_greater_eq [of i] sint_less [of i] by simp_all

lemma counter_up: "i <s n \<Longrightarrow> sint (i + 1) = sint (i :: i64) + 1"
proof -
  assume "i <s n"
  then have "sint i + 1 < 2 ^ 63" using sint_range(2) [of n] by (simp add: word_sless_alt)
  moreover have "- (2 ^ 63) \<le> sint i + 1" using sint_range(1) [of i] by simp
  ultimately show ?thesis by (simp add: sint_word_ariths signed_take_bit_int_eq_self)
qed

definition max_int :: i64 where "max_int = 0x7FFFFFFFFFFFFFFF"

lemma sint_max_int [simp]: "sint max_int = 2 ^ 63 - 1"
  by (simp add: max_int_def)

lemma below_max: "n \<noteq> max_int \<Longrightarrow> sint n < 2 ^ 63 - 1"
  using sint_range(2) [of n] sint_max_int by (metis linorder_neqE_linordered_idom signed_word_eqI zle_diff1_eq not_less)

text \<open>The counter moves towards any count but the largest.\<close>

lemma loop_returns:
  assumes "n \<noteq> max_int"
  shows "\<exists>r. keygen_loop E out pre n i s = Some r"
proof (induction "nat (sint n + 1 - sint i)" arbitrary: i s rule: less_induct)
  case less
  show ?case
  proof (cases "i <=s n")
    case False
    then show ?thesis by (simp add: keygen_loop.simps [of E out pre n i])
  next
    case True
    obtain e s' where g: "generate_one E out pre i s = (e, s')" by force
    show ?thesis
    proof (cases e)
      case (Some err)
      with True g show ?thesis by (simp add: keygen_loop.simps [of E out pre n i])
    next
      case None
      have le: "sint i \<le> sint n" using True by (simp add: word_sle_eq)
      then have "i <s max_int" using below_max [OF assms] by (simp add: word_sless_alt)
      then have "sint (i + 1) = sint i + 1" by (rule counter_up)
      with le have "nat (sint n + 1 - sint (i + 1)) < nat (sint n + 1 - sint i)" by simp
      then show ?thesis
        using less True g None by (simp add: keygen_loop.simps [of E out pre n i])
    qed
  qed
qed

text \<open>Up to the largest count no comparison ends the loop.\<close>

lemma loop_ends_below_max:
  assumes "keygen_loop E out pre n i s = Some r" "\<And>i s. fst (generate_one E out pre i s) = None"
  shows "n \<noteq> max_int"
proof -
  have "(\<forall>i s. fst (generate_one E out pre i s) = None) \<longrightarrow> n \<noteq> max_int"
  proof (rule keygen_loop.raw_induct [where P = "\<lambda>E out pre n i s r.
      (\<forall>i s. fst (generate_one E out pre i s) = None) \<longrightarrow> n \<noteq> max_int", OF _ assms(1)], intro impI)
    fix loop E out pre n i s r
    assume IH: "\<And>E out pre n i s r. loop E out pre n i s = Some r \<Longrightarrow>
        (\<forall>i s. fst (generate_one E out pre i s) = None) \<longrightarrow> n \<noteq> max_int"
      and run: "(if i <=s n then
          (case generate_one E out pre i s of
             (Some e, s') \<Rightarrow> Some (Some e, s')
           | (None, s') \<Rightarrow> loop E out pre n (i + 1) s')
        else Some (None, s)) = Some r"
      and fine: "\<forall>i s. fst (generate_one E out pre i s) = None"
    show "n \<noteq> max_int"
    proof
      assume max: "n = max_int"
      have "sint i \<le> sint max_int" using sint_range(2) [of i] by simp
      then have "i <=s n" by (simp only: word_sle_eq max)
      moreover obtain s' where "generate_one E out pre i s = (None, s')"
        using fine by (metis prod.collapse)
      ultimately have "loop E out pre n (i + 1) s' = Some r" using run by simp
      from IH [OF this] fine max show False by blast
    qed
  qed
  with assms(2) show ?thesis by blast
qed

text \<open>What a loop that goes through leaves, round by round.\<close>

definition rounds :: "i64 \<Rightarrow> i64 \<Rightarrow> i64 list" where
  "rounds i n = map word_of_int [sint i..sint n]"

lemma rounds_step:
  assumes "i <=s n" "n \<noteq> max_int"
  shows "rounds i n = i # rounds (i + 1) n"
proof -
  have le: "sint i \<le> sint n" using assms by (simp add: word_sle_eq)
  then have "i <s max_int" using below_max [OF assms(2)] by (simp add: word_sless_alt)
  then have "sint (i + 1) = sint i + 1" by (rule counter_up)
  then show ?thesis using le by (simp add: rounds_def upto_rec1)
qed

lemma rounds_done: "\<not> i <=s n \<Longrightarrow> rounds i n = []"
  by (simp add: rounds_def word_sle_eq)

lemma sint_of_int: "- (2 ^ 63) \<le> j \<Longrightarrow> j < 2 ^ 63 \<Longrightarrow> sint (word_of_int j :: i64) = j"
  by (simp add: int_word_sint)

lemma in_rounds: "k \<in> set (rounds i n) \<longleftrightarrow> i <=s k \<and> k <=s n"
proof
  assume "k \<in> set (rounds i n)"
  then obtain j where j: "k = word_of_int j" "sint i \<le> j" "j \<le> sint n" by (auto simp: rounds_def)
  then have "sint k = j"
    using sint_range(1) [of i] sint_range(2) [of n] by (simp add: sint_of_int)
  with j show "i <=s k \<and> k <=s n" by (simp add: word_sle_eq)
qed (auto simp: rounds_def word_sle_eq image_iff intro: bexI [of _ "sint k"])

lemma loop_induct [consumes 2, case_names Stop Round]:
  assumes "keygen_loop E out pre n i s = Some (None, s')"
    and "n \<noteq> max_int"
    and stop: "\<And>i. \<not> i <=s n \<Longrightarrow> P i s' []"
    and round: "\<And>i s t. i <=s n \<Longrightarrow> generate_one E out pre i s = (None, t) \<Longrightarrow>
      keygen_loop E out pre n (i + 1) t = Some (None, s') \<Longrightarrow> P (i + 1) t (rounds (i + 1) n) \<Longrightarrow>
      P i s (i # rounds (i + 1) n)"
  shows "P i s (rounds i n)"
  using assms(1)
proof (induction "length (rounds i n)" arbitrary: i s rule: less_induct)
  case less
  show ?case
  proof (cases "i <=s n")
    case False
    with less.prems have "s' = s" by (simp add: keygen_loop.simps [of E out pre n i])
    with False show ?thesis using stop by (simp add: rounds_done)
  next
    case True
    with less.prems obtain t where t: "generate_one E out pre i s = (None, t)"
      "keygen_loop E out pre n (i + 1) t = Some (None, s')"
      by (auto simp: keygen_loop.simps [of E out pre n i] split: prod.splits option.splits)
    have "length (rounds (i + 1) n) < length (rounds i n)"
      using rounds_step [OF True assms(2)] by simp
    from less.hyps [OF this t(2)] round [OF True t] show ?thesis
      by (simp only: rounds_step [OF True assms(2)])
  qed
qed

lemma loop_snippet:
  assumes "keygen_loop E out pre n i s = Some (None, s')" "n \<noteq> max_int"
  shows "kg_sb s' = kg_sb s @ concat (map (printed_block E pre) (rounds i n))"
  using assms by (induction rule: loop_induct) (simp_all add: generate_one_done)

lemma loop_marshalled:
  assumes "keygen_loop E out pre n i s = Some (None, s')" "n \<noteq> max_int"
  shows "\<forall>k \<in> set (rounds i n). \<exists>sk der. GenerateKey E (unat k) = Some sk \<and>
    MarshalPublic E (PublicKeyOf E sk) = Some der"
  using assms by (induction rule: loop_induct) (auto dest: generate_one_done(3))

lemma loop_stdout:
  assumes "keygen_loop E out pre n i s = Some (e, s')" "n \<noteq> max_int"
  shows "kg_stdout s' = kg_stdout s"
  using assms(1)
proof (induction "length (rounds i n)" arbitrary: i s rule: less_induct)
  case less
  show ?case
  proof (cases "i <=s n")
    case True
    obtain r t where g: "generate_one E out pre i s = (r, t)" by force
    from generate_one_stdout [OF this] have "kg_stdout t = kg_stdout s" .
    moreover have "length (rounds (i + 1) n) < length (rounds i n)"
      using rounds_step [OF True assms(2)] by simp
    ultimately show ?thesis
      using less True g by (cases r) (auto simp: keygen_loop.simps [of E out pre n i])
  qed (use less.prems in \<open>simp add: keygen_loop.simps [of E out pre n i]\<close>)
qed

text \<open>The key files of different rounds have different names.\<close>

lemma itoa_digits: "0 \<le> i \<Longrightarrow> c \<in> set (itoa i) \<Longrightarrow> c \<noteq> slash"
  by (auto simp: itoa_nonneg slash_def dest!: decimal_digits)

lemma key_file_name:
  assumes "slash \<notin> set pre" "0 \<le> sint i"
  shows "file_name (key_id pre i @ ''.key'')"
proof -
  have "slash \<notin> set (key_id pre i @ ''.key'')"
    using assms itoa_digits [of "sint i" slash] by (auto simp: key_id_def slash_def)
  moreover have "length (key_id pre i @ ''.key'') > 2" by simp
  then have "key_id pre i @ ''.key'' \<notin> {[], ''.'', ''..''}" by auto
  ultimately show ?thesis by (simp add: file_name_def)
qed

lemma key_path_inject:
  assumes "slash \<notin> set pre" "0 \<le> sint i" "0 \<le> sint j"
    "key_path out (key_id pre i) = key_path out (key_id pre j)"
  shows "i = j"
proof -
  have "key_id pre i @ ''.key'' = key_id pre j @ ''.key''"
    using join_path_inject [OF key_file_name key_file_name] assms by (simp add: key_path_def)
  then have "decimal (nat (sint i)) = decimal (nat (sint j))"
    using assms by (simp add: key_id_def itoa_nonneg)
  then have "sint i = sint j" using assms by simp
  then show ?thesis by (rule signed_word_eqI)
qed

lemma loop_keeps:
  assumes "keygen_loop E out pre n i s = Some (None, s')" "n \<noteq> max_int"
    and "\<And>k. i <=s k \<Longrightarrow> k <=s n \<Longrightarrow> q \<noteq> key_path out (key_id pre k)"
  shows "kg_files s' q = kg_files s q"
proof -
  have "(\<forall>k \<in> set ks. q \<noteq> key_path out (key_id pre k)) \<longrightarrow> kg_files s' q = kg_files s q"
    if "ks = rounds i n" for ks
    unfolding that using assms(1,2)
    by (induction rule: loop_induct) (auto simp: generate_one_other)
  with assms(3) show ?thesis by (simp add: in_rounds)
qed

lemma loop_keys:
  assumes "keygen_loop E out pre n i s = Some (None, s')" "n \<noteq> max_int" "slash \<notin> set pre" "0 \<le> sint i"
  shows "\<forall>k \<in> set (rounds i n). key_written E out pre k s'"
  using assms(1,2,4)
proof (induction rule: loop_induct)
  case (Round i s t)
  have up: "sint (i + 1) = sint i + 1"
  proof -
    have "i <s max_int" using Round.hyps(1) below_max [OF assms(2)] by (simp add: word_sless_alt word_sle_eq)
    then show ?thesis by (rule counter_up)
  qed
  have "kg_files s' (key_path out (key_id pre i)) = kg_files t (key_path out (key_id pre i))"
  proof (rule loop_keeps [OF Round.hyps(3) assms(2)])
    fix k assume "i + 1 <=s k"
    then have "sint i < sint k" by (simp add: word_sle_eq up)
    then show "key_path out (key_id pre i) \<noteq> key_path out (key_id pre k)"
      using key_path_inject [OF assms(3), of i k out] Round.prems by auto
  qed
  from key_written_cong [OF this] have "key_written E out pre i s'"
    using generate_one_done(1) [OF Round.hyps(2)] by blast
  with Round up show ?case by simp
qed simp


subsection \<open>The command\<close>

lemma keygen_main_done:
  assumes "keygen_main E n out pre s = Some (None, s')" "n \<noteq> max_int"
  obtains t where "keygen_loop E out pre n 1 (s\<lparr>kg_sb := snippet_header\<rparr>) = Some (None, t)"
    "s' = t\<lparr>kg_stdout := kg_stdout t @ kg_sb t\<rparr>" "1 <=s n"
  using assms that
  by (auto simp: keygen_main_def word_sle_eq word_sless_alt not_less split: if_splits option.splits)

lemma main_prints:
  assumes "keygen_main E n out pre s = Some (None, s')" "n \<noteq> max_int"
  shows "kg_stdout s' = kg_stdout s @ snippet_header @ concat (map (printed_block E pre) (rounds 1 n))"
proof -
  from assms obtain t where t:
    "keygen_loop E out pre n 1 (s\<lparr>kg_sb := snippet_header\<rparr>) = Some (None, t)"
    "s' = t\<lparr>kg_stdout := kg_stdout t @ kg_sb t\<rparr>" by (rule keygen_main_done)
  show ?thesis using loop_snippet [OF t(1) assms(2)] loop_stdout [OF t(1) assms(2)] by (simp add: t(2))
qed

lemma main_keys:
  assumes "keygen_main E n out pre s = Some (None, s')" "n \<noteq> max_int" "slash \<notin> set pre"
    "1 <=s i" "i <=s n"
  shows "key_written E out pre i s'"
proof -
  from assms(1,2) obtain t where t:
    "keygen_loop E out pre n 1 (s\<lparr>kg_sb := snippet_header\<rparr>) = Some (None, t)"
    "s' = t\<lparr>kg_stdout := kg_stdout t @ kg_sb t\<rparr>" by (rule keygen_main_done)
  have "key_written E out pre i t"
    using loop_keys [OF t(1) assms(2,3)] assms(4,5) by (simp add: in_rounds)
  moreover have "kg_files s' = kg_files t" by (simp add: t(2))
  ultimately show ?thesis by (simp only: key_written_def)
qed

lemma main_error_stdout:
  assumes "keygen_main E n out pre s = Some (Some e, s')" "n \<noteq> max_int"
  shows "kg_stdout s' = kg_stdout s"
proof -
  consider "s' = s" | "keygen_loop E out pre n 1 (s\<lparr>kg_sb := snippet_header\<rparr>) = Some (Some e, s')"
    using assms(1) by (auto simp: keygen_main_def split: if_splits option.splits)
  then show ?thesis
  proof cases
    case 2
    from loop_stdout [OF this assms(2)] show ?thesis by simp
  qed simp
qed

text \<open>The keys of a finished run load again.\<close>

lemma written_key_loads:
  assumes "key_written E out pre i s" "GenerateKey E (unat i) = Some k"
    and "\<And>der. MarshalPKCS8 E k = Some der \<Longrightarrow>
      pemDecode (text_bytes (pem_text ''PRIVATE KEY'' der)) = Some der \<and> parsePKCS8 der = Some (ECKey k)"
  shows "LoadPrivateKey (\<lambda>path. map_option fst (kg_files s path)) pemDecode parsePKCS8
    (key_path out (key_id pre i)) = Inr k"
proof -
  from assms(1,2) obtain der where der: "MarshalPKCS8 E k = Some der"
    "map_option fst (kg_files s (key_path out (key_id pre i)))
      = Some (text_bytes (pem_text ''PRIVATE KEY'' der))"
    by (cases "MarshalPKCS8 E k") (simp_all add: key_written_def)
  with assms(3) [OF der(1)] show ?thesis by (simp only: LoadPrivateKey_def option.case parsed_key.case)
qed

subsection \<open>The printed addresses\<close>

text \<open>The port of the \<open>i\<close>-th replica is the text \<open>800\<close> followed by the index.\<close>

definition printed_port :: "i64 \<Rightarrow> nat" where
  "printed_port i = from_decimal (''800'' @ itoa (sint i))"

lemma from_decimal_append: "foldl (\<lambda>a c. 10 * a + (of_char c - 48)) a (decimal n)
    = a * 10 ^ length (decimal n) + (n :: nat)"
proof (induction n arbitrary: a rule: decimal.induct)
  case (1 n)
  have d: "of_char (char_of (48 + k) :: char) = 48 + k" if "k < 10" for k :: nat
    using that by (simp add: of_char_of)
  show ?case
  proof (cases "n < 10")
    case True
    then show ?thesis by (simp add: decimal.simps [of n] d)
  next
    case False
    have "10 * (a * 10 ^ length (decimal (n div 10)) + n div 10) + n mod 10
        = a * 10 ^ Suc (length (decimal (n div 10))) + n" by simp
    then show ?thesis using 1 False by (simp add: decimal.simps [of n] d)
  qed
qed

lemma printed_port: "0 \<le> sint i \<Longrightarrow>
    printed_port i = 800 * 10 ^ length (decimal (nat (sint i))) + nat (sint i)"
  by (simp add: printed_port_def itoa_nonneg from_decimal_def from_decimal_append)

lemma decimal_short: "length (decimal n) = Suc 0 \<longleftrightarrow> n < 10"
  by (simp add: decimal.simps [of n])

lemma printed_port_valid:
  assumes "1 <=s i"
  shows "printed_port i \<le> 65535 \<longleftrightarrow> sint i \<le> 9"
proof -
  have nn: "0 \<le> sint i" using assms by (simp add: word_sle_eq)
  show ?thesis
  proof (cases "sint i \<le> 9")
    case True
    then have "nat (sint i) < 10" by simp
    with True nn show ?thesis by (simp add: printed_port decimal.simps [of "nat (sint i)"])
  next
    case False
    then have "length (decimal (nat (sint i))) \<noteq> Suc 0" by (simp only: decimal_short)
    moreover have "0 < length (decimal (nat (sint i)))" by simp
    ultimately have "2 \<le> length (decimal (nat (sint i)))" by linarith
    then have "(10 :: nat) ^ 2 \<le> 10 ^ length (decimal (nat (sint i)))" by (rule power_increasing) simp
    with False nn show ?thesis by (simp add: printed_port)
  qed
qed

end
