(* ===== verification/Tool_Properties.thy ===== *)
theory Tool_Properties
  imports Keygen Metrics
begin

section \<open>Properties of the key generator and the metrics\<close>

text \<open>
  That the key generator ends, what a finished run leaves and prints, and that a longer request
  is never recorded as a shorter one. The witnesses use keys of one byte.
\<close>

subsection \<open>A small instance\<close>

definition byte_env :: "(u8, u8) keygen_env" where
  "byte_env = \<lparr>GenerateKey = (\<lambda>i. Some (of_nat i)), PublicKeyOf = (\<lambda>k. k), MarshalPKCS8 = (\<lambda>k. Some [k]),
     MarshalPublic = (\<lambda>k. Some [k]), MkdirAll = (\<lambda>d. True), writeOutcome = (\<lambda>f. Written),
     umask = 0x12, quoteUnicode = (\<lambda>s. s)\<rparr>"

definition empty_state :: keygen_state where
  "empty_state = \<lparr>kg_files = Map.empty, kg_sb = [], kg_stdout = []\<rparr>"

definition byte_pem :: "bytes \<Rightarrow> bytes option" where
  "byte_pem bs = pem_read ''PRIVATE KEY'' (map (\<lambda>b. char_of (unat b)) bs)"

definition byte_key :: "bytes \<Rightarrow> u8 parsed_key option" where
  "byte_key bs = (case bs of [k] \<Rightarrow> Some (ECKey k) | _ \<Rightarrow> None)"

lemma byte_env_simps [simp]:
  "GenerateKey byte_env i = Some (of_nat i)" "PublicKeyOf byte_env k = k"
  "MarshalPKCS8 byte_env k = Some [k]" "MarshalPublic byte_env k = Some [k]"
  "MkdirAll byte_env d" "writeOutcome byte_env f = Written"
  by (simp_all add: byte_env_def)

lemma byte_char: "char_of (unat (of_char c :: u8)) = c"
proof -
  have "(of_char c :: u8) = of_nat (of_char c)" by (rule of_nat_of_char [symmetric])
  moreover have "(of_char c :: nat) < 256" by simp
  ultimately have "unat (of_char c :: u8) = of_char c" by (simp only: unat_of_nat) simp
  then show ?thesis by simp
qed

lemma byte_chars: "map (\<lambda>b. char_of (unat b)) (text_bytes s) = s"
  by (induction s) (simp_all add: text_bytes_def byte_char)

lemma byte_pem_text: "byte_pem (text_bytes (pem_text ''PRIVATE KEY'' der)) = Some der"
  by (simp only: byte_pem_def byte_chars pem_roundtrip)

lemma byte_generates: "fst (generate_one byte_env out pre i s) = None"
  by (simp add: generate_one_def WriteFile_def Let_def)

subsection \<open>The key generator\<close>

text \<open>C20: the key generator returns for every count but the largest 64-bit integer, whatever fails
  on the way; for the largest one, the counter wraps around before it exceeds the count, and when
  nothing fails the command does not return.\<close>

theorem keygen_terminates:
  "(n \<noteq> max_int \<longrightarrow> (\<exists>r. keygen_main E n out pre s = Some r)) \<and>
   (MkdirAll E out \<longrightarrow> (\<forall>i t. fst (generate_one E out pre i t) = None) \<longrightarrow>
      keygen_main E max_int out pre s = None)"
proof -
  have "\<exists>r. keygen_main E n out pre s = Some r" if "n \<noteq> max_int"
    using loop_returns [OF that, of E out pre 1 "s\<lparr>kg_sb := snippet_header\<rparr>"]
    by (auto simp: keygen_main_def split: option.splits)
  moreover have "keygen_main E max_int out pre s = None"
    if "MkdirAll E out" "\<forall>i t. fst (generate_one E out pre i t) = None"
  proof (cases "keygen_loop E out pre max_int 1 (s\<lparr>kg_sb := snippet_header\<rparr>)")
    case None
    have "\<not> max_int <s 1" by (simp add: word_sless_alt)
    with None that(1) show ?thesis by (simp add: keygen_main_def)
  next
    case (Some r)
    from loop_ends_below_max [OF this] that(2) show ?thesis by blast
  qed
  ultimately show ?thesis by blast
qed

theorem keygen_terminates_witness:
  "(\<exists>r. keygen_main byte_env 4 ''keys'' ''P'' empty_state = Some r) \<and>
   keygen_main byte_env max_int ''keys'' ''P'' empty_state = None"
proof -
  have "(4 :: i64) \<noteq> max_int" by (simp add: max_int_def)
  then show ?thesis
    using keygen_terminates [of 4 byte_env "''keys''" "''P''" empty_state] byte_generates by simp
qed

text \<open>C19: when the key generator finishes, the file of each replica loads as the private key that
  was generated for it, and the output is the header followed by one block per replica, in order,
  whose \<open>pubkey\<close> is base64 of a DER encoding that loads as the matching public key; when it
  fails, it prints nothing. The assumptions: the count is not the largest integer, the prefix has
  no slash, and the decoders invert the encoders.\<close>

theorem keygen_keys_load:
  assumes "keygen_main E n out pre s = Some (r, s')" "n \<noteq> max_int" "slash \<notin> set pre"
    and "\<And>k der. MarshalPKCS8 E k = Some der \<Longrightarrow>
      pemDecode (text_bytes (pem_text ''PRIVATE KEY'' der)) = Some der \<and> parsePKCS8 der = Some (ECKey k)"
    and "\<And>pk der. MarshalPublic E pk = Some der \<Longrightarrow> parsePub der = Some (ECKey pk)"
  shows "case r of Some e \<Rightarrow> kg_stdout s' = kg_stdout s
    | None \<Rightarrow> \<exists>sk der.
        (\<forall>i. 1 <=s i \<and> i <=s n \<longrightarrow> GenerateKey E (unat i) = Some (sk i) \<and>
           LoadPrivateKey (\<lambda>path. map_option fst (kg_files s' path)) pemDecode parsePKCS8
             (key_path out (key_id pre i)) = Inr (sk i) \<and>
           base64_read (base64 (der i)) = Some (der i) \<and>
           LoadPublicKey parsePub (der i) = Inr (PublicKeyOf E (sk i))) \<and>
        kg_stdout s' = kg_stdout s @ snippet_header @
          concat (map (\<lambda>i. replica_block (quoteUnicode E) (key_id pre i) i (base64 (der i))) (rounds 1 n))"
proof (cases r)
  case (Some e)
  with main_error_stdout [OF _ assms(2)] assms(1) show ?thesis by simp
next
  case None
  with assms(1) have run: "keygen_main E n out pre s = Some (None, s')" by simp
  obtain t where t: "keygen_loop E out pre n 1 (s\<lparr>kg_sb := snippet_header\<rparr>) = Some (None, t)"
    using run assms(2) by (rule keygen_main_done)
  have "\<forall>i. \<exists>sk der. 1 <=s i \<and> i <=s n \<longrightarrow> GenerateKey E (unat i) = Some sk \<and>
      MarshalPublic E (PublicKeyOf E sk) = Some der"
    using loop_marshalled [OF t assms(2)] by (auto simp: in_rounds)
  then obtain sk der where made: "\<And>i. 1 <=s i \<Longrightarrow> i <=s n \<Longrightarrow> GenerateKey E (unat i) = Some (sk i) \<and>
      MarshalPublic E (PublicKeyOf E (sk i)) = Some (der i)"
    by metis
  have "map (printed_block E pre) (rounds 1 n)
      = map (\<lambda>i. replica_block (quoteUnicode E) (key_id pre i) i (base64 (der i))) (rounds 1 n)"
    using made by (intro map_cong) (simp_all add: in_rounds printed_block_def)
  then have out: "kg_stdout s' = kg_stdout s @ snippet_header @
      concat (map (\<lambda>i. replica_block (quoteUnicode E) (key_id pre i) i (base64 (der i))) (rounds 1 n))"
    using main_prints [OF run assms(2)] by (simp only:)
  have "LoadPrivateKey (\<lambda>path. map_option fst (kg_files s' path)) pemDecode parsePKCS8
      (key_path out (key_id pre i)) = Inr (sk i)" if "1 <=s i" "i <=s n" for i
    using main_keys [OF run assms(2,3) that] made [OF that] assms(4) by (intro written_key_loads) blast+
  moreover have "LoadPublicKey parsePub (der i) = Inr (PublicKeyOf E (sk i))" if "1 <=s i" "i <=s n" for i
    using made [OF that] assms(5) [of "PublicKeyOf E (sk i)" "der i"] by (simp add: LoadPublicKey_def)
  ultimately show ?thesis
    using made out base64_roundtrip by (simp only: None option.case) blast
qed

theorem keygen_keys_load_witness:
  "\<exists>s'. keygen_main byte_env 2 ''keys'' ''P'' empty_state = Some (None, s') \<and>
     LoadPrivateKey (\<lambda>path. map_option fst (kg_files s' path)) byte_pem byte_key
       (key_path ''keys'' (key_id ''P'' 2)) = Inr 2"
proof -
  have "map_option fst (keygen_main byte_env 2 ''keys'' ''P'' empty_state) = Some None"
    by code_simp
  then obtain s' where s': "keygen_main byte_env 2 ''keys'' ''P'' empty_state = Some (None, s')" by auto
  have "(2 :: i64) \<noteq> max_int" "slash \<notin> set ''P''" by (simp_all add: max_int_def slash_def)
  note load = keygen_keys_load [OF s' this, of byte_pem byte_key byte_key]
  have "\<exists>sk der.
        (\<forall>i. 1 <=s i \<and> i <=s 2 \<longrightarrow> GenerateKey byte_env (unat i) = Some (sk i) \<and>
           LoadPrivateKey (\<lambda>path. map_option fst (kg_files s' path)) byte_pem byte_key
             (key_path ''keys'' (key_id ''P'' i)) = Inr (sk i) \<and>
           base64_read (base64 (der i)) = Some (der i) \<and>
           LoadPublicKey byte_key (der i) = Inr (PublicKeyOf byte_env (sk i))) \<and>
        kg_stdout s' = kg_stdout empty_state @ snippet_header @
          concat (map (\<lambda>i. replica_block (quoteUnicode byte_env) (key_id ''P'' i) i (base64 (der i))) (rounds 1 2))"
    by (rule load [unfolded option.case]) (auto simp: byte_pem_text byte_key_def)
  then obtain sk where "1 <=s (2 :: i64) \<and> (2 :: i64) <=s 2 \<longrightarrow>
      GenerateKey byte_env (unat (2 :: i64)) = Some (sk (2 :: i64)) \<and>
      LoadPrivateKey (\<lambda>path. map_option fst (kg_files s' path)) byte_pem byte_key
        (key_path ''keys'' (key_id ''P'' 2)) = Inr (sk 2)"
    by blast
  then show ?thesis using s' by (simp add: word_sle_eq)
qed

text \<open>From the tenth replica on the printed port is no port number.\<close>

lemma keygen_ports: "1 <=s i \<Longrightarrow> printed_port i \<le> 65535 \<longleftrightarrow> sint i \<le> 9"
  by (rule printed_port_valid)

subsection \<open>Metrics\<close>

text \<open>Of two requests of one type, observed at one time, the one that was submitted earlier is
  recorded with a latency at least as long, in rounded seconds, even where the difference of the
  clock readings saturates.\<close>

lemma latency_observations_ordered:
  assumes "start \<le> start'" "start' \<le> now"
  shows "\<exists>x y. 0 \<le> y \<and> y \<le> x \<and>
    (\<forall>observe. ObserveRequestLatency observe now reqType start reg = observe LatencySeconds [reqType] x reg \<and>
       ObserveRequestLatency observe now reqType start' reg = observe LatencySeconds [reqType] y reg)"
proof (intro exI conjI allI)
  have "0 \<le> TimeSince now start'" "TimeSince now start' \<le> TimeSince now start" "TimeSince now start < 2 ^ 63"
    using assms by (simp_all add: TimeSince_def)
  from Seconds_mono [OF this] Seconds_mono [of 0 "TimeSince now start'"] this
  show "Seconds (TimeSince now start') \<le> Seconds (TimeSince now start)" "0 \<le> Seconds (TimeSince now start')"
    by (simp_all add: Seconds_def fadd_def fdiv_def)
qed (simp_all only: ObserveRequestLatency_def)

lemma latency_observations_ordered_witness:
  "\<exists>x y. 0 \<le> y \<and> y \<le> x \<and> ObserveRequestLatency (\<lambda>c ls v reg. v # reg) (3 * 10 ^ 9) ''join'' 0 [] = [x] \<and>
     ObserveRequestLatency (\<lambda>c ls v reg. v # reg) (3 * 10 ^ 9) ''join'' (10 ^ 9) [] = [y]"
proof -
  have "(0 :: int) \<le> 10 ^ 9" "(10 :: int) ^ 9 \<le> 3 * 10 ^ 9" by simp_all
  from latency_observations_ordered [OF this, of "''join''" "[] :: f64 list"]
  obtain x y where xy: "0 \<le> y \<and> y \<le> x \<and>
    (\<forall>observe. ObserveRequestLatency observe (3 * 10 ^ 9) ''join'' 0 [] = observe LatencySeconds [''join''] x ([] :: f64 list) \<and>
       ObserveRequestLatency observe (3 * 10 ^ 9) ''join'' (10 ^ 9) [] = observe LatencySeconds [''join''] y [])"
    by (elim exE) (rule that)
  from xy [THEN conjunct2, THEN conjunct2, THEN spec, of "\<lambda>c ls v reg. v # reg"] xy show ?thesis by blast
qed

text \<open>The package registers its collectors without a panic when none of their names is taken, as the
  client's documentation asks for fresh valid names and increasing buckets.\<close>

lemma metrics_register:
  assumes "metric_name ` set collectors \<inter> names reg = {}"
    and "\<And>c r. registrable c \<Longrightarrow> metric_name c \<notin> names r \<Longrightarrow>
      \<exists>r'. newCollector c r = Inr r' \<and> names r' = insert (metric_name c) (names r)"
  shows "\<exists>reg'. metrics_init newCollector reg = Inr reg' \<and>
    names reg' = metric_name ` set collectors \<union> names reg"
  unfolding metrics_init_def
  using register_all_fresh [OF collectors_registrable collectors_distinct assms] .

end
