(* ===== verification/Sending.thy ===== *)
theory Sending
  imports Network "HOL-Library.Multiset"
begin

section \<open>Sending over the connection pool\<close>

text \<open>
  \<open>Transport.Send\<close> takes its client from the pool, and a broadcast sends from one goroutine per
  replica. Here the two parts of \<^verbatim>\<open>internal/network\<close> are put together: the pool is the state, the
  goroutines run in any order, and a dial succeeds or fails by address. A second model keeps the
  time, because a dial holds the write lock of the pool while the deadlines of the other sends run.
\<close>

subsection \<open>One send\<close>

datatype client = Client nat

definition GetClient :: "bool \<Rightarrow> string \<Rightarrow> ConnPool \<Rightarrow> ConnPool \<times> (transport_error + client)" where
  "GetClient dialOk addr p =
     (case GetConn dialOk addr p of
        (p', Inl e) \<Rightarrow> (p', Inl e)
      | (p', Inr cc) \<Rightarrow> (p', Inr (Client cc)))"

definition pool_send :: "(string \<Rightarrow> bool) \<Rightarrow> (rpc_call \<Rightarrow> bool) \<Rightarrow> message \<Rightarrow> string \<Rightarrow> ConnPool
    \<Rightarrow> ConnPool \<times> (rpc_call list \<times> transport_error option)" where
  "pool_send dialOk rpcOk msg addr p =
     (case GetClient (dialOk addr) addr p of
        (p', client) \<Rightarrow> (p', Send (\<lambda>_. \<not> isl client) rpcOk addr msg))"

text \<open>The fast path may miss before another goroutine dials; the slow path looks again.\<close>

lemma GetConn_slow_again: "GetConn ok a p = GetConn_slow ok a p"
  by (simp add: GetConn_def GetConn_fast_def GetConn_slow_def split: option.split)

definition reachable_at :: "(string \<Rightarrow> bool) \<Rightarrow> ConnPool \<Rightarrow> string \<Rightarrow> bool" where
  "reachable_at dialOk p addr \<longleftrightarrow> conns p addr \<noteq> None \<or> dialOk addr"

lemma GetConn_reachable: "isl (snd (GetConn (dialOk a) a p)) \<longleftrightarrow> \<not> reachable_at dialOk p a"
  by (auto simp: GetConn_slow_again GetConn_slow_def reachable_at_def Let_def split: option.split)

lemma GetClient_reachable: "isl (snd (GetClient (dialOk a) a p)) \<longleftrightarrow> \<not> reachable_at dialOk p a"
  using GetConn_reachable [of dialOk a p]
  by (auto simp: GetClient_def split: prod.splits sum.splits)

lemma fst_GetClient: "fst (GetClient ok a p) = fst (GetConn_slow ok a p)"
  by (simp add: GetClient_def GetConn_slow_again split: prod.splits sum.splits)

lemma Send_cong: "g a = g' a \<Longrightarrow> Send g ok a m = Send g' ok a m"
  by (simp add: Send_def)

lemma pool_send_eq:
  "pool_send dialOk rpcOk msg a p =
     (fst (GetConn_slow (dialOk a) a p), Send (reachable_at dialOk p) rpcOk a msg)"
  using GetClient_reachable [of dialOk a p]
  by (auto simp: pool_send_def split_def fst_GetClient intro: Send_cong)

lemma reachable_slow: "reachable_at dialOk (fst (GetConn_slow (dialOk a) a p)) = reachable_at dialOk p"
  by (auto simp: reachable_at_def GetConn_slow_def Let_def fun_eq_iff split: option.split)

subsection \<open>A broadcast\<close>

text \<open>The goroutines, in the order in which they get through the pool.\<close>

primrec pool_sends :: "(string \<Rightarrow> bool) \<Rightarrow> (rpc_call \<Rightarrow> bool) \<Rightarrow> message \<Rightarrow> string list \<Rightarrow> ConnPool
    \<Rightarrow> ConnPool \<times> rpc_call list \<times> nat" where
  "pool_sends dialOk rpcOk msg [] p = (p, [], 0)"
| "pool_sends dialOk rpcOk msg (a # as) p =
     (case pool_send dialOk rpcOk msg a p of
        (p1, (calls1, err)) \<Rightarrow>
          (case pool_sends dialOk rpcOk msg as p1 of
             (p2, calls2, errs) \<Rightarrow> (p2, calls1 @ calls2, if err = None then errs else Suc errs)))"

text \<open>The addresses a broadcast goes to.\<close>

definition targets :: "string \<Rightarrow> 'pk Committee \<Rightarrow> string list" where
  "targets myAddr c = filter (\<lambda>a. a \<noteq> myAddr) (map Addr (Replicas c))"

lemma pool_sends_eq:
  "pool_sends dialOk rpcOk msg as p =
     (slow_paths (map (\<lambda>a. (dialOk a, a)) as) p,
      concat (map (\<lambda>a. fst (Send (reachable_at dialOk p) rpcOk a msg)) as),
      length (filter (\<lambda>a. snd (Send (reachable_at dialOk p) rpcOk a msg) \<noteq> None) as))"
  by (induction as arbitrary: p) (simp_all add: pool_send_eq reachable_slow split_def)

lemma broadcast_loop_eq:
  "broadcast_loop g rpcOk me msg rs =
     (concat (map (\<lambda>a. fst (Send g rpcOk a msg)) (filter (\<lambda>a. a \<noteq> me) (map Addr rs))),
      length (filter (\<lambda>a. snd (Send g rpcOk a msg) \<noteq> None) (filter (\<lambda>a. a \<noteq> me) (map Addr rs))))"
  by (induction rs) (simp_all add: split_def)

lemma BroadcastToCommittee_eq:
  "BroadcastToCommittee g rpcOk me c msg =
     (concat (map (\<lambda>a. fst (Send g rpcOk a msg)) (targets me c)),
      (let n = length (filter (\<lambda>a. snd (Send g rpcOk a msg) \<noteq> None) (targets me c))
       in if 0 < n then Some (SendErrors n) else None))"
  by (simp add: BroadcastToCommittee_def broadcast_loop_eq targets_def Let_def)

lemma mset_concat_map_cong: "mset as = mset bs \<Longrightarrow> mset (concat (map f as)) = mset (concat (map f bs))"
proof -
  assume "mset as = mset bs"
  then have "mset (map f as) = mset (map f bs)" by simp
  then have "mset (map mset (map f as)) = mset (map mset (map f bs))" by (simp only: mset_map)
  then show ?thesis by (simp only: mset_concat sum_mset_sum_list [symmetric])
qed

lemma length_filter_mset: "mset as = mset bs \<Longrightarrow> length (filter P as) = length (filter P bs)"
  by (metis mset_filter size_mset)

lemma slow_paths_dom:
  "dom (conns (slow_paths (map (\<lambda>a. (dialOk a, a)) as) p)) = dom (conns p) \<union> {a \<in> set as. dialOk a}"
proof (induction as arbitrary: p)
  case (Cons a as)
  have "dom (conns (fst (GetConn_slow (dialOk a) a p))) = dom (conns p) \<union> (if dialOk a then {a} else {})"
    by (auto simp: GetConn_slow_def Let_def split: option.split)
  with Cons show ?case by auto
qed simp

subsection \<open>The time a dial takes\<close>

text \<open>
  The goroutines start together and have one deadline \<open>D\<close>, the RPC timeout after the start. They
  get the write lock in the order of the list; whoever has it dials until the peer answers (after
  \<open>answers addr\<close>, never for \<open>None\<close>), the deadline or the dial timeout passes. A context that has
  expired fails the dial at once, and the remote call on a cached connection as well. Times are in
  nanoseconds from the start.
\<close>

definition DefaultDialTimeout :: nat where "DefaultDialTimeout = 5 * 10 ^ 9"
definition DefaultRPCTimeout :: nat where "DefaultRPCTimeout = 2 * 10 ^ 9"

definition dial_until :: "nat \<Rightarrow> nat option \<Rightarrow> nat \<Rightarrow> nat \<times> bool" where
  "dial_until D ans t =
     (let limit = min D (t + DefaultDialTimeout) in
      if limit \<le> t then (t, False)
      else case ans of
             None \<Rightarrow> (limit, False)
           | Some k \<Rightarrow> if t + k < limit then (t + k, True) else (limit, False))"

primrec timed_sends :: "nat \<Rightarrow> (string \<Rightarrow> nat option) \<Rightarrow> string list \<Rightarrow> nat \<Rightarrow> ConnPool
    \<Rightarrow> (string \<times> bool) list" where
  "timed_sends D answers [] t p = []"
| "timed_sends D answers (a # as) t p =
     (case GetConn_fast a p of
        Some cc \<Rightarrow> (a, t < D) # timed_sends D answers as t p
      | None \<Rightarrow>
          (case dial_until D (answers a) t of
             (t', ok) \<Rightarrow> (a, ok) # timed_sends D answers as t' (fst (GetConn_slow ok a p))))"

lemma timed_sends_late: "D \<le> t \<Longrightarrow> (a, ok) \<in> set (timed_sends D answers as t p) \<Longrightarrow> \<not> ok"
  by (induction as arbitrary: t p) (auto simp: dial_until_def Let_def split: option.splits)

text \<open>
  One peer that does not answer and is dialled first uses up the deadline of every other send,
  also to peers with a connection, when the RPC timeout is not longer than the dial timeout.
\<close>

lemma dead_peer_first:
  assumes "conns p a = None" "answers a = None" "D \<le> DefaultDialTimeout"
    and "(b, ok) \<in> set (timed_sends D answers (a # as) 0 p)"
  shows "\<not> ok"
proof -
  have "dial_until D (answers a) 0 = (D, False)"
    using assms(2,3) by (cases "D = 0") (auto simp: dial_until_def Let_def min_def)
  then show ?thesis
    using assms(1,4) timed_sends_late [OF order.refl, of b ok D answers as] by (auto simp: GetConn_fast_def)
qed

end
