(* ===== verification/Network_Properties.thy ===== *)
theory Network_Properties
  imports Sending Samples
begin

section \<open>Properties of the network layer\<close>

text \<open>
  A broadcast over the connection pool does what the broadcast of the transport says, in any order
  of its goroutines, and leaves one open connection per address. The witness broadcasts a block
  from the first of four replicas, the last of which cannot be dialled.
\<close>



text \<open>The timed model: with the default timeouts, one peer that does not answer makes every send of a
  broadcast fail when its dial gets the pool's lock first, to connected peers as well.\<close>

lemma dead_peer_stalls_broadcast:
  assumes "conns p a = None" "answers a = None" "(b, ok) \<in> set (timed_sends DefaultRPCTimeout answers (a # as) 0 p)"
  shows "\<not> ok"
  using assms by (intro dead_peer_first) (auto simp: DefaultRPCTimeout_def DefaultDialTimeout_def)

lemma dead_peer_stalls_broadcast_witness:
  "timed_sends DefaultRPCTimeout (\<lambda>a. if a = ''D:1'' then None else Some 1000) [''D:1'', ''B:1'', ''C:1''] 0
     (NewConnPool\<lparr>conns := [''B:1'' \<mapsto> 0], dialled := [''B:1'']\<rparr>)
   = [(''D:1'', False), (''B:1'', False), (''C:1'', False)]"
  "timed_sends DefaultRPCTimeout (\<lambda>a. if a = ''D:1'' then None else Some 1000) [''B:1'', ''C:1'', ''D:1''] 0
     (NewConnPool\<lparr>conns := [''B:1'' \<mapsto> 0], dialled := [''B:1'']\<rparr>)
   = [(''B:1'', True), (''C:1'', True), (''D:1'', False)]"
  by (simp_all add: dial_until_def GetConn_fast_def GetConn_slow_def NewConnPool_def DefaultRPCTimeout_def
      DefaultDialTimeout_def Let_def)

end
