(* ===== verification/Describe.thy ===== *)
theory Describe
  imports Replica GoText
begin

section \<open>Labels for logs\<close>

text \<open>
  The \<open>String\<close> methods of \<^verbatim>\<open>internal/membership/request.go\<close> and \<^verbatim>\<open>internal/consensus/dhotstuff.go\<close>.
  The configuration number that a replica prints is a field that no handler assigns.
\<close>

fun RequestKind_String :: "RequestKind \<Rightarrow> string" where
  "RequestKind_String KindRegular = ''REGULAR''"
| "RequestKind_String KindAdd = ''ADD''"
| "RequestKind_String KindRemove = ''REMOVE''"

definition DHotStuff_String :: "('pk, 'app) DHotStuff \<Rightarrow> string" where
  "DHotStuff_String d =
     ''DHotStuff{id='' @ myID d @ '', view='' @ decimal (unat (curView d))
     @ '', conf='' @ decimal (unat (curConf d)) @ ''}''"

lemma RequestKind_String_inject: "RequestKind_String k = RequestKind_String l \<longleftrightarrow> k = l"
  by (cases k; cases l) simp_all

text \<open>A \<open>RequestKind\<close> is an integer in Go; other values than the three are printed with it.\<close>

primrec kind_number :: "RequestKind \<Rightarrow> int" where
  "kind_number KindRegular = 0"
| "kind_number KindAdd = 1"
| "kind_number KindRemove = 2"

definition RequestKind_label :: "int \<Rightarrow> string" where
  "RequestKind_label k =
     (if k = 0 then ''REGULAR'' else if k = 1 then ''ADD'' else if k = 2 then ''REMOVE''
      else ''RequestKind('' @ itoa k @ '')'')"

lemma RequestKind_label_number: "RequestKind_label (kind_number k) = RequestKind_String k"
  by (cases k) (simp_all add: RequestKind_label_def)

lemma RequestKind_label_inject:
  assumes "0 \<le> j" "0 \<le> k"
  shows "RequestKind_label j = RequestKind_label k \<longleftrightarrow> j = k"
proof -
  have "itoa j = itoa k \<longleftrightarrow> j = k"
    using assms from_decimal_decimal [of "nat j"] from_decimal_decimal [of "nat k"] by (auto simp: itoa_nonneg)
  then show ?thesis by (auto simp: RequestKind_label_def)
qed

subsection \<open>The printed configuration number\<close>

lemma record_round_curConf: "record_round mc d = Inr d' \<Longrightarrow> curConf d' = curConf d"
  by (auto simp: record_round_def Let_def split: option.splits sum.splits)

lemma propose_curConf: "propose env j d = Inr d' \<Longrightarrow> curConf d' = curConf d"
  by (auto simp: propose_def Let_def dest: record_round_curConf split: sum.splits prod.splits)

lemma vote_part_curConf: "vote_part env mc b d = Inr (Some d') \<Longrightarrow> curConf d' = curConf d"
  by (auto simp: vote_part_def Let_def split: if_splits option.splits sum.splits)

lemma chain_updates_curConf: "curConf (chain_updates env b x y d) = curConf d"
  by (simp add: chain_updates_def Let_def split: option.split)

lemma three_chain_curConf: "three_chain_part env mc b x y z d = Inr d' \<Longrightarrow> curConf d' = curConf d"
  by (auto simp: three_chain_part_def Let_def deliver_block_def split: option.splits if_splits sum.splits)

lemma pipeline_part_curConf: "curConf (pipeline_part env b d) = curConf d"
  by (simp add: pipeline_part_def Let_def deliver_block_def split: prod.split option.split)

lemma HandlePropose_curConf: "HandlePropose env b d = Inr d' \<Longrightarrow> curConf d' = curConf d"
  by (erule HandlePropose_cases)
     (auto simp: pipeline_part_curConf chain_updates_curConf dest!: vote_part_curConf three_chain_curConf)

lemma HandleVote_curConf: "HandleVote env v d = Inr d' \<Longrightarrow> curConf d' = curConf d"
  by (erule HandleVote_cases) (auto dest: propose_curConf)

lemma HandleNewView_curConf: "HandleNewView env m d = Inr d' \<Longrightarrow> curConf d' = curConf d"
  by (erule HandleNewView_cases) (auto dest: propose_curConf)

lemma timeout_curConf:
  "timeout_begin d = Inr (v, d') \<Longrightarrow> curConf d' = curConf d"
  "timeout_change env cx d = Inr d' \<Longrightarrow> curConf d' = curConf d"
  by (auto simp: timeout_begin_def timeout_change_def Let_def split: option.splits sum.splits if_splits prod.splits)

lemma step_curConf:
  assumes "step env s t"
  shows "curConf (node t) = curConf (node s)"
  using assms
proof (rule step.cases)
  fix r d u assume "SubmitRequest r (node u) = Some d" "s = u" "t = u\<lparr>node := d\<rparr>"
  then show ?thesis by (auto simp: SubmitRequest_def split: option.splits)
qed (auto simp: timeout_end_def dest: HandlePropose_curConf HandleVote_curConf HandleNewView_curConf timeout_curConf)

text \<open>Whatever configurations are installed, a replica prints number zero.\<close>

lemma printed_conf_zero:
  assumes "runs env (start (NewDHotStuff i cs a n rep)) t"
  shows "DHotStuff_String (node t) =
    ''DHotStuff{id='' @ myID (node t) @ '', view='' @ decimal (unat (curView (node t))) @ '', conf=0}''"
proof -
  have "curConf (node t) = curConf (node (start (NewDHotStuff i cs a n rep)))"
    using assms by (induction rule: rtranclp_induct) (auto dest: step_curConf)
  then have "curConf (node t) = 0" by (simp add: start_def NewDHotStuff_def)
  moreover have "decimal 0 = ''0''" by code_simp
  ultimately show ?thesis by (simp add: DHotStuff_String_def)
qed

end
