(* ===== verification/Endpoint.thy ===== *)
theory Endpoint
  imports Sending Discovery DHotStuff
begin

section \<open>The objects a node is wired from\<close>

text \<open>
  The constructors and the structs of \<^verbatim>\<open>internal/network\<close>, \<^verbatim>\<open>internal/discovery\<close> and the small
  adapters, with their methods as compositions of the functions of the other theories. An
  interface of the code is a record of its methods. \<open>grpc\<close>, TLS and \<open>fmt\<close> are third-party or
  standard code: a dial and a remote call are arguments that see the options and the deadline.
\<close>

subsection \<open>Dial options\<close>

datatype 'cfg credentials = NewTLS 'cfg | NewClientTLSFromCert | InsecureCredentials

record keepalive_params =
  ka_Time :: int
  ka_Timeout :: int
  ka_PermitWithoutStream :: bool

datatype 'cfg dial_option =
    WithTransportCredentials "'cfg credentials"
  | WithKeepaliveParams keepalive_params
  | WithBlock

definition DefaultDialOpts :: "'cfg option \<Rightarrow> 'cfg dial_option list" where
  "DefaultDialOpts tlsCfg =
     (let creds = (case tlsCfg of Some cfg \<Rightarrow> NewTLS cfg | None \<Rightarrow> NewClientTLSFromCert)
      in [WithTransportCredentials creds,
          WithKeepaliveParams \<lparr>ka_Time = 30 * 10 ^ 9, ka_Timeout = 10 * 10 ^ 9, ka_PermitWithoutStream = True\<rparr>,
          WithBlock])"

definition InsecureDialOpts :: "'cfg dial_option list" where
  "InsecureDialOpts = [WithTransportCredentials InsecureCredentials, WithBlock]"

definition encrypted :: "'cfg dial_option list \<Rightarrow> bool" where
  "encrypted opts \<longleftrightarrow> WithTransportCredentials InsecureCredentials \<notin> set opts"

lemma default_dial_encrypted: "encrypted (DefaultDialOpts cfg)"
  by (auto simp: encrypted_def DefaultDialOpts_def Let_def split: option.split)

lemma insecure_dial_not_encrypted: "\<not> encrypted InsecureDialOpts"
  by (simp add: encrypted_def InsecureDialOpts_def)

text \<open>Both block until the connection is up, so a dial that succeeds has a peer.\<close>

lemma dials_block: "WithBlock \<in> set (DefaultDialOpts cfg)" "WithBlock \<in> set InsecureDialOpts"
  by (simp_all add: DefaultDialOpts_def InsecureDialOpts_def Let_def)

subsection \<open>The transport\<close>

text \<open>
  The pool keeps the options it dials with. \<open>dial opts deadline addr\<close> and \<open>call deadline c\<close> say
  whether a dial and a remote call succeed; a dial ends at the earlier of the two deadlines.
\<close>

record 'cfg Transport =
  tr_myAddr :: string
  tr_pool :: ConnPool
  tr_opts :: "'cfg dial_option list"
  tr_rpcTimeout :: int

definition NewTransport :: "string \<Rightarrow> 'cfg dial_option list \<Rightarrow> ConnPool \<Rightarrow> int \<Rightarrow> 'cfg Transport" where
  "NewTransport myAddr opts pool rpcTimeout =
     (let rpcTimeout' = (if rpcTimeout \<le> 0 then int DefaultRPCTimeout else rpcTimeout)
      in \<lparr>tr_myAddr = myAddr, tr_pool = pool, tr_opts = opts, tr_rpcTimeout = rpcTimeout'\<rparr>)"

definition dial_ok :: "('cfg dial_option list \<Rightarrow> int \<Rightarrow> string \<Rightarrow> bool) \<Rightarrow> 'cfg Transport \<Rightarrow> string \<Rightarrow> bool" where
  "dial_ok dial t = dial (tr_opts t) (min (tr_rpcTimeout t) (int DefaultDialTimeout))"

definition Transport_Send :: "('cfg dial_option list \<Rightarrow> int \<Rightarrow> string \<Rightarrow> bool) \<Rightarrow> (int \<Rightarrow> rpc_call \<Rightarrow> bool)
    \<Rightarrow> string \<Rightarrow> message \<Rightarrow> 'cfg Transport \<Rightarrow> 'cfg Transport \<times> (rpc_call list \<times> transport_error option)" where
  "Transport_Send dial call addr msg t =
     (case pool_send (dial_ok dial t) (call (tr_rpcTimeout t)) msg addr (tr_pool t) of
        (p, r) \<Rightarrow> (t\<lparr>tr_pool := p\<rparr>, r))"

text \<open>The goroutines of a broadcast go through the pool in the order \<open>order\<close>.\<close>

definition Transport_Broadcast :: "('cfg dial_option list \<Rightarrow> int \<Rightarrow> string \<Rightarrow> bool) \<Rightarrow> (int \<Rightarrow> rpc_call \<Rightarrow> bool)
    \<Rightarrow> string list \<Rightarrow> message \<Rightarrow> 'cfg Transport
    \<Rightarrow> 'cfg Transport \<times> (rpc_call list \<times> transport_error option)" where
  "Transport_Broadcast dial call order msg t =
     (case pool_sends (dial_ok dial t) (call (tr_rpcTimeout t)) msg order (tr_pool t) of
        (p, calls, errs) \<Rightarrow>
          (t\<lparr>tr_pool := p\<rparr>, (calls, if 0 < errs then Some (SendErrors errs) else None)))"

lemma NewTransport_timeout: "0 < tr_rpcTimeout (NewTransport me opts p t)"
  by (simp add: NewTransport_def DefaultRPCTimeout_def Let_def)

lemma Transport_Send_keeps:
  "tr_rpcTimeout (fst (Transport_Send dial call a m t)) = tr_rpcTimeout t \<and>
   tr_opts (fst (Transport_Send dial call a m t)) = tr_opts t \<and>
   (pool_ok (tr_pool t) \<longrightarrow> pool_ok (tr_pool (fst (Transport_Send dial call a m t))))"
  by (simp add: Transport_Send_def pool_send_eq pool_ok_slow)

text \<open>A transport that has reached an address once never dials it again.\<close>

lemma Transport_Send_reuses:
  assumes "Transport_Send dial call a (BlockMsg b) t = (t', r)" "fst r \<noteq> []"
  shows "Transport_Send dial' call' a m t' = (t', Send (\<lambda>_. True) (call' (tr_rpcTimeout t)) a m)"
proof -
  have t': "t' = t\<lparr>tr_pool := fst (GetConn_slow (dial_ok dial t a) a (tr_pool t))\<rparr>"
    and r: "r = Send (reachable_at (dial_ok dial t) (tr_pool t)) (call (tr_rpcTimeout t)) a (BlockMsg b)"
    using assms(1) by (simp_all add: Transport_Send_def pool_send_eq)
  have "reachable_at (dial_ok dial t) (tr_pool t) a" using assms(2) r by (simp add: Send_def split: if_splits)
  then obtain cc where cc: "conns (tr_pool t') a = Some cc"
    by (cases "conns (tr_pool t) a") (auto simp: t' reachable_at_def GetConn_slow_def Let_def)
  then have "Send (reachable_at p (tr_pool t')) ok a m = Send (\<lambda>_. True) ok a m" for p ok
    by (intro Send_cong) (simp add: reachable_at_def)
  with cc show ?thesis by (simp add: Transport_Send_def pool_send_eq GetConn_slow_def) (simp add: t')
qed

text \<open>A broadcast in committee order, to all addresses but its own, is the one of \<open>Network\<close>.\<close>

lemma Transport_Broadcast_eq:
  "snd (Transport_Broadcast dial call (targets (tr_myAddr t) c) msg t) =
     BroadcastToCommittee (reachable_at (dial_ok dial t) (tr_pool t)) (call (tr_rpcTimeout t)) (tr_myAddr t) c msg"
  by (simp add: Transport_Broadcast_def pool_sends_eq BroadcastToCommittee_eq Let_def)

subsection \<open>The router\<close>

text \<open>The two interfaces a router is built on, over a state \<open>'s\<close> of the node.\<close>

record ('s, 'e) ConsensusEngine =
  ce_HandlePropose :: "'s \<Rightarrow> Block \<Rightarrow> 's \<times> ('e + VoteMsg)"
  ce_HandleNewView :: "'s \<Rightarrow> NewViewMsg \<Rightarrow> 's"

record ('s, 'e) BlockStore =
  bs_BestBlock :: "'s \<Rightarrow> 'e + Block option"
  bs_History :: "'s \<Rightarrow> 'e + Block list"

record ('s, 'e) Router =
  rt_engine :: "('s, 'e) ConsensusEngine"
  rt_store :: "('s, 'e) BlockStore"

definition NewRouter :: "('s, 'e) ConsensusEngine \<Rightarrow> ('s, 'e) BlockStore \<Rightarrow> ('s, 'e) Router" where
  "NewRouter engine bs = \<lparr>rt_engine = engine, rt_store = bs\<rparr>"

datatype rpc_request =
    ProposeReq "Block option"
  | NewViewReq "NewViewMsg option"
  | UpdateReq "string option"
  | HistoryReq "string option"

datatype rpc_reply =
    VoteReply VoteMsg
  | EmptyReply
  | UpdateReply "Block option"
  | HistoryReply HistoryResponse
  | Status status_code

definition Router_serve :: "('s, 'e) Router \<Rightarrow> 's \<Rightarrow> rpc_request \<Rightarrow> 's \<times> rpc_reply" where
  "Router_serve r s req =
     (case req of
        ProposeReq b \<Rightarrow> (case Router_Propose (ce_HandlePropose (rt_engine r)) s b of
            (s', Inl c) \<Rightarrow> (s', Status c) | (s', Inr v) \<Rightarrow> (s', VoteReply v))
      | NewViewReq m \<Rightarrow> (case Router_SendNewView (ce_HandleNewView (rt_engine r)) s m of
            (s', Some c) \<Rightarrow> (s', Status c) | (s', None) \<Rightarrow> (s', EmptyReply))
      | UpdateReq i \<Rightarrow> (s, case Router_RequestUpdate (bs_BestBlock (rt_store r) s) i of
            Inl c \<Rightarrow> Status c | Inr b \<Rightarrow> UpdateReply b)
      | HistoryReq i \<Rightarrow> (s, case Router_RequestHistory (bs_History (rt_store r) s) i of
            Inl c \<Rightarrow> Status c | Inr h \<Rightarrow> HistoryReply h))"

text \<open>
  Only a proposal and a view change that are present reach the engine; every other request
  leaves the node as it is. A missing message is an invalid argument.
\<close>

lemma Router_serve_state:
  "fst (Router_serve r s req) =
     (case req of ProposeReq (Some b) \<Rightarrow> fst (ce_HandlePropose (rt_engine r) s b)
      | NewViewReq (Some m) \<Rightarrow> ce_HandleNewView (rt_engine r) s m
      | _ \<Rightarrow> s)"
  by (auto simp: Router_serve_def Router_Propose_def Router_SendNewView_def split: rpc_request.split
      option.split prod.split sum.split)

lemma Router_serve_missing:
  "snd (Router_serve r s req) = Status InvalidArgument \<longleftrightarrow>
     req \<in> {ProposeReq None, NewViewReq None, UpdateReq None, HistoryReq None}"
  by (auto simp: Router_serve_def Router_Propose_def Router_SendNewView_def Router_RequestUpdate_def
      Router_RequestHistory_def split: rpc_request.splits option.splits prod.splits sum.splits)

definition routerError :: "(string \<Rightarrow> 'arg list \<Rightarrow> string) \<Rightarrow> status_code \<Rightarrow> string \<Rightarrow> string \<Rightarrow> 'arg list
    \<Rightarrow> status_code \<times> string" where
  "routerError sprintf code method_name format args =
     (code, sprintf (''network.Router.'' @ method_name @ '': '' @ format) args)"

subsection \<open>Discovery\<close>

record 'pk Discovery =
  di_myID :: string
  di_configs :: "'pk ConfigStore"
  di_safety :: "Block \<Rightarrow> QuorumCert option \<Rightarrow> bool"
  di_rpc :: "string \<Rightarrow> bool"
  di_syncer :: Syncer

definition NewDiscovery :: "string \<Rightarrow> 'pk ConfigStore \<Rightarrow> (Block \<Rightarrow> QuorumCert option \<Rightarrow> bool)
    \<Rightarrow> (string \<Rightarrow> bool) \<Rightarrow> Syncer \<Rightarrow> 'pk Discovery" where
  "NewDiscovery me cs safe rpc syncer =
     \<lparr>di_myID = me, di_configs = cs, di_safety = safe, di_rpc = rpc, di_syncer = syncer\<rparr>"

definition Discovery_SyncIfBehind :: "(bytes \<Rightarrow> bytes) \<Rightarrow> (string \<Rightarrow> string \<Rightarrow> Block option option)
    \<Rightarrow> (string \<Rightarrow> string \<Rightarrow> HistoryResponse option) \<Rightarrow> 'pk Discovery \<Rightarrow> u64 \<Rightarrow> string list
    \<Rightarrow> (string \<Rightarrow> int) \<Rightarrow> string list \<Rightarrow> (panic + discovery_error option) option" where
  "Discovery_SyncIfBehind H rpcU rpcH d knownLatestConf updates delay order =
     SyncIfBehind H (di_safety d) (di_rpc d) (rpcU (di_myID d))
       (sy_rpcPool (di_syncer d)) (rpcH (sy_myID (di_syncer d))) (di_configs d) knownLatestConf
       updates (heard_within (sy_timeout (di_syncer d)) delay order)"

text \<open>A replica that knows of no later configuration asks nobody.\<close>

lemma Discovery_up_to_date:
  assumes "Latest (di_configs d) = Inr c" "k \<le> Number c"
  shows "Discovery_SyncIfBehind H rpcU rpcH d k updates delay order = Some (Inr None)"
  using assms by (simp add: Discovery_SyncIfBehind_def SyncIfBehind_def)

subsection \<open>Adapters\<close>

text \<open>
  \<open>NewDHotStuff\<close> wraps the signing function, and the selector holds the same store that the
  replica records rounds in: it always reads the current one.
\<close>

record signerAdapter =
  sa_fn :: "u64 \<Rightarrow> u64 \<Rightarrow> bytes \<Rightarrow> bytes option"

definition signerAdapter_Sign :: "signerAdapter \<Rightarrow> u64 \<Rightarrow> u64 \<Rightarrow> bytes \<Rightarrow> bytes option" where
  "signerAdapter_Sign s viewNum confNum blockHash = sa_fn s viewNum confNum blockHash"

record LeaderSelector =
  ls_store :: Store

definition NewLeaderSelector :: "Store \<Rightarrow> LeaderSelector" where
  "NewLeaderSelector s = \<lparr>ls_store = s\<rparr>"

definition LeaderSelector_Select :: "LeaderSelector \<Rightarrow> 'pk Committee \<Rightarrow> u64 \<Rightarrow> 'pk Replica option" where
  "LeaderSelector_Select ls c currentHeight = Select (ls_store ls) c currentHeight"

lemma selectLeader_selector:
  "repStore d = Some s \<Longrightarrow>
   selectLeader mc d = Inr (LeaderSelector_Select (NewLeaderSelector s) mc (curView d))"
  by (simp add: selectLeader_def LeaderSelector_Select_def NewLeaderSelector_def)

end
