(* ===== verification/Spec2Isabelle.thy ===== *)
theory Spec2Isabelle
  imports Membership_Properties Crypto_Properties Consensus_Properties Sync_Properties
    Harness_Properties System_Properties Tool_Properties Network_Properties Describe Endpoint
begin

text \<open>
  D-HotStuff: a chained HotStuff protocol with dynamic committees, in Go.

  \<^bold>\<open>The program.\<close> A replica (\<^verbatim>\<open>internal/consensus\<close>) handles proposals, votes, view-change
  messages, client requests and timeouts. A proposal is checked by the safety rule
  (\<^verbatim>\<open>safety.go\<close>), voted for, and pushed through two commit mechanisms: the explicit three-chain
  check and a four-slot pipeline (\<^verbatim>\<open>pipeline.go\<close>). Committed blocks go to the deliverer
  (\<^verbatim>\<open>deliver.go\<close>), which executes the regular requests of the batch and applies its membership
  requests to the committee of the block's configuration (\<^verbatim>\<open>internal/membership\<close>), installing
  the next committee in the append-only configuration store. Votes are verified and aggregated
  into quorum certificates (\<^verbatim>\<open>internal/crypto\<close>); leaders rotate or are selected by reputation
  (\<^verbatim>\<open>internal/reputation\<close>). A replica that lags behind asks its peers for blocks and histories
  (\<^verbatim>\<open>internal/discovery\<close>, \<^verbatim>\<open>internal/statetransfer\<close>). Messages travel over gRPC
  (\<^verbatim>\<open>internal/network\<close>).

  \<^bold>\<open>Theories and code.\<close>
  \<^item> \<open>Prelude\<close>: words, byte strings, Go panics, big-endian buffers, loops with a \<open>seen\<close> map,
    channels with non-blocking operations.
  \<^item> \<open>Wire\<close>: the messages of \<^verbatim>\<open>proto/dhotstuff.pb.go\<close>.
  \<^item> \<open>Committee\<close>, \<open>Requests\<close>, \<open>Quorum\<close>, \<open>ConfigStore\<close>: \<^verbatim>\<open>internal/membership/{committee,
    request,quorum,config_store}.go\<close>. The locale \<open>bft_quorum\<close> states what a quorum system
    promises and is interpreted on committees; the locale \<open>config_log\<close> states what an
    append-only log promises and is interpreted on the configuration store.
  \<^item> \<open>Signer\<close>, \<open>QC\<close>: \<^verbatim>\<open>internal/crypto/{signer,ecdsa_qc}.go\<close>.
  \<^item> \<open>Float64\<close>, \<open>Reputation\<close>: double-precision arithmetic and \<^verbatim>\<open>internal/reputation/store.go\<close>.
  \<^item> \<open>Safety\<close>, \<open>Pipeline\<close>, \<open>Deliver\<close>, \<open>ViewChange\<close>, \<open>DHotStuff\<close>: \<^verbatim>\<open>internal/consensus\<close>, one
    theory per file. The locale \<open>block_store\<close> is the reader interface of the safety rule, the
    locale \<open>commit_window\<close> the contract of the four-slot window.
  \<^item> \<open>Replica\<close>: the handlers as a step relation, its invariant and its growth relation.
    \<open>ChainRun\<close>: the same relation with the proposals as labels, and its refinement of a
    deliverer that is handed the blocks of a chain, where a proposal may belong to any
    configuration installed before it. \<open>Messages\<close>: what a replica sends in a run.
  \<^item> \<open>System\<close>: many replicas and a network that reorders, repeats and drops what was sent, with
    the messages of faulty members added; where votes and certificates come from. \<open>Rounds\<close>:
    from a proposal over the votes of a quorum to the next proposal. \<open>ViewRounds\<close>: from the
    timeouts of a quorum over its view changes to the next proposal. \<open>Steady\<close>: rounds in a row,
    and what the voters execute in them. \<open>Certified\<close>: chains whose certificates all validate. \<open>Forks\<close>: a run of the system
    in which a faulty member sends two correct ones different chains. \<open>Overcount\<close>: what
    reconfigurations that \<open>Apply\<close> should have refused do to the votes and the leaders.
  \<^item> \<open>History\<close>, \<open>Syncer\<close>: \<^verbatim>\<open>internal/statetransfer\<close>. \<open>Discovery\<close>: \<^verbatim>\<open>internal/discovery\<close>.
    \<open>Network\<close>: \<^verbatim>\<open>internal/network\<close>; \<open>Sending\<close> puts its transport over its connection pool, also
    with the time that dials take. \<open>Endpoint\<close>: the structs, constructors and interfaces a node is
    wired from, with the methods of the transport, the router and the discovery on them.
    \<open>Describe\<close>: the \<open>String\<close> methods.
  \<^item> \<open>Bench\<close>: the block stores, windows and counters of \<^verbatim>\<open>internal/benchutil\<close> and
    \<^verbatim>\<open>internal/repbench\<close>; it interprets \<open>block_store\<close> and \<open>commit_window\<close> on them.
    \<open>Cluster\<close> and \<open>RepCluster\<close>: the round drivers of the two packages, from key generation to
    the benchmark report, \<open>Timing\<close>: the durations and rates in it, over a clock. \<open>NetSim\<close>: \<^verbatim>\<open>tests/simulation/network_sim.go\<close>.
  \<^item> \<open>GoText\<close>: what the program uses of \<^verbatim>\<open>fmt\<close>, \<^verbatim>\<open>encoding/base64\<close>, \<^verbatim>\<open>encoding/pem\<close> and
    \<^verbatim>\<open>path/filepath\<close>. \<open>Keygen\<close>: \<^verbatim>\<open>cmd/keygen/main.go\<close>, its loop as a partial function, since it
    does not end for one count. \<open>Metrics\<close>: \<^verbatim>\<open>internal/metrics/metrics.go\<close>.
  \<^item> \<open>Samples\<close>, \<open>Links\<close>, \<open>Batches\<close>, \<open>Solo\<close>: a concrete instance of the parameters, two chains of blocks over
    it, one with a reconfiguration, a chain as a collector proposes it on votes, and a run of a committee of one.
    \<open>Membership_Properties\<close>, \<open>Crypto_Properties\<close>, \<open>Consensus_Properties\<close>, \<open>System_Properties\<close>,
    \<open>Sync_Properties\<close>, \<open>Network_Properties\<close>, \<open>Harness_Properties\<close>, \<open>Tool_Properties\<close> and this theory: the properties.

  \<^bold>\<open>State and operations.\<close> A Go struct is a record, a pointer that may be nil an \<open>option\<close>, an
  error return a value of a sum type, a reachable panic a value of type \<open>panic\<close>. A method that
  holds its mutex for its whole body is one function on the state. Where a method releases the
  lock in between (\<open>HandleTimeout\<close>, \<open>GetConn\<close>), each locked section is an operation of its own
  and the interleavings are explicit: \<open>Replica.step\<close> lets any handler run between the three parts
  of a timeout, \<open>Network.slow_paths\<close> orders the slow paths of the pool. Goroutines that answer on
  a channel are the list of arrivals, in any order. Counters and numbers of the wire are 64-bit
  words and wrap.

  \<^bold>\<open>Parameters.\<close> SHA-256, ECDSA, the key parsers, gRPC, the executor and the transport's error
  reports are arguments, and so are key generation, key encodings, the file system, the
  Prometheus client, the HTTP server and the random draws of the simulator.
  Hypotheses about them are stated where they are used: injectivity of the hash on the inputs at
  hand, signatures that verify and fit the field size.

  \<^bold>\<open>What is shown.\<close> Quorum certificates that pass validation intersect in a correct replica and
  cannot certify two hashes; certificates are built exactly when a quorum of distinct signers
  voted; reconfiguration refines an abstract operation on member sets, and the thresholds are
  optimal; commits follow the order of proposals and delivery is exactly once per block hash; the
  invariant of a replica holds in every reachable state and its logs only grow; a replica on a
  chain of certified proposals executes exactly all but the last three of them, whatever comes in
  between, replicas on one chain agree, and so do replicas on two chains whose certificates all
  validate, when correct members sign one block per height; behind every certificate that a correct replica builds
  stand the votes of more than \<open>FaultCap\<close> correct ones, and in a system of correct replicas behind
  every certificate a quorum; a quorum that accepts a block brings about the next proposal, and so does a quorum that
  times out, under the highest certificate it knows; round after round the voters execute the
  queued requests of the collector in order;
  everything a replica sends is well formed. Histories survive
  the wire and an answered history is vouched for by correct replicas, and a joining replica is
  answered when the correct members respond in time; a benchmark cluster
  delivers all but the last four batches it runs, with at most \<open>FaultCap\<close> timeouts in a row; the
  simulated network keeps its delay bound; the keys that the key generator writes load again, and
  it ends for every count but the largest. Other theorems pin down
  behaviour that the repository's documents do not describe: certificates in proposals that
  nobody checks, with which one faulty leader makes correct replicas execute different requests,
  a synchronisation that one faulty replica can stop, committees that count a member twice and then
  find no quorum, or that are empty,
  certificates that mix votes, a lock
  that moves on rejected proposals, two votes in one view, quorums of one sender, hashes that do
  not cover the batch, requests executed twice, and votes that no receiver can use.

  \<^bold>\<open>Bounds.\<close> Loops are structural recursions over the list they range over, so no fuel is
  needed; the counting loop of the key generator is a partial function that is shown to return; the walk of \<open>Extends\<close> keeps the source's bound of 1024 iterations, which decides
  ancestry up to 1023 links. Lengths of logs are assumed below \<open>2 ^ 64\<close> where the code casts them.

  \<^bold>\<open>Not modelled.\<close> The generated gRPC stubs and message codecs, the internals of Prometheus and of
  the HTTP server, what gRPC does with its dial options, command-line flags and log lines. The clock is a parameter
  of the benchmarks' timings. The configuration files are read by no Go code of the repository.
\<close>

section \<open>Properties across components\<close>

subsection \<open>The fate of a vote\<close>

lemma HandlePropose_outbox:
  assumes "HandlePropose env b d = Inr d'"
  shows "outbox d' = outbox d \<or> (\<exists>a v. outbox d' = outbox d @ [SendTo a (Vote v)])"
  using assms
proof (cases rule: HandlePropose_cases)
  case (2 mc d1 d2 bDouble bPrime bb)
  have "outbox d' = outbox (chain_updates env b bDouble bPrime d1)"
    using three_chain_frame [OF 2(7)] by (simp only: 2(8) pipeline_part_frame)
  then have "outbox d' = outbox d1" by (simp only: chain_updates_frame)
  moreover have "outbox d1 = outbox d \<or> (\<exists>a v. outbox d1 = outbox d @ [SendTo a (Vote v)])"
    using 2(4) by (auto simp: vote_part_def Let_def split: if_splits option.splits sum.splits)
  ultimately show ?thesis by simp
qed simp

text \<open>C36: everything \<open>HandlePropose\<close> hands to the network is a vote, and the transport rejects
  every vote: no remote call is made and an error is returned, whatever the connections do.\<close>

theorem votes_are_never_transmitted:
  assumes "HandlePropose env b d = Inr d'" "outbox d' = outbox d @ acts" "act \<in> set acts"
  shows "\<exists>addr v. act = SendTo addr (Vote v) \<and> fst (Send getClient rpcOk addr (Vote v)) = [] \<and>
    snd (Send getClient rpcOk addr (Vote v)) \<noteq> None"
  using HandlePropose_outbox [OF assms(1)] assms(2,3) by (auto simp: Send_Vote)

theorem votes_are_never_transmitted_witness:
  "\<exists>d' act. HandlePropose (sample_env newMemBlockchain) (sample_block [7] 0 None []) sample_node = Inr d' \<and>
     outbox d' = [act] \<and> (\<exists>addr v. act = SendTo addr (Vote v) \<and>
       fst (Send (\<lambda>_. True) (\<lambda>_. True) addr (Vote v)) = [])"
proof -
  let ?e = "sample_env newMemBlockchain" and ?b = "sample_block [7] 0 None []"
  obtain d' where d': "HandlePropose ?e ?b sample_node = Inr d'" using sample_propose by blast
  obtain act where act: "outbox d' = outbox sample_node @ [act]"
    using HandlePropose_vote [OF d', of four "replicate 64 0"]
    by (auto simp: SafeNode_def sample_sign_def)
  from votes_are_never_transmitted [OF d' act, of act "\<lambda>_. True" "\<lambda>_. True"] d' act show ?thesis by auto
qed



end
